(* ===== verification/Prelude.thy ===== *)
theory Prelude
  imports Main "HOL-Library.Word"
begin

text \<open>
  Shared vocabulary of the Sol OS development: the machine integer types, the result of a Rust
  computation (a value, an error, or a panic), Rust's checked, saturating and overflow-trapping
  arithmetic, and slices. The kernel image is built with the \<open>dev\<close> profile, whose plain
  \<open>+\<close>, \<open>-\<close> and \<open>*\<close> panic on overflow; a computation proved never to panic therefore
  computes the same value in the \<open>release\<close> profile, where the same operators wrap.
\<close>

unbundle bit_operations_syntax

named_theorems rust_simps
  \<open>unfolding the arithmetic and slice primitives, with their range conditions\<close>
named_theorems wf_intros
  \<open>preservation of the components' well-formedness predicates\<close>

section \<open>Machine integers\<close>

type_synonym u8 = "8 word"
type_synonym u16 = "16 word"
type_synonym u32 = "32 word"
type_synonym u64 = "64 word"
type_synonym usize = "64 word"

definition checked_add :: "'a::len word \<Rightarrow> 'a word \<Rightarrow> 'a word option" where
  "checked_add a b = (if unat a + unat b < 2 ^ LENGTH('a) then Some (a + b) else None)"

definition checked_mul :: "'a::len word \<Rightarrow> 'a word \<Rightarrow> 'a word option" where
  "checked_mul a b = (if unat a * unat b < 2 ^ LENGTH('a) then Some (a * b) else None)"

definition checked_sub :: "'a::len word \<Rightarrow> 'a word \<Rightarrow> 'a word option" where
  "checked_sub a b = (if b \<le> a then Some (a - b) else None)"

definition saturating_sub :: "'a::len word \<Rightarrow> 'a word \<Rightarrow> 'a word" where
  "saturating_sub a b = (if b \<le> a then a - b else 0)"

definition saturating_mul :: "'a::len word \<Rightarrow> 'a word \<Rightarrow> 'a word" where
  "saturating_mul a b = (if unat a * unat b < 2 ^ LENGTH('a) then a * b else - 1)"

text \<open>\<open>is_power_of_two\<close>: exactly one bit is set.\<close>

definition is_power_of_two :: "'a::len word \<Rightarrow> bool" where
  "is_power_of_two x \<longleftrightarrow> x \<noteq> 0 \<and> x AND (x - 1) = 0"

section \<open>Results\<close>

text \<open>
  \<open>Ok\<close> and \<open>Err\<close> are the constructors of \<open>Result\<close>; \<open>Panic\<close> stands for a computation that
  panics (an index out of range, an arithmetic overflow, a failed \<open>expect\<close> or \<open>assert\<close>).
\<close>

datatype ('e, 'a) outcome = Ok 'a | Err 'e | Panic

text \<open>A computation that returns or panics, and has no error.\<close>

type_synonym 'a may_panic = "(unit, 'a) outcome"

definition obind :: "('e, 'a) outcome \<Rightarrow> ('a \<Rightarrow> ('e, 'b) outcome) \<Rightarrow> ('e, 'b) outcome" where
  "obind m f = (case m of Ok x \<Rightarrow> f x | Err e \<Rightarrow> Err e | Panic \<Rightarrow> Panic)"

definition map_err :: "('e \<Rightarrow> 'f) \<Rightarrow> ('e, 'a) outcome \<Rightarrow> ('f, 'a) outcome" where
  "map_err g m = (case m of Ok x \<Rightarrow> Ok x | Err e \<Rightarrow> Err (g e) | Panic \<Rightarrow> Panic)"

definition ok_or :: "'a option \<Rightarrow> 'e \<Rightarrow> ('e, 'a) outcome" where
  "ok_or x e = (case x of Some a \<Rightarrow> Ok a | None \<Rightarrow> Err e)"

definition or_panic :: "'a option \<Rightarrow> ('e, 'a) outcome" where
  "or_panic x = (case x of Some a \<Rightarrow> Ok a | None \<Rightarrow> Panic)"

text \<open>\<open>expect\<close> on a \<open>Result\<close>: an error becomes a panic.\<close>

definition expect_ok :: "('e, 'a) outcome \<Rightarrow> ('f, 'a) outcome" where
  "expect_ok m = (case m of Ok x \<Rightarrow> Ok x | Err e \<Rightarrow> Panic | Panic \<Rightarrow> Panic)"

text \<open>Plain operators, which trap on overflow.\<close>

definition add_ov :: "'a::len word \<Rightarrow> 'a word \<Rightarrow> ('e, 'a word) outcome" where
  "add_ov a b = or_panic (checked_add a b)"

definition sub_ov :: "'a::len word \<Rightarrow> 'a word \<Rightarrow> ('e, 'a word) outcome" where
  "sub_ov a b = or_panic (checked_sub a b)"

definition mul_ov :: "'a::len word \<Rightarrow> 'a word \<Rightarrow> ('e, 'a word) outcome" where
  "mul_ov a b = or_panic (checked_mul a b)"

text \<open>
  Sizes and indices whose bit patterns are never inspected are modelled as natural numbers below
  \<open>2 ^ 64\<close>; these are their plain operators.
\<close>

definition uadd :: "nat \<Rightarrow> nat \<Rightarrow> ('e, nat) outcome" where
  "uadd a b = (if a + b < 2 ^ 64 then Ok (a + b) else Panic)"

definition usub :: "nat \<Rightarrow> nat \<Rightarrow> ('e, nat) outcome" where
  "usub a b = (if b \<le> a then Ok (a - b) else Panic)"

definition umul :: "nat \<Rightarrow> nat \<Rightarrow> ('e, nat) outcome" where
  "umul a b = (if a * b < 2 ^ 64 then Ok (a * b) else Panic)"

text \<open>A \<open>for\<close> loop over a list; the loop variables that it changes are the state.\<close>

fun for_each :: "('a \<Rightarrow> 's \<Rightarrow> ('e, 's) outcome) \<Rightarrow> 'a list \<Rightarrow> 's \<Rightarrow> ('e, 's) outcome" where
  "for_each body [] s = Ok s"
| "for_each body (x # xs) s = obind (body x s) (for_each body xs)"

section \<open>Slices\<close>

text \<open>\<open>s.get(i..j)\<close>, and the panicking \<open>&s[i..j]\<close> and \<open>s[i]\<close>.\<close>

definition get_range :: "'a list \<Rightarrow> nat \<Rightarrow> nat \<Rightarrow> 'a list option" where
  "get_range xs i j = (if i \<le> j \<and> j \<le> length xs then Some (take (j - i) (drop i xs)) else None)"

definition subslice :: "'a list \<Rightarrow> nat \<Rightarrow> nat \<Rightarrow> ('e, 'a list) outcome" where
  "subslice xs i j = or_panic (get_range xs i j)"

definition idx :: "'a list \<Rightarrow> nat \<Rightarrow> ('e, 'a) outcome" where
  "idx xs i = (if i < length xs then Ok (xs ! i) else Panic)"

text \<open>\<open>s[i] = v\<close>.\<close>

definition set_idx :: "'a list \<Rightarrow> nat \<Rightarrow> 'a \<Rightarrow> ('e, 'a list) outcome" where
  "set_idx xs i v = (if i < length xs then Ok (xs[i := v]) else Panic)"

text \<open>\<open>s[i..j].copy_from_slice(src)\<close>: the range must be in bounds and as long as the source.\<close>

definition copy_to :: "'a list \<Rightarrow> nat \<Rightarrow> nat \<Rightarrow> 'a list \<Rightarrow> ('e, 'a list) outcome" where
  "copy_to xs i j src =
     (if i \<le> j \<and> j \<le> length xs \<and> length src = j - i
      then Ok (take i xs @ src @ drop j xs) else Panic)"

text \<open>\<open>s.copy_within(i..j, d)\<close>: a \<open>memmove\<close> inside the slice.\<close>

definition copy_within :: "'a list \<Rightarrow> nat \<Rightarrow> nat \<Rightarrow> nat \<Rightarrow> ('e, 'a list) outcome" where
  "copy_within xs i j d =
     (if i \<le> j \<and> j \<le> length xs \<and> d \<le> length xs - (j - i)
      then Ok (take d xs @ take (j - i) (drop i xs) @ drop (d + (j - i)) xs) else Panic)"

text \<open>\<open>s.chunks_exact(n)\<close>: the full chunks; a shorter remainder is left out.\<close>

fun chunks_exact :: "nat \<Rightarrow> 'a list \<Rightarrow> 'a list list" where
  "chunks_exact n xs =
     (if n = 0 \<or> length xs < n then [] else take n xs # chunks_exact n (drop n xs))"

text \<open>\<open>s.chunks(n)\<close>: the last chunk may be shorter.\<close>

fun chunks :: "nat \<Rightarrow> 'a list \<Rightarrow> 'a list list" where
  "chunks n xs = (if n = 0 \<or> xs = [] then [] else take n xs # chunks n (drop n xs))"

declare chunks_exact.simps [simp del] chunks.simps [simp del]

section \<open>Lemmas on results\<close>

lemma usize_ops_Ok [simp]:
  "a + b < 2 ^ 64 \<Longrightarrow> uadd a b = Ok (a + b)"
  "b \<le> a \<Longrightarrow> usub a b = Ok (a - b)"
  "a * b < 2 ^ 64 \<Longrightarrow> umul a b = Ok (a * b)"
  by (simp_all add: uadd_def usub_def umul_def)

lemma obind_simps [simp]:
  "obind (Ok x) f = f x"
  "obind (Err e) f = Err e"
  "obind Panic f = Panic"
  by (simp_all add: obind_def)

lemma obind_Ok_iff: "obind m f = Ok y \<longleftrightarrow> (\<exists>x. m = Ok x \<and> f x = Ok y)"
  by (cases m) auto

lemma obind_Err_iff: "obind m f = Err e \<longleftrightarrow> m = Err e \<or> (\<exists>x. m = Ok x \<and> f x = Err e)"
  by (cases m) auto

lemma obind_Panic_iff: "obind m f = Panic \<longleftrightarrow> m = Panic \<or> (\<exists>x. m = Ok x \<and> f x = Panic)"
  by (cases m) auto

lemmas obind_iffs = obind_Ok_iff obind_Err_iff obind_Panic_iff

lemma obind_cong [fundef_cong]:
  "m = m' \<Longrightarrow> (\<And>x. m' = Ok x \<Longrightarrow> f x = g x) \<Longrightarrow> obind m f = obind m' g"
  by (cases m') auto

lemma obind_not_Panic [intro]:
  "m \<noteq> Panic \<Longrightarrow> (\<And>x. m = Ok x \<Longrightarrow> f x \<noteq> Panic) \<Longrightarrow> obind m f \<noteq> Panic"
  by (cases m) auto

lemma obind_assoc: "obind (obind m f) g = obind m (\<lambda>x. obind (f x) g)"
  by (cases m) simp_all

text \<open>A loop whose body keeps an invariant and is then a total function is the fold of that function.\<close>

lemma for_each_fold:
  assumes "\<And>x s. x \<in> set xs \<Longrightarrow> P s \<Longrightarrow> body x s = Ok (f x s) \<and> P (f x s)" "P s"
  shows "for_each body xs s = Ok (fold f xs s) \<and> P (fold f xs s)"
  using assms by (induction xs arbitrary: s) auto

lemma for_each_append: "for_each body (xs @ ys) s = obind (for_each body xs s) (for_each body ys)"
proof (induction xs arbitrary: s)
  case (Cons x xs)
  then show ?case
    by (cases "body x s") simp_all
qed simp

lemma map_err_simps [simp]:
  "map_err g (Ok x) = Ok x" "map_err g (Err e) = Err (g e)" "map_err g Panic = Panic"
  by (simp_all add: map_err_def)

lemma map_err_iffs [simp]:
  "map_err g m = Ok x \<longleftrightarrow> m = Ok x"
  "map_err g m = Err f \<longleftrightarrow> (\<exists>e. m = Err e \<and> f = g e)"
  "map_err g m = Panic \<longleftrightarrow> m = Panic"
  by (cases m; auto)+

lemma ok_or_simps [simp]: "ok_or (Some a) e = Ok a" "ok_or None e = Err e"
  by (simp_all add: ok_or_def)

lemma ok_or_iffs [simp]:
  "ok_or x e = Ok a \<longleftrightarrow> x = Some a"
  "ok_or x e = Err f \<longleftrightarrow> x = None \<and> f = e"
  "ok_or x e \<noteq> Panic"
  by (cases x; auto)+

lemma or_panic_simps [simp]: "or_panic (Some a) = Ok a" "or_panic None = Panic"
  by (simp_all add: or_panic_def)

lemma or_panic_iffs [simp]:
  "or_panic x = Ok a \<longleftrightarrow> x = Some a"
  "or_panic x = Panic \<longleftrightarrow> x = None"
  "or_panic x \<noteq> Err e"
  by (cases x; auto)+

lemma expect_ok_simps [simp]:
  "expect_ok (Ok x) = Ok x" "expect_ok (Err e) = Panic" "expect_ok Panic = Panic"
  by (simp_all add: expect_ok_def)

section \<open>Lemmas on arithmetic\<close>

lemma checked_add_Some_iff [rust_simps]:
  "checked_add a b = Some c \<longleftrightarrow> unat c = unat a + unat (b :: 'a::len word)"
proof
  assume "checked_add a b = Some c"
  then show "unat c = unat a + unat b"
    by (auto simp: checked_add_def unat_word_ariths split: if_splits)
next
  assume *: "unat c = unat a + unat b"
  then have "unat a + unat b < 2 ^ LENGTH('a)"
    by (metis unsigned_less)
  moreover from * have "c = a + b"
    by (metis of_nat_add of_nat_unat ucast_id)
  ultimately show "checked_add a b = Some c"
    by (simp add: checked_add_def)
qed

lemma checked_mul_Some_iff [rust_simps]:
  "checked_mul a b = Some c \<longleftrightarrow> unat c = unat a * unat (b :: 'a::len word)"
proof
  assume "checked_mul a b = Some c"
  then show "unat c = unat a * unat b"
    by (auto simp: checked_mul_def unat_word_ariths split: if_splits)
next
  assume *: "unat c = unat a * unat b"
  then have "unat a * unat b < 2 ^ LENGTH('a)"
    by (metis unsigned_less)
  moreover from * have "c = a * b"
    by (metis of_nat_mult of_nat_unat ucast_id)
  ultimately show "checked_mul a b = Some c"
    by (simp add: checked_mul_def)
qed

lemma checked_add_None_iff [rust_simps]:
  "checked_add a b = None \<longleftrightarrow> 2 ^ LENGTH('a) \<le> unat a + unat (b :: 'a::len word)"
  by (auto simp: checked_add_def)

lemma checked_mul_None_iff [rust_simps]:
  "checked_mul a b = None \<longleftrightarrow> 2 ^ LENGTH('a) \<le> unat a * unat (b :: 'a::len word)"
  by (auto simp: checked_mul_def)

lemma checked_sub_Some_iff [rust_simps]:
  "checked_sub a b = Some c \<longleftrightarrow> unat a = unat b + unat (c :: 'a::len word)"
proof -
  have "unat (a - b) = unat a - unat b" if "b \<le> a"
    using that by (rule unat_sub)
  then show ?thesis
    by (auto simp: checked_sub_def word_le_nat_alt unat_sub word_unat_eq_iff)
qed

lemma checked_sub_None_iff [rust_simps]:
  "checked_sub a b = None \<longleftrightarrow> unat a < unat (b :: 'a::len word)"
  by (auto simp: checked_sub_def word_le_nat_alt)

lemma ov_Ok_iff [rust_simps]:
  "add_ov a b = Ok c \<longleftrightarrow> unat c = unat a + unat b"
  "mul_ov a b = Ok c \<longleftrightarrow> unat c = unat a * unat b"
  "sub_ov a b = Ok c \<longleftrightarrow> unat a = unat b + unat c"
  by (simp_all add: add_ov_def mul_ov_def sub_ov_def rust_simps)

lemma ov_Panic_iff [rust_simps]:
  "add_ov a b = Panic \<longleftrightarrow> 2 ^ LENGTH('a) \<le> unat a + unat (b :: 'a::len word)"
  "mul_ov a b = Panic \<longleftrightarrow> 2 ^ LENGTH('a) \<le> unat a * unat (b :: 'a::len word)"
  "sub_ov a b = Panic \<longleftrightarrow> unat a < unat (b :: 'a::len word)"
  by (simp_all add: add_ov_def mul_ov_def sub_ov_def rust_simps)

lemma ov_not_Err [simp]: "add_ov a b \<noteq> Err e" "mul_ov a b \<noteq> Err e" "sub_ov a b \<noteq> Err e"
  by (simp_all add: add_ov_def mul_ov_def sub_ov_def)

lemma unat_saturating_sub [simp]: "unat (saturating_sub a b) = unat a - unat b"
  by (auto simp: saturating_sub_def unat_sub word_le_nat_alt)

lemma unat_bounds:
  "unat (b :: u8) < 2 ^ 8" "unat (h :: u16) < 2 ^ 16" "unat (w :: u32) < 2 ^ 32" "unat (d :: u64) < 2 ^ 64"
  using unsigned_less [of b] unsigned_less [of h] unsigned_less [of w] unsigned_less [of d] by simp_all

lemma unat_of_nat_small: "n < 2 ^ LENGTH('a) \<Longrightarrow> unat (of_nat n :: 'a::len word) = n"
  by (simp add: unat_of_nat)

text \<open>Widening casts keep the value.\<close>

lemma unat_ucast_up:
  "LENGTH('a) \<le> LENGTH('b) \<Longrightarrow> unat (ucast (x :: 'a::len word) :: 'b::len word) = unat x"
  by (metis take_bit_nat_eq_self_iff order_less_le_trans one_le_numeral power_increasing
      unsigned_less unsigned_ucast_eq)

lemma unat_ucast_widen [simp]:
  "unat (ucast (b :: u8) :: u16) = unat b"
  "unat (ucast (b :: u8) :: u32) = unat b"
  "unat (ucast (h :: u16) :: u32) = unat h"
  "unat (ucast (b :: u8) :: u64) = unat b"
  "unat (ucast (h :: u16) :: u64) = unat h"
  "unat (ucast (w :: u32) :: u64) = unat w"
  by (simp_all add: unat_ucast_up)

lemma and_pred_eq_0_iff: "0 < n \<Longrightarrow> n AND (n - 1) = 0 \<longleftrightarrow> (\<exists>k. n = 2 ^ k)" for n :: nat
proof (induction n rule: less_induct)
  case (less n)
  show ?case
  proof (cases "even n")
    case True
    then obtain m where m: "n = 2 * m"
      by blast
    have "(2 * m - 1) div 2 = m - 1"
      by (cases m) auto
    with m less.prems have "n AND (n - 1) = 2 * (m AND (m - 1))"
      by (subst and_rec) auto
    moreover have "(\<exists>k. 2 * m = 2 ^ k) \<longleftrightarrow> (\<exists>k. m = 2 ^ k)"
    proof
      assume "\<exists>k. 2 * m = 2 ^ k"
      then obtain k where "2 * m = 2 ^ k" ..
      then show "\<exists>k. m = 2 ^ k"
        by (cases k) (auto dest: arg_cong [where f = even])
    qed (metis power_Suc)
    ultimately show ?thesis
      using less m by simp
  next
    case False
    then have "n AND (n - 1) = n - 1"
      by (subst and_rec) (auto elim!: oddE)
    moreover have "n = 1" if "n = 2 ^ k" for k
      using that False by (cases k) auto
    ultimately show ?thesis
      using less.prems by (metis diff_self_eq_0 Suc_leI diff_is_0_eq le_antisym One_nat_def power_0)
  qed
qed

lemma unat_and: "unat (x AND y) = unat x AND unat y"
  by (rule unsigned_and_eq)

lemma is_power_of_two_iff: "is_power_of_two x \<longleftrightarrow> (\<exists>k. unat x = 2 ^ k)"
proof (cases "x = 0")
  case False
  then have "unat (x - 1) = unat x - 1"
    by (simp add: unat_minus_one)
  with False have "x AND (x - 1) = 0 \<longleftrightarrow> unat x AND (unat x - 1) = 0"
    by (metis unat_and unat_eq_zero)
  with False and_pred_eq_0_iff [of "unat x"] show ?thesis
    by (simp add: is_power_of_two_def unat_gt_0)
qed (auto simp: is_power_of_two_def)

text \<open>Clearing the low bits rounds down to a multiple of a power of two.\<close>

lemma unat_take_bit: "unat (take_bit n x) = unat x mod 2 ^ n" for x :: "'a::len word"
  by (simp only: unsigned_take_bit_eq take_bit_nat_def)

lemma unat_and_not_mask:
  "unat (x AND NOT (mask n)) = unat x - unat x mod 2 ^ n" for x :: "'a::len word"
proof -
  have disj: "bit (x AND NOT (mask n)) i \<Longrightarrow> \<not> bit (take_bit n x) i" for i
    by (simp add: bit_simps)
  have "x = (x AND NOT (mask n)) OR take_bit n x"
    by (rule bit_word_eqI) (auto simp: bit_simps)
  also have "\<dots> = (x AND NOT (mask n)) + take_bit n x"
    by (rule disjunctive_add [symmetric]) (use disj in blast)
  finally have "x AND NOT (mask n) = x - take_bit n x"
    by (metis add_diff_cancel_right')
  moreover have "take_bit n x \<le> x"
    by (simp add: word_le_nat_alt unat_take_bit)
  ultimately show ?thesis
    by (simp add: unat_sub unat_take_bit)
qed

lemma mask_of_power:
  fixes a :: "'a::len word"
  assumes "unat a = 2 ^ k"
  shows "a - 1 = mask k"
proof -
  have "a = 2 ^ k"
    using assms by (metis of_nat_unat of_nat_power of_nat_numeral ucast_id)
  then show ?thesis
    by (simp add: mask_eq_exp_minus_1)
qed

text \<open>A quotient and a remainder are determined by the number they make up.\<close>

lemma mult_add_unique:
  fixes i j n :: nat
  assumes "i < n" "j < n" "a * n + i = b * n + j"
  shows "a = b \<and> i = j"
proof -
  have "(a * n + i) div n = a" "(b * n + j) div n = b" "(a * n + i) mod n = i" "(b * n + j) mod n = j"
    using assms(1,2) by simp_all
  with assms(3) show ?thesis by metis
qed

section \<open>Lemmas on slices\<close>

lemma get_range_Some_iff [rust_simps]:
  "get_range xs i j = Some ys \<longleftrightarrow> i \<le> j \<and> j \<le> length xs \<and> ys = take (j - i) (drop i xs)"
  by (auto simp: get_range_def)

lemma get_range_None_iff [rust_simps]:
  "get_range xs i j = None \<longleftrightarrow> \<not> (i \<le> j \<and> j \<le> length xs)"
  by (auto simp: get_range_def)

lemma subslice_Ok [simp]:
  "i \<le> j \<Longrightarrow> j \<le> length xs \<Longrightarrow> subslice xs i j = Ok (take (j - i) (drop i xs))"
  by (simp add: subslice_def get_range_def)

lemma idx_Ok [simp]: "i < length xs \<Longrightarrow> idx xs i = Ok (xs ! i)"
  by (simp add: idx_def)

lemma set_idx_Ok [simp]: "i < length xs \<Longrightarrow> set_idx xs i v = Ok (xs[i := v])"
  by (simp add: set_idx_def)

lemma copy_to_Ok [simp]:
  "i \<le> j \<Longrightarrow> j \<le> length xs \<Longrightarrow> length src = j - i \<Longrightarrow> copy_to xs i j src = Ok (take i xs @ src @ drop j xs)"
  by (simp add: copy_to_def)

lemma copy_within_Ok [simp]:
  "i \<le> j \<Longrightarrow> j \<le> length xs \<Longrightarrow> d \<le> length xs - (j - i) \<Longrightarrow>
   copy_within xs i j d = Ok (take d xs @ take (j - i) (drop i xs) @ drop (d + (j - i)) xs)"
  by (simp add: copy_within_def)

lemma length_chunks_exact: "0 < n \<Longrightarrow> length (chunks_exact n xs) = length xs div n"
proof (induction n xs rule: chunks_exact.induct)
  case (1 n xs)
  then show ?case
    by (auto simp: chunks_exact.simps [of n xs] le_div_geq)
qed

lemma chunks_exact_lengths: "c \<in> set (chunks_exact n xs) \<Longrightarrow> length c = n"
proof (induction n xs rule: chunks_exact.induct)
  case (1 n xs)
  then show ?case
    by (auto simp: chunks_exact.simps [of n xs] split: if_splits)
qed

lemma chunks_exact_subset: "c \<in> set (chunks_exact n xs) \<Longrightarrow> set c \<subseteq> set xs"
proof (induction n xs rule: chunks_exact.induct)
  case (1 n xs)
  then show ?case
    using set_take_subset [of n xs] set_drop_subset [of n xs]
    by (auto simp: chunks_exact.simps [of n xs] split: if_splits)
qed

lemma concat_chunks_exact: "0 < n \<Longrightarrow> n dvd length xs \<Longrightarrow> concat (chunks_exact n xs) = xs"
proof (induction n xs rule: chunks_exact.induct)
  case (1 n xs)
  show ?case
  proof (cases "length xs < n")
    case True
    with 1 have "xs = []"
      by (auto dest: nat_dvd_not_less)
    then show ?thesis
      by (simp add: chunks_exact.simps)
  next
    case False
    with 1 have "concat (chunks_exact n (drop n xs)) = drop n xs"
      by (auto simp: dvd_diff_nat)
    with False 1 show ?thesis
      by (simp add: chunks_exact.simps [of n xs])
  qed
qed

lemma chunks_exact_Nil [simp]: "chunks_exact n [] = []"
  by (cases n) (simp_all add: chunks_exact.simps)

lemma chunks_Nil [simp]: "chunks n [] = []"
  by (simp add: chunks.simps)

lemma concat_chunks: "0 < n \<Longrightarrow> concat (chunks n xs) = xs"
proof (induction n xs rule: chunks.induct)
  case (1 n xs)
  then show ?case
    by (cases "xs = []") (simp_all add: chunks.simps [of n xs])
qed

lemma chunks_exact_append:
  "0 < n \<Longrightarrow> n dvd length xs \<Longrightarrow> chunks_exact n (xs @ ys) = chunks_exact n xs @ chunks_exact n ys"
proof (induction n xs rule: chunks_exact.induct)
  case (1 n xs)
  show ?case
  proof (cases "length xs < n")
    case True
    with 1 have "xs = []"
      by (auto dest: nat_dvd_not_less)
    then show ?thesis by simp
  next
    case False
    with 1 have "chunks_exact n (drop n xs @ ys) = chunks_exact n (drop n xs) @ chunks_exact n ys"
      by (auto simp: dvd_diff_nat)
    with False 1 show ?thesis
      by (simp add: chunks_exact.simps [of n "xs @ ys"] chunks_exact.simps [of n xs])
  qed
qed

lemma chunks_append:
  "0 < n \<Longrightarrow> n dvd length xs \<Longrightarrow> chunks n (xs @ ys) = chunks n xs @ chunks n ys"
proof (induction n xs rule: chunks.induct)
  case (1 n xs)
  show ?case
  proof (cases "xs = []")
    case True
    then show ?thesis by simp
  next
    case False
    with 1 have "n \<le> length xs"
      by (auto dest: dvd_imp_le)
    moreover from this 1 False have "chunks n (drop n xs @ ys) = chunks n (drop n xs) @ chunks n ys"
      by (auto simp: dvd_diff_nat)
    ultimately show ?thesis
      using False 1 by (simp add: chunks.simps [of n "xs @ ys"] chunks.simps [of n xs])
  qed
qed

lemma chunks_single: "xs \<noteq> [] \<Longrightarrow> length xs \<le> n \<Longrightarrow> chunks n xs = [xs]"
  by (cases "n = 0") (simp_all add: chunks.simps [of n xs])

lemma dvd_length_concat: "(\<And>xs. xs \<in> set xss \<Longrightarrow> n dvd length xs) \<Longrightarrow> n dvd length (concat xss)"
  by (induction xss) auto

lemma chunks_exact_concat:
  "0 < n \<Longrightarrow> (\<And>xs. xs \<in> set xss \<Longrightarrow> n dvd length xs) \<Longrightarrow>
   chunks_exact n (concat xss) = concat (map (chunks_exact n) xss)"
  by (induction xss) (simp_all add: chunks_exact_append)

lemma chunks_eq_exact: "0 < n \<Longrightarrow> n dvd length xs \<Longrightarrow> chunks n xs = chunks_exact n xs"
proof (induction n xs rule: chunks.induct)
  case (1 n xs)
  show ?case
  proof (cases "xs = []")
    case False
    with 1 have "n \<le> length xs"
      by (auto dest: dvd_imp_le)
    with 1 False show ?thesis
      by (simp add: chunks.simps [of n xs] chunks_exact.simps [of n xs] dvd_diff_nat)
  qed simp
qed

text \<open>The \<open>k\<close>-th of a list of pieces of the same width.\<close>

lemma nth_piece:
  assumes "\<forall>x \<in> set xs. length x = w" "k < length xs"
  shows "take w (drop (w * k) (concat xs @ rest)) = xs ! k"
  using assms
proof (induction xs arbitrary: k)
  case (Cons x xs)
  then show ?case
    by (cases k) simp_all
qed simp

lemma length_pieces: "\<forall>x \<in> set xs. length x = w \<Longrightarrow> length (concat xs) = w * length xs"
  by (induction xs) auto

end
