(* ===== verification/Storage.thy ===== *)
theory Storage
  imports Prelude
begin

text \<open>
  The block-device seam (\<open>kernel/src/storage.rs\<close>). The trait \<open>BlockDevice\<close> is the record of its
  two methods; the contract the FAT32 layer relies on is the locale \<open>block_device_spec\<close>, and the
  RAM disk handed over by the boot loader is shown to meet it.
\<close>

section \<open>Definitions\<close>

definition SECTOR_SIZE :: nat where
  "SECTOR_SIZE = 512"

datatype storage_error = MissingRamdisk | InvalidRamdisk | SectorOutOfRange

text \<open>
  \<open>read_sector lba output\<close> fills the caller's 512-byte buffer; the model returns the new contents
  of the buffer. On an error every caller returns at once and drops the buffer.
\<close>

record block_device =
  sector_count :: u64
  read_sector :: "u32 \<Rightarrow> (storage_error, u8 list) outcome"

record ram_disk =
  rd_bytes :: "u8 list"

text \<open>
  \<open>from_boot_info\<close>: \<open>mem\<close> is the virtual memory the loader mapped, read by
  \<open>slice::from_raw_parts\<close>. \<open>usize\<close> is 64 bits wide, so the conversion of the length cannot fail.
\<close>

definition from_raw_parts :: "(u64 \<Rightarrow> u8) \<Rightarrow> u64 \<Rightarrow> usize \<Rightarrow> u8 list" where
  "from_raw_parts mem address len = map (\<lambda>i. mem (address + of_nat i)) [0..<unat len]"

definition from_boot_info ::
    "(u64 \<Rightarrow> u8) \<Rightarrow> u64 option \<Rightarrow> u64 \<Rightarrow> (storage_error, ram_disk) outcome" where
  "from_boot_info mem address len =
     obind (ok_or address MissingRamdisk) (\<lambda>address.
     if len = 0 \<or> len mod of_nat SECTOR_SIZE \<noteq> 0 then Err InvalidRamdisk
     else Ok \<lparr>rd_bytes = from_raw_parts mem address len\<rparr>)"

definition ram_sector_count :: "ram_disk \<Rightarrow> u64" where
  "ram_sector_count d = of_nat (length (rd_bytes d) div SECTOR_SIZE)"

definition ram_read_sector :: "ram_disk \<Rightarrow> u32 \<Rightarrow> (storage_error, u8 list) outcome" where
  "ram_read_sector d lba =
     obind (ok_or (checked_mul (ucast lba :: usize) (of_nat SECTOR_SIZE)) SectorOutOfRange) (\<lambda>start.
     obind (ok_or (checked_add start (of_nat SECTOR_SIZE)) SectorOutOfRange) (\<lambda>end.
     obind (ok_or (get_range (rd_bytes d) (unat start) (unat end)) SectorOutOfRange) (\<lambda>source.
     copy_to (replicate SECTOR_SIZE 0) 0 SECTOR_SIZE source)))"

definition ram_device :: "ram_disk \<Rightarrow> block_device" where
  "ram_device d = \<lparr>sector_count = ram_sector_count d, read_sector = ram_read_sector d\<rparr>"

text \<open>A Rust slice is shorter than the address space.\<close>

definition ram_ok :: "ram_disk \<Rightarrow> bool" where
  "ram_ok d \<longleftrightarrow> length (rd_bytes d) < 2 ^ 64"

section \<open>The contract of a block device\<close>

locale block_device_spec =
  fixes dev_of :: "'d \<Rightarrow> block_device"
    and invar :: "'d \<Rightarrow> bool"
  assumes read_in_range:
      "invar d \<Longrightarrow> unat lba < unat (sector_count (dev_of d)) \<Longrightarrow>
       \<exists>s. read_sector (dev_of d) lba = Ok s \<and> length s = SECTOR_SIZE"
    and read_out_of_range:
      "invar d \<Longrightarrow> unat (sector_count (dev_of d)) \<le> unat lba \<Longrightarrow>
       read_sector (dev_of d) lba = Err SectorOutOfRange"
begin

lemma read_cases:
  assumes "invar d"
  obtains (in_range) s where "unat lba < unat (sector_count (dev_of d))"
      "read_sector (dev_of d) lba = Ok s" "length s = SECTOR_SIZE"
  | (out_of_range) "unat (sector_count (dev_of d)) \<le> unat lba"
      "read_sector (dev_of d) lba = Err SectorOutOfRange"
  using read_in_range [OF assms, of lba] read_out_of_range [OF assms, of lba] not_less by blast

lemma read_not_panic: "invar d \<Longrightarrow> read_sector (dev_of d) lba \<noteq> Panic"
  by (erule read_cases [of _ lba]) auto

lemma read_Ok_iff:
  "invar d \<Longrightarrow> (\<exists>s. read_sector (dev_of d) lba = Ok s) \<longleftrightarrow> unat lba < unat (sector_count (dev_of d))"
  by (erule read_cases [of _ lba]) auto

lemma read_length: "invar d \<Longrightarrow> read_sector (dev_of d) lba = Ok s \<Longrightarrow> length s = SECTOR_SIZE"
  by (erule read_cases [of _ lba]) auto

end

section \<open>The RAM disk meets the contract\<close>

lemma length_from_raw_parts [simp]: "length (from_raw_parts mem a n) = unat n"
  by (simp add: from_raw_parts_def)

text \<open>
  \<open>lba * 512 + 512\<close> never overflows 64 bits, so the two checked operations always succeed and the
  only failing branch is the range check.
\<close>

lemma ram_read_sector_eq:
  "ram_read_sector d lba =
     (if SECTOR_SIZE * unat lba + SECTOR_SIZE \<le> length (rd_bytes d)
      then Ok (take SECTOR_SIZE (drop (SECTOR_SIZE * unat lba) (rd_bytes d)))
      else Err SectorOutOfRange)"
proof -
  have lba: "unat (ucast lba :: usize) = unat lba" and lt: "unat lba < 2 ^ 32"
    using unsigned_less [of lba] by simp_all
  have mul: "unat ((ucast lba :: usize) * 512) = unat lba * 512"
    using lt by (simp add: unat_word_ariths lba)
  have add: "unat ((ucast lba :: usize) * 512 + 512) = unat lba * 512 + 512"
    using lt by (simp add: unat_word_ariths lba)
  have start: "checked_mul (ucast lba :: usize) 512 = Some (ucast lba * 512)"
    by (simp add: checked_mul_Some_iff mul lba)
  have stop: "checked_add ((ucast lba :: usize) * 512) 512 = Some (ucast lba * 512 + 512)"
    by (simp add: checked_add_Some_iff mul add)
  show ?thesis
    by (simp add: ram_read_sector_def SECTOR_SIZE_def start stop mul add get_range_def copy_to_def
        mult.commute)
qed

lemma unat_ram_sector_count: "ram_ok d \<Longrightarrow> unat (ram_sector_count d) = length (rd_bytes d) div SECTOR_SIZE"
  by (simp add: ram_sector_count_def ram_ok_def unat_of_nat SECTOR_SIZE_def)

lemma in_range_iff: "lba < n div SECTOR_SIZE \<longleftrightarrow> SECTOR_SIZE * lba + SECTOR_SIZE \<le> n"
  by (auto simp: SECTOR_SIZE_def)

interpretation ram: block_device_spec ram_device ram_ok
proof
  fix d and lba :: u32
  assume "ram_ok d" and "unat lba < unat (sector_count (ram_device d))"
  then have "SECTOR_SIZE * unat lba + SECTOR_SIZE \<le> length (rd_bytes d)"
    by (simp add: ram_device_def unat_ram_sector_count in_range_iff)
  then show "\<exists>s. read_sector (ram_device d) lba = Ok s \<and> length s = SECTOR_SIZE"
    by (simp add: ram_device_def ram_read_sector_eq)
next
  fix d and lba :: u32
  assume "ram_ok d" and "unat (sector_count (ram_device d)) \<le> unat lba"
  then show "read_sector (ram_device d) lba = Err SectorOutOfRange"
    using in_range_iff [of "unat lba" "length (rd_bytes d)"]
    by (auto simp: ram_device_def unat_ram_sector_count ram_read_sector_eq)
qed

section \<open>Properties\<close>

text \<open>
  C37. Reading a sector of the RAM disk never panics: it returns exactly bytes
  \<open>512 * lba \<dots> 512 * lba + 511\<close> of the snapshot when the whole sector lies inside it, and
  \<open>SectorOutOfRange\<close> for every other 32-bit address.
\<close>

theorem ram_read_sector_exact:
  "ram_read_sector d lba =
     (if 512 * unat lba + 512 \<le> length (rd_bytes d)
      then Ok (take 512 (drop (512 * unat lba) (rd_bytes d)))
      else Err SectorOutOfRange)"
  using ram_read_sector_eq [of d lba] by (simp add: SECTOR_SIZE_def)

text \<open>
  A RAM disk accepted by \<open>from_boot_info\<close> holds a positive whole number of sectors, its
  contents are the mapped memory, and reading the sectors in order gives back that memory.
\<close>

lemma from_boot_info_roundtrip:
  assumes "from_boot_info mem address len = Ok d"
  shows "ram_ok d \<and> 0 < unat (ram_sector_count d) \<and>
    512 * unat (ram_sector_count d) = unat len \<and>
    (\<exists>a. address = Some a \<and> rd_bytes d = map (\<lambda>i. mem (a + of_nat i)) [0..<unat len]) \<and>
    (unat len \<le> 2 ^ 41 \<longrightarrow>
      concat (map (\<lambda>i. case ram_read_sector d (of_nat i) of Ok s \<Rightarrow> s | _ \<Rightarrow> [])
        [0..<unat (ram_sector_count d)]) = rd_bytes d)"
proof -
  obtain a where a: "address = Some a" and d: "rd_bytes d = from_raw_parts mem a len"
    and len: "len \<noteq> 0" "len mod 512 = 0"
    using assms by (auto simp: from_boot_info_def obind_Ok_iff SECTOR_SIZE_def split: if_splits)
  have ok: "ram_ok d"
    using unsigned_less [of len] by (simp add: ram_ok_def d)
  have "unat len mod 512 = unat (len mod 512)"
    by (simp add: unat_mod)
  with len have dvd: "512 * (unat len div 512) = unat len"
    by auto
  have pos: "0 < unat len div 512"
    using dvd len(1) by (metis gr0I mult_0_right unat_eq_zero)
  have count: "unat (ram_sector_count d) = unat len div 512"
    using unat_ram_sector_count [OF ok] by (simp add: d SECTOR_SIZE_def)
  have sectors: "concat (map (\<lambda>i. take 512 (drop (512 * i) xs)) [0..<n]) = take (512 * n) xs"
    for n :: nat and xs :: "u8 list"
    by (induction n) (simp_all add: take_add [symmetric] add.commute)
  have read: "(case ram_read_sector d (of_nat i) of Ok s \<Rightarrow> s | _ \<Rightarrow> []) = take 512 (drop (512 * i) (rd_bytes d))"
    if "i < unat len div 512" "unat len \<le> 2 ^ 41" for i
  proof -
    have "unat (of_nat i :: u32) = i"
      using that by (simp add: unat_of_nat)
    moreover have "512 * i + 512 \<le> unat len"
      using that dvd by linarith
    ultimately show ?thesis
      by (simp add: ram_read_sector_eq SECTOR_SIZE_def d)
  qed
  have "concat (map (\<lambda>i. case ram_read_sector d (of_nat i) of Ok s \<Rightarrow> s | _ \<Rightarrow> []) [0..<unat len div 512]) =
    concat (map (\<lambda>i. take 512 (drop (512 * i) (rd_bytes d))) [0..<unat len div 512])" if "unat len \<le> 2 ^ 41"
    using read [OF _ that] by (intro arg_cong [where f = concat] map_cong) auto
  with sectors dvd pos ok a count d show ?thesis
    by (auto simp: from_raw_parts_def)
qed

end
