(* ===== verification/Fat32.thy ===== *)
theory Fat32
  imports Storage
begin

text \<open>
  The read-only FAT32 reader (\<open>kernel/src/fat32.rs\<close>): its data, and one definition per method.
  A Rust \<open>&str\<close> is the list of its UTF-8 bytes. The closures passed to \<open>list_dir\<close> and
  \<open>read_file\<close> are functions on a state \<open>'s\<close> that stands for what they capture; they return
  \<open>None\<close> when they panic. An operation that drives a closure returns the captured state with its
  result, on success and on error alike, because what the closure did (printing, say) has happened
  either way.
\<close>

section \<open>Constants and data\<close>

definition FAT32_EOC :: u32 where "FAT32_EOC = 0x0ffffff8"
definition FAT32_BAD_CLUSTER :: u32 where "FAT32_BAD_CLUSTER = 0x0ffffff7"
definition ATTR_DIRECTORY :: u8 where "ATTR_DIRECTORY = 0x10"
definition ATTR_VOLUME_ID :: u8 where "ATTR_VOLUME_ID = 0x08"
definition ATTR_LONG_FILE_NAME :: u8 where "ATTR_LONG_FILE_NAME = 0x0f"

datatype fs_error =
    Device storage_error
  | InvalidBootSector
  | UnsupportedVolume
  | InvalidCluster
  | CorruptFat
  | DirectoryLoop
  | NotFound
  | NotDirectory
  | IsDirectory
  | TruncatedFile

record fat32 =
  device :: block_device
  sectors_per_cluster :: u32
  fat_start_sector :: u32
  sectors_per_fat :: u32
  first_data_sector :: u32
  root_cluster :: u32
  cluster_count :: u32

record dir_entry =
  de_name :: "u8 list"
  de_name_len :: u8
  attributes :: u8
  first_cluster :: u32
  de_size :: u32

type_synonym 's dir_visitor = "'s \<Rightarrow> dir_entry \<Rightarrow> ('s \<times> bool) option"
type_synonym 's byte_visitor = "'s \<Rightarrow> u8 list \<Rightarrow> 's option"
type_synonym ('s, 'a) fs_run = "('s \<times> fs_error, 's \<times> 'a) outcome"

definition entry_name :: "dir_entry \<Rightarrow> ('e, u8 list) outcome" where
  "entry_name e = subslice (de_name e) 0 (unat (de_name_len e))"

definition is_directory :: "dir_entry \<Rightarrow> bool" where
  "is_directory e \<longleftrightarrow> attributes e AND ATTR_DIRECTORY \<noteq> 0"

section \<open>Little-endian fields\<close>

definition le_u16 :: "u8 list \<Rightarrow> nat \<Rightarrow> ('e, u16) outcome" where
  "le_u16 bytes off =
     obind (idx bytes off) (\<lambda>b0.
     obind (idx bytes (off + 1)) (\<lambda>b1.
     Ok (ucast b0 OR push_bit 8 (ucast b1))))"

definition le_u32 :: "u8 list \<Rightarrow> nat \<Rightarrow> ('e, u32) outcome" where
  "le_u32 bytes off =
     obind (idx bytes off) (\<lambda>b0.
     obind (idx bytes (off + 1)) (\<lambda>b1.
     obind (idx bytes (off + 2)) (\<lambda>b2.
     obind (idx bytes (off + 3)) (\<lambda>b3.
     Ok (ucast b0 OR push_bit 8 (ucast b1) OR push_bit 16 (ucast b2) OR push_bit 24 (ucast b3))))))"

section \<open>Directory entries\<close>

text \<open>\<open>u8::is_ascii\<close>\<close>

definition is_ascii :: "u8 \<Rightarrow> bool" where
  "is_ascii b \<longleftrightarrow> b < 0x80"

text \<open>
  The two copying loops of \<open>from_raw\<close>: bytes are stored into the 12-byte array \<open>name\<close> at
  \<open>name_len\<close> until the first space; \<open>Ok None\<close> is the early \<open>return None\<close> on a non-ASCII byte.
\<close>

fun copy_name_bytes :: "u8 list \<Rightarrow> u8 list \<Rightarrow> nat \<Rightarrow> ('e, (u8 list \<times> nat) option) outcome" where
  "copy_name_bytes [] nm n = Ok (Some (nm, n))"
| "copy_name_bytes (byte # rest) nm n =
     (if byte = 0x20 then Ok (Some (nm, n))
      else if \<not> is_ascii byte then Ok None
      else obind (set_idx nm n byte) (\<lambda>nm'. copy_name_bytes rest nm' (n + 1)))"

definition from_raw :: "u8 list \<Rightarrow> ('e, dir_entry option) outcome" where
  "from_raw raw =
     obind (subslice raw 0 8) (\<lambda>base.
     obind (copy_name_bytes base (replicate 12 0) 0) (\<lambda>r.
     case r of None \<Rightarrow> Ok None | Some (nm, n) \<Rightarrow>
     if n = 0 then Ok None else
     obind (subslice raw 8 11) (\<lambda>extension.
     obind (if list_ex (\<lambda>byte. byte \<noteq> 0x20) extension
            then obind (set_idx nm n 0x2e) (\<lambda>nm'. copy_name_bytes extension nm' (n + 1))
            else Ok (Some (nm, n))) (\<lambda>r.
     case r of None \<Rightarrow> Ok None | Some (nm, n) \<Rightarrow>
     obind (le_u16 raw 20) (\<lambda>hi.
     obind (le_u16 raw 26) (\<lambda>lo.
     obind (idx raw 11) (\<lambda>attrs.
     obind (le_u32 raw 28) (\<lambda>sz.
     Ok (Some \<lparr>de_name = nm, de_name_len = of_nat n, attributes = attrs,
               first_cluster = push_bit 16 (ucast hi) OR ucast lo, de_size = sz\<rparr>)))))))))"

section \<open>Mounting\<close>

definition mount :: "block_device \<Rightarrow> (fs_error, fat32) outcome" where
  "mount dev =
     obind (map_err Device (read_sector dev 0)) (\<lambda>sector.
     obind (idx sector 510) (\<lambda>b510.
     obind (idx sector 511) (\<lambda>b511.
     if b510 \<noteq> 0x55 \<or> b511 \<noteq> 0xaa then Err InvalidBootSector else
     obind (le_u16 sector 11) (\<lambda>bytes_per_sector.
     obind (idx sector 13) (\<lambda>b13. let spc = (ucast b13 :: u32) in
     obind (le_u16 sector 14) (\<lambda>h14. let reserved_sectors = (ucast h14 :: u32) in
     obind (idx sector 16) (\<lambda>b16. let fat_count = (ucast b16 :: u32) in
     obind (le_u16 sector 17) (\<lambda>root_entry_count.
     obind (le_u16 sector 19) (\<lambda>h19. let total_sectors_16 = (ucast h19 :: u32) in
     obind (le_u16 sector 22) (\<lambda>h22. let fat_size_16 = (ucast h22 :: u32) in
     obind (le_u32 sector 32) (\<lambda>total_sectors_32.
     obind (le_u32 sector 36) (\<lambda>spf.
     obind (le_u32 sector 44) (\<lambda>root.
     if bytes_per_sector \<noteq> of_nat SECTOR_SIZE
        \<or> spc = 0 \<or> \<not> is_power_of_two spc
        \<or> reserved_sectors = 0 \<or> fat_count = 0 \<or> fat_size_16 \<noteq> 0
        \<or> spf = 0 \<or> root_entry_count \<noteq> 0 \<or> root < 2
     then Err UnsupportedVolume else
     let total_sectors = (if total_sectors_16 \<noteq> 0 then total_sectors_16 else total_sectors_32) in
     obind (ok_or (checked_mul fat_count spf) InvalidBootSector) (\<lambda>fat_sectors.
     obind (ok_or (checked_add reserved_sectors fat_sectors) InvalidBootSector) (\<lambda>fds.
     if total_sectors \<le> fds \<or> (ucast total_sectors :: u64) > sector_count dev
     then Err InvalidBootSector else
     obind (sub_ov total_sectors fds) (\<lambda>data_sectors.
     let count = data_sectors div spc in
     obind (if count < 65525 then Ok True
            else obind (add_ov count 2) (\<lambda>limit. Ok (root \<ge> limit))) (\<lambda>unsupported.
     if unsupported then Err UnsupportedVolume else
     obind (mul_ov (ucast spf :: u64) (of_nat SECTOR_SIZE)) (\<lambda>fat_bytes.
     if (ucast root :: u64) \<ge> fat_bytes div 4 then Err InvalidBootSector else
     Ok \<lparr>device = dev, sectors_per_cluster = spc, fat_start_sector = reserved_sectors,
         sectors_per_fat = spf, first_data_sector = fds, root_cluster = root,
         cluster_count = count\<rparr>))))))))))))))))))"

section \<open>Clusters\<close>

definition is_valid_cluster :: "fat32 \<Rightarrow> u32 \<Rightarrow> ('e, bool) outcome" where
  "is_valid_cluster fs cluster =
     (if cluster \<ge> 2 then obind (add_ov (cluster_count fs) 2) (\<lambda>limit. Ok (cluster < limit))
      else Ok False)"

definition checked_next_cluster :: "fat32 \<Rightarrow> u32 \<Rightarrow> (fs_error, u32) outcome" where
  "checked_next_cluster fs cluster =
     (if cluster = FAT32_BAD_CLUSTER then Err CorruptFat
      else obind (is_valid_cluster fs cluster) (\<lambda>valid. if valid then Ok cluster else Err CorruptFat))"

definition cluster_to_sector :: "fat32 \<Rightarrow> u32 \<Rightarrow> u32 \<Rightarrow> (fs_error, u32) outcome" where
  "cluster_to_sector fs cluster sector_index =
     obind (is_valid_cluster fs cluster) (\<lambda>valid.
     if \<not> valid \<or> sector_index \<ge> sectors_per_cluster fs then Err InvalidCluster else
     obind (sub_ov cluster 2) (\<lambda>k.
     obind (ok_or (checked_mul k (sectors_per_cluster fs)) InvalidCluster) (\<lambda>offset.
     ok_or (Option.bind (checked_add (first_data_sector fs) offset)
              (\<lambda>sector. checked_add sector sector_index)) InvalidCluster)))"

definition next_cluster :: "fat32 \<Rightarrow> u32 \<Rightarrow> (fs_error, u32) outcome" where
  "next_cluster fs cluster =
     obind (is_valid_cluster fs cluster) (\<lambda>valid.
     if \<not> valid then Err InvalidCluster else
     obind (ok_or (checked_mul (ucast cluster :: u64) 4) CorruptFat) (\<lambda>fat_offset.
     let sector_offset = fat_offset div of_nat SECTOR_SIZE in
     if sector_offset \<ge> ucast (sectors_per_fat fs) then Err CorruptFat else
     let entry_offset = unat (fat_offset mod of_nat SECTOR_SIZE) in
     obind (ok_or (checked_add (fat_start_sector fs) (ucast sector_offset)) CorruptFat) (\<lambda>lba.
     obind (map_err Device (read_sector (device fs) lba)) (\<lambda>sector.
     obind (le_u32 sector entry_offset) (\<lambda>entry.
     Ok (entry AND 0x0fffffff))))))"

text \<open>The range \<open>0..self.sectors_per_cluster\<close>.\<close>

definition sector_indices :: "fat32 \<Rightarrow> u32 list" where
  "sector_indices fs = map of_nat [0..<unat (sectors_per_cluster fs)]"

section \<open>Walking a directory\<close>

text \<open>
  The three nested loops of \<open>visit_directory\<close>. The inner two return whether the method returned
  \<open>Ok(())\<close> from inside the loop. The outer loop runs at most \<open>cluster_count + 1\<close> times: the
  number is the source's own bound, and running out of it is its \<open>DirectoryLoop\<close> error.
\<close>

fun visit_entries :: "'s dir_visitor \<Rightarrow> u8 list list \<Rightarrow> 's \<Rightarrow> ('s, bool) fs_run" where
  "visit_entries visitor [] s = Ok (s, False)"
| "visit_entries visitor (raw # rest) s =
     obind (idx raw 0) (\<lambda>b0.
     if b0 = 0x00 then Ok (s, True) else
     obind (idx raw 11) (\<lambda>attrs.
     if b0 = 0xe5 \<or> b0 = 0x2e \<or> attrs = ATTR_LONG_FILE_NAME \<or> attrs AND ATTR_VOLUME_ID \<noteq> 0
     then visit_entries visitor rest s else
     obind (from_raw raw) (\<lambda>r.
     case r of None \<Rightarrow> visit_entries visitor rest s
     | Some entry \<Rightarrow>
         obind (or_panic (visitor s entry)) (\<lambda>(s', go_on).
         if go_on then visit_entries visitor rest s' else Ok (s', True)))))"

fun visit_sectors :: "'s dir_visitor \<Rightarrow> fat32 \<Rightarrow> u32 \<Rightarrow> u32 list \<Rightarrow> 's \<Rightarrow> ('s, bool) fs_run" where
  "visit_sectors visitor fs cluster [] s = Ok (s, False)"
| "visit_sectors visitor fs cluster (sector_index # rest) s =
     obind (map_err (Pair s) (cluster_to_sector fs cluster sector_index)) (\<lambda>lba.
     obind (map_err (\<lambda>e. (s, Device e)) (read_sector (device fs) lba)) (\<lambda>sector.
     obind (visit_entries visitor (chunks_exact 32 sector) s) (\<lambda>(s', returned).
     if returned then Ok (s', True) else visit_sectors visitor fs cluster rest s')))"

fun visit_clusters :: "'s dir_visitor \<Rightarrow> fat32 \<Rightarrow> nat \<Rightarrow> u32 \<Rightarrow> 's \<Rightarrow> ('s, unit) fs_run" where
  "visit_clusters visitor fs 0 cluster s = Err (s, DirectoryLoop)"
| "visit_clusters visitor fs (Suc n) cluster s =
     obind (visit_sectors visitor fs cluster (sector_indices fs) s) (\<lambda>(s', returned).
     if returned then Ok (s', ()) else
     obind (map_err (Pair s') (next_cluster fs cluster)) (\<lambda>nxt.
     if nxt \<ge> FAT32_EOC then Ok (s', ()) else
     obind (map_err (Pair s') (checked_next_cluster fs nxt)) (\<lambda>cluster'.
     visit_clusters visitor fs n cluster' s')))"

definition visit_directory :: "'s dir_visitor \<Rightarrow> fat32 \<Rightarrow> u32 \<Rightarrow> 's \<Rightarrow> ('s, unit) fs_run" where
  "visit_directory visitor fs start_cluster s =
     obind (map_err (Pair s) (is_valid_cluster fs start_cluster)) (\<lambda>valid.
     if \<not> valid then Err (s, InvalidCluster)
     else visit_clusters visitor fs (unat (cluster_count fs) + 1) start_cluster s)"

section \<open>Paths\<close>

definition to_ascii_lowercase :: "u8 \<Rightarrow> u8" where
  "to_ascii_lowercase b = (if 0x41 \<le> b \<and> b \<le> 0x5a then b + 0x20 else b)"

definition eq_ignore_ascii_case :: "u8 list \<Rightarrow> u8 list \<Rightarrow> bool" where
  "eq_ignore_ascii_case a b \<longleftrightarrow> map to_ascii_lowercase a = map to_ascii_lowercase b"

text \<open>\<open>str::split\<close> on a one-byte separator, and \<open>trim_matches\<close>.\<close>

fun split_on :: "u8 \<Rightarrow> u8 list \<Rightarrow> u8 list list" where
  "split_on sep [] = [[]]"
| "split_on sep (b # bs) =
     (if b = sep then [] # split_on sep bs
      else case split_on sep bs of [] \<Rightarrow> [[b]] | w # ws \<Rightarrow> (b # w) # ws)"

definition trim_matches :: "u8 \<Rightarrow> u8 list \<Rightarrow> u8 list" where
  "trim_matches c xs = rev (dropWhile (\<lambda>b. b = c) (rev (dropWhile (\<lambda>b. b = c) xs)))"

definition path_components :: "u8 list \<Rightarrow> u8 list list" where
  "path_components path = filter (\<lambda>component. component \<noteq> []) (split_on 0x2f path)"

text \<open>\<open>component == "." || component == ".."\<close>\<close>

definition is_dot_component :: "u8 list \<Rightarrow> bool" where
  "is_dot_component c \<longleftrightarrow> c = [0x2e] \<or> c = [0x2e, 0x2e]"

text \<open>The closure of \<open>find_in_directory\<close>; its state is the captured variable \<open>result\<close>.\<close>

definition find_visitor :: "u8 list \<Rightarrow> dir_entry option dir_visitor" where
  "find_visitor nm = (\<lambda>res entry.
     case entry_name entry of
       Ok en \<Rightarrow> (if eq_ignore_ascii_case en nm then Some (Some entry, False) else Some (res, True))
     | Err (e :: unit) \<Rightarrow> None
     | Panic \<Rightarrow> None)"

definition find_in_directory :: "fat32 \<Rightarrow> u32 \<Rightarrow> u8 list \<Rightarrow> (fs_error, dir_entry) outcome" where
  "find_in_directory fs cluster nm =
     obind (map_err snd (visit_directory (find_visitor nm) fs cluster None)) (\<lambda>(res, _).
     ok_or res NotFound)"

fun resolve_components :: "fat32 \<Rightarrow> u32 \<Rightarrow> u8 list \<Rightarrow> u8 list list \<Rightarrow> (fs_error, dir_entry) outcome" where
  "resolve_components fs directory component rest =
     obind (find_in_directory fs directory component) (\<lambda>entry.
     case rest of
       [] \<Rightarrow> Ok entry
     | next_component # rest' \<Rightarrow>
         if \<not> is_directory entry then Err NotDirectory
         else if is_dot_component next_component then Err NotFound
         else resolve_components fs (first_cluster entry) next_component rest')"

declare resolve_components.simps [simp del]

definition resolve_path :: "fat32 \<Rightarrow> u8 list \<Rightarrow> (fs_error, dir_entry) outcome" where
  "resolve_path fs path =
     (case path_components path of
        [] \<Rightarrow> Err NotFound
      | first # rest \<Rightarrow>
          if is_dot_component first then Err NotFound
          else resolve_components fs (root_cluster fs) first rest)"

definition list_dir :: "fat32 \<Rightarrow> u8 list \<Rightarrow> 's dir_visitor \<Rightarrow> 's \<Rightarrow> ('s, unit) fs_run" where
  "list_dir fs path visitor s =
     obind (if trim_matches 0x2f path = [] then Ok (root_cluster fs)
            else obind (map_err (Pair s) (resolve_path fs path)) (\<lambda>entry.
                 if \<not> is_directory entry then Err (s, NotDirectory) else Ok (first_cluster entry)))
     (\<lambda>cluster. visit_directory visitor fs cluster s)"

section \<open>Reading a file\<close>

text \<open>
  The two nested loops of \<open>read_file\<close>; \<open>remaining\<close> is the \<open>usize\<close> counter, which starts at a
  32-bit size and only shrinks by \<open>min remaining 512\<close>. When \<open>remaining\<close> is 0 at the head of the
  inner loop the method returns the size; the model leaves the inner loop and the test that follows
  it returns the same value.
\<close>

fun read_sectors ::
    "'s byte_visitor \<Rightarrow> fat32 \<Rightarrow> u32 \<Rightarrow> u32 list \<Rightarrow> nat \<Rightarrow> 's \<Rightarrow> ('s, nat) fs_run" where
  "read_sectors visitor fs cluster [] remaining s = Ok (s, remaining)"
| "read_sectors visitor fs cluster (sector_index # rest) remaining s =
     (if remaining = 0 then Ok (s, 0) else
      obind (map_err (Pair s) (cluster_to_sector fs cluster sector_index)) (\<lambda>lba.
      obind (map_err (\<lambda>e. (s, Device e)) (read_sector (device fs) lba)) (\<lambda>sector.
      let count = min remaining SECTOR_SIZE in
      obind (subslice sector 0 count) (\<lambda>chunk.
      obind (or_panic (visitor s chunk)) (\<lambda>s'.
      read_sectors visitor fs cluster rest (remaining - count) s')))))"

fun read_clusters ::
    "'s byte_visitor \<Rightarrow> fat32 \<Rightarrow> u32 \<Rightarrow> nat \<Rightarrow> u32 \<Rightarrow> nat \<Rightarrow> 's \<Rightarrow> ('s, nat) fs_run" where
  "read_clusters visitor fs sz 0 cluster remaining s = Err (s, DirectoryLoop)"
| "read_clusters visitor fs sz (Suc n) cluster remaining s =
     obind (read_sectors visitor fs cluster (sector_indices fs) remaining s) (\<lambda>(s', remaining').
     if remaining' = 0 then Ok (s', unat sz) else
     obind (map_err (Pair s') (next_cluster fs cluster)) (\<lambda>nxt.
     if nxt \<ge> FAT32_EOC then Err (s', TruncatedFile) else
     obind (map_err (Pair s') (checked_next_cluster fs nxt)) (\<lambda>cluster'.
     read_clusters visitor fs sz n cluster' remaining' s')))"

definition read_file :: "fat32 \<Rightarrow> u8 list \<Rightarrow> 's byte_visitor \<Rightarrow> 's \<Rightarrow> ('s, nat) fs_run" where
  "read_file fs path visitor s =
     obind (map_err (Pair s) (resolve_path fs path)) (\<lambda>entry.
     if is_directory entry then Err (s, IsDirectory)
     else if de_size entry = 0 then Ok (s, 0)
     else obind (map_err (Pair s) (is_valid_cluster fs (first_cluster entry))) (\<lambda>valid.
     if \<not> valid then Err (s, InvalidCluster)
     else read_clusters visitor fs (de_size entry) (unat (cluster_count fs) + 1)
            (first_cluster entry) (unat (de_size entry)) s))"

end
