(* ===== verification/Fat32_Names.thy ===== *)
theory Fat32_Names
  imports Fat32
begin

text \<open>
  Decoding of fields and of 8.3 directory entries: \<open>from_raw\<close> is characterised on every 32-byte
  slot, which justifies the unchecked UTF-8 conversion in \<open>DirEntry::name\<close>.
\<close>

section \<open>Little-endian fields and names\<close>

definition le16_at :: "u8 list \<Rightarrow> nat \<Rightarrow> u16" where
  "le16_at bs i = ucast (bs ! i) OR push_bit 8 (ucast (bs ! (i + 1)))"

definition le32_at :: "u8 list \<Rightarrow> nat \<Rightarrow> u32" where
  "le32_at bs i = ucast (bs ! i) OR push_bit 8 (ucast (bs ! (i + 1)))
     OR push_bit 16 (ucast (bs ! (i + 2))) OR push_bit 24 (ucast (bs ! (i + 3)))"

lemma le_u16_Ok [simp]: "off + 1 < length bs \<Longrightarrow> le_u16 bs off = Ok (le16_at bs off)"
  by (simp add: le_u16_def le16_at_def)

lemma le_u32_Ok [simp]: "off + 3 < length bs \<Longrightarrow> le_u32 bs off = Ok (le32_at bs off)"
  by (simp add: le_u32_def le32_at_def)

text \<open>The part of a name field before its first space.\<close>

definition name_field :: "u8 list \<Rightarrow> u8 list" where
  "name_field bs = takeWhile (\<lambda>b. b \<noteq> 0x20) bs"

definition raw_base :: "u8 list \<Rightarrow> u8 list" where
  "raw_base raw = name_field (take 8 raw)"

definition raw_suffix :: "u8 list \<Rightarrow> u8 list" where
  "raw_suffix raw =
     (let extension = take 3 (drop 8 raw)
      in if \<forall>b \<in> set extension. b = 0x20 then [] else 0x2e # name_field extension)"

lemma name_field_length: "length (name_field bs) \<le> length bs"
  by (simp add: name_field_def length_takeWhile_le)

lemma copy_name_bytes_eq:
  "n + length bs \<le> length nm \<Longrightarrow>
   copy_name_bytes bs nm n =
     (if \<forall>b \<in> set (name_field bs). is_ascii b
      then Ok (Some (take n nm @ name_field bs @ drop (n + length (name_field bs)) nm,
                     n + length (name_field bs)))
      else Ok None)"
proof (induction bs arbitrary: nm n)
  case Nil
  then show ?case by (simp add: name_field_def)
next
  case (Cons b bs)
  show ?case
  proof (cases "b = 0x20 \<or> \<not> is_ascii b")
    case True
    then show ?thesis by (auto simp: name_field_def)
  next
    case False
    have take: "take (Suc n) (nm[n := b]) = take n nm @ [b]"
      using Cons.prems by (simp add: take_Suc_conv_app_nth)
    have drop: "drop (Suc n + m) (nm[n := b]) = drop (Suc n + m) nm" for m
      by (simp add: drop_update_cancel)
    from False Cons.prems show ?thesis
      by (simp add: Cons.IH take drop [of "length (name_field bs)", simplified]) (simp add: name_field_def)
  qed
qed

lemma raw_suffix_length: "length (raw_suffix raw) \<le> 4"
  using name_field_length [of "take 3 (drop 8 raw)"] by (simp add: raw_suffix_def Let_def)

definition raw_name :: "u8 list \<Rightarrow> u8 list" where
  "raw_name raw = raw_base raw @ raw_suffix raw"

text \<open>What \<open>from_raw\<close> returns on a 32-byte slot.\<close>

definition raw_entry :: "u8 list \<Rightarrow> dir_entry" where
  "raw_entry raw =
     \<lparr>de_name = raw_name raw @ replicate (12 - length (raw_name raw)) 0,
      de_name_len = of_nat (length (raw_name raw)),
      attributes = raw ! 11,
      first_cluster = push_bit 16 (ucast (le16_at raw 20)) OR ucast (le16_at raw 26),
      de_size = le32_at raw 28\<rparr>"

definition raw_named :: "u8 list \<Rightarrow> bool" where
  "raw_named raw \<longleftrightarrow> raw_base raw \<noteq> [] \<and> (\<forall>b \<in> set (raw_name raw). is_ascii b)"

lemma from_raw_eq:
  assumes len: "length raw = 32"
  shows "from_raw raw = Ok (if raw_named raw then Some (raw_entry raw) else None)"
proof -
  let ?base = "raw_base raw" and ?ext = "take 3 (drop 8 raw)"
  have lb: "length ?base \<le> 8"
    using name_field_length [of "take 8 raw"] len by (simp add: raw_base_def)
  have base: "copy_name_bytes (take 8 raw) (replicate 12 0) 0 =
    (if \<forall>b \<in> set ?base. is_ascii b
     then Ok (Some (?base @ replicate (12 - length ?base) 0, length ?base)) else Ok None)"
    using len by (subst copy_name_bytes_eq) (auto simp: raw_base_def)
  have ext: "copy_name_bytes ?ext (?base @ 0x2e # replicate (11 - length ?base) 0) (Suc (length ?base)) =
    (if \<forall>b \<in> set (name_field ?ext). is_ascii b
     then Ok (Some (?base @ 0x2e # name_field ?ext @ replicate (11 - length ?base - length (name_field ?ext)) 0,
       Suc (length ?base + length (name_field ?ext)))) else Ok None)"
    using len lb by (subst copy_name_bytes_eq) (auto simp: drop_Cons')
  have dot: "(?base @ replicate (12 - length ?base) 0)[length ?base := 0x2e]
      = ?base @ 0x2e # replicate (11 - length ?base) 0"
  proof -
    have "12 - length ?base = Suc (11 - length ?base)"
      using lb by simp
    then show ?thesis
      by (simp add: list_update_append)
  qed
  have ex: "list_ex (\<lambda>byte. byte \<noteq> 0x20) ?ext \<longleftrightarrow> \<not> (\<forall>b \<in> set ?ext. b = 0x20)"
    by (auto simp: list_ex_iff)
  note unf = from_raw_def raw_named_def raw_entry_def raw_name_def raw_suffix_def Let_def
  show ?thesis
  proof (cases "(\<forall>b \<in> set ?base. is_ascii b) \<and> ?base \<noteq> []")
    case False
    then show ?thesis
      by (auto simp: unf len base)
  next
    case True
    show ?thesis
    proof (cases "\<forall>b \<in> set ?ext. b = 0x20")
      case blank: True
      with True lb len show ?thesis
        by (simp add: unf base ex)
    next
      case False
      with True lb len show ?thesis
        by (auto simp: unf base ex dot ext is_ascii_def)
    qed
  qed
qed

lemma raw_name_length: "length raw = 32 \<Longrightarrow> length (raw_name raw) \<le> 12"
  using name_field_length [of "take 8 raw"] raw_suffix_length [of raw] by (simp add: raw_base_def raw_name_def)

lemma entry_name_raw_entry:
  assumes "length raw = 32"
  shows "entry_name (raw_entry raw) = Ok (raw_name raw)"
proof -
  have "unat (of_nat (length (raw_name raw)) :: u8) = length (raw_name raw)"
    using raw_name_length [OF assms] by (simp add: unat_of_nat_small)
  with raw_name_length [OF assms] show ?thesis
    by (simp add: entry_name_def raw_entry_def)
qed

text \<open>A slot for the file \<open>HELLO.TXT\<close>.\<close>

definition hello_slot :: "u8 list" where
  "hello_slot = [0x48, 0x45, 0x4c, 0x4c, 0x4f, 0x20, 0x20, 0x20, 0x54, 0x58, 0x54, 0x20]
     @ replicate 14 0 @ [3, 0, 45, 0, 0, 0]"

section \<open>Properties\<close>

text \<open>
  C28. Decoding a 32-byte directory slot never panics. It is refused exactly when the base name is
  empty or a name byte before the first space of its field is not ASCII; otherwise the name is the
  base, followed by a dot and the extension unless the extension is blank, it has 1 to 12 bytes,
  all of them ASCII (so the unchecked conversion to \<open>str\<close> is sound), and \<open>name()\<close> returns it.
\<close>

theorem from_raw_names:
  assumes "length raw = 32"
  shows "from_raw raw \<noteq> (Panic :: (fs_error, dir_entry option) outcome) \<and>
    ((from_raw raw :: (fs_error, dir_entry option) outcome) = Ok None \<longleftrightarrow>
       raw_base raw = [] \<or> (\<exists>b \<in> set (raw_name raw). \<not> is_ascii b)) \<and>
    (\<forall>e. (from_raw raw :: (fs_error, dir_entry option) outcome) = Ok (Some e) \<longrightarrow>
       (entry_name e :: (fs_error, u8 list) outcome) = Ok (raw_name raw) \<and>
       length (de_name e) = 12 \<and> 1 \<le> unat (de_name_len e) \<and> unat (de_name_len e) \<le> 12 \<and>
       (\<forall>b \<in> set (raw_name raw). is_ascii b) \<and> attributes e = raw ! 11)"
proof -
  have len: "length (raw_name raw) \<le> 12"
    by (rule raw_name_length [OF assms])
  then have un: "unat (of_nat (length (raw_name raw)) :: u8) = length (raw_name raw)"
    by (simp add: unat_of_nat_small)
  show ?thesis
    using len un entry_name_raw_entry [OF assms, where 'a = fs_error]
    by (auto simp: from_raw_eq [OF assms] raw_named_def raw_entry_def Suc_le_eq raw_name_def)
qed

text \<open>Witness of C28: the slot of \<open>HELLO.TXT\<close>.\<close>

theorem from_raw_names_witness:
  "length hello_slot = 32 \<and>
   (\<exists>e. (from_raw hello_slot :: (fs_error, dir_entry option) outcome) = Ok (Some e) \<and>
      (entry_name e :: (fs_error, u8 list) outcome) =
        Ok [0x48, 0x45, 0x4c, 0x4c, 0x4f, 0x2e, 0x54, 0x58, 0x54])"
proof -
  have len: "length hello_slot = 32"
    by (simp add: hello_slot_def)
  have base: "raw_base hello_slot = [0x48, 0x45, 0x4c, 0x4c, 0x4f]"
    by (simp add: raw_base_def name_field_def hello_slot_def)
  have suffix: "raw_suffix hello_slot = [0x2e, 0x54, 0x58, 0x54]"
    by (simp add: raw_suffix_def name_field_def hello_slot_def)
  have "raw_named hello_slot"
    by (simp add: raw_named_def raw_name_def base suffix is_ascii_def)
  then have "(from_raw hello_slot :: (fs_error, dir_entry option) outcome) = Ok (Some (raw_entry hello_slot))"
    by (simp add: from_raw_eq [OF len])
  with from_raw_names [OF len] len base suffix raw_name_def [of hello_slot] show ?thesis
    by auto
qed

end
