(* ===== verification/Fat32_Volume.thy ===== *)
theory Fat32_Volume
  imports Fat32_Names
begin

text \<open>
  What mounting guarantees, and the cluster arithmetic on a mounted volume: \<open>mount\<close> establishes
  \<open>volume_ok\<close>, under which cluster and FAT addresses stay inside the volume and no arithmetic
  overflows.
\<close>

section \<open>Well-formed volumes\<close>

definition valid_cluster :: "fat32 \<Rightarrow> u32 \<Rightarrow> bool" where
  "valid_cluster fs c \<longleftrightarrow> 2 \<le> unat c \<and> unat c < unat (cluster_count fs) + 2"

definition wf_fat32 :: "fat32 \<Rightarrow> bool" where
  "wf_fat32 fs \<longleftrightarrow>
     0 < unat (sectors_per_cluster fs) \<and> 0 < unat (fat_start_sector fs) \<and> 0 < unat (sectors_per_fat fs) \<and>
     unat (fat_start_sector fs) + unat (sectors_per_fat fs) \<le> unat (first_data_sector fs) \<and>
     unat (first_data_sector fs) + unat (cluster_count fs) * unat (sectors_per_cluster fs) < 2 ^ 32 \<and>
     unat (first_data_sector fs) + unat (cluster_count fs) * unat (sectors_per_cluster fs)
       \<le> unat (sector_count (device fs)) \<and>
     65525 \<le> unat (cluster_count fs) \<and> unat (cluster_count fs) + 2 < 2 ^ 32 \<and>
     valid_cluster fs (root_cluster fs) \<and>
     unat (root_cluster fs) < 128 * unat (sectors_per_fat fs)"

definition lawful_device :: "block_device \<Rightarrow> bool" where
  "lawful_device dev \<longleftrightarrow>
     (\<forall>lba. unat lba < unat (sector_count dev) \<longrightarrow>
        (\<exists>s. read_sector dev lba = Ok s \<and> length s = SECTOR_SIZE)) \<and>
     (\<forall>lba. unat (sector_count dev) \<le> unat lba \<longrightarrow> read_sector dev lba = Err SectorOutOfRange)"

definition volume_ok :: "fat32 \<Rightarrow> bool" where
  "volume_ok fs \<longleftrightarrow> wf_fat32 fs \<and> lawful_device (device fs)"

context block_device_spec
begin

lemma dev_lawful: "invar d \<Longrightarrow> lawful_device (dev_of d)"
  by (simp add: lawful_device_def read_in_range read_out_of_range)

end

section \<open>Mounting\<close>

lemma lawful_not_Panic: "lawful_device dev \<Longrightarrow> read_sector dev lba \<noteq> Panic"
  by (metis lawful_device_def not_less outcome.distinct(3) outcome.distinct(5))

lemma lawful_length: "lawful_device dev \<Longrightarrow> read_sector dev lba = Ok s \<Longrightarrow> length s = 512"
  by (metis SECTOR_SIZE_def lawful_device_def not_less outcome.distinct(1) outcome.inject(1))

lemma is_valid_cluster_Ok:
  "unat (cluster_count fs) + 2 < 2 ^ 32 \<Longrightarrow> is_valid_cluster fs c = Ok (valid_cluster fs c)"
  by (auto simp: is_valid_cluster_def valid_cluster_def add_ov_def checked_add_def
      word_le_nat_alt word_less_nat_alt unat_word_ariths)

text \<open>
  The boot-sector checks leave at least one reserved sector and one FAT sector in front of the data
  area, so \<open>cluster_count + 2\<close> cannot overflow.
\<close>

lemma cluster_count_bound:
  fixes total spc reserved fatc spf fds data :: u32
  assumes "unat fds = unat reserved + unat fatc * unat spf"
    and "reserved \<noteq> 0" "fatc \<noteq> 0" "spf \<noteq> 0" "spc \<noteq> 0"
    and "unat total = unat fds + unat data"
  shows "unat (data div spc) + 2 < 2 ^ 32"
    and "unat fds + unat (data div spc) * unat spc \<le> unat total"
    and "unat reserved + unat spf \<le> unat fds"
proof -
  have pos: "0 < unat reserved" "0 < unat fatc" "0 < unat spf" "0 < unat spc"
    using assms(2-5) by (auto simp: unat_gt_0)
  have ge: "unat spf \<le> unat fatc * unat spf"
    using pos by simp
  with assms(1) show "unat reserved + unat spf \<le> unat fds"
    by simp
  have "unat (data div spc) \<le> unat data"
    by (simp add: unat_div)
  moreover have "2 \<le> unat fds"
    using ge pos assms(1) by linarith
  moreover have "unat total < 2 ^ 32"
    by (rule unat_bounds)
  ultimately show "unat (data div spc) + 2 < 2 ^ 32"
    using assms(6) by linarith
  show "unat fds + unat (data div spc) * unat spc \<le> unat total"
    using assms(6) by (simp add: unat_div)
qed

lemma fat_bytes_Ok: "mul_ov (ucast (spf :: u32) :: u64) 512 = Ok (ucast spf * 512)"
  and unat_fat_entries: "unat ((ucast (spf :: u32) :: u64) * 512 div 4) = 128 * unat spf"
proof -
  have "unat spf < 2 ^ 32"
    by (rule unat_bounds)
  then have *: "unat ((ucast spf :: u64) * 512) = unat spf * 512"
    by (simp add: unat_word_ariths)
  then show "mul_ov (ucast spf :: u64) 512 = Ok (ucast spf * 512)"
    by (simp add: ov_Ok_iff)
  from * show "unat ((ucast spf :: u64) * 512 div 4) = 128 * unat spf"
    by (simp add: unat_div)
qed

text \<open>The arithmetic after the boot-sector checks: no step overflows, and the result is well formed.\<close>

lemma mount_geometry:
  fixes total spc reserved fatc spf fds root :: u32
  assumes fat: "checked_mul fatc spf = Some x" "checked_add reserved x = Some fds"
    and nz: "reserved \<noteq> 0" "fatc \<noteq> 0" "spf \<noteq> 0" "spc \<noteq> 0"
    and total: "\<not> total \<le> fds"
  shows sub: "sub_ov total fds = Ok (total - fds)"
    and limit: "add_ov ((total - fds) div spc) 2 = Ok ((total - fds) div spc + 2)"
    and wf: "lawful_device dev \<Longrightarrow> \<not> sector_count dev < ucast total \<Longrightarrow>
      \<not> (total - fds) div spc < 65525 \<Longrightarrow> \<not> root < 2 \<Longrightarrow>
      \<not> (total - fds) div spc + 2 \<le> root \<Longrightarrow>
      \<not> (ucast spf :: u64) * 512 div 4 \<le> ucast root \<Longrightarrow>
      volume_ok \<lparr>device = dev, sectors_per_cluster = spc, fat_start_sector = reserved,
        sectors_per_fat = spf, first_data_sector = fds, root_cluster = root,
        cluster_count = (total - fds) div spc\<rparr>"
proof -
  from fat have fds: "unat fds = unat reserved + unat fatc * unat spf"
    by (simp add: rust_simps)
  from total have tot: "unat total = unat fds + unat (total - fds)"
    by (simp add: unat_sub word_le_nat_alt)
  note bounds = cluster_count_bound [OF fds nz tot]
  from tot show "sub_ov total fds = Ok (total - fds)"
    by (simp add: rust_simps)
  from bounds(1) have two: "unat ((total - fds) div spc + 2) = unat ((total - fds) div spc) + 2"
    by (simp add: unat_word_ariths)
  then show "add_ov ((total - fds) div spc) 2 = Ok ((total - fds) div spc + 2)"
    by (simp add: rust_simps)
  assume "lawful_device dev" and cnt: "\<not> sector_count dev < ucast total"
    and many: "\<not> (total - fds) div spc < 65525" and root: "\<not> root < 2"
    "\<not> (total - fds) div spc + 2 \<le> root" "\<not> (ucast spf :: u64) * 512 div 4 \<le> ucast root"
  moreover have "unat total \<le> unat (sector_count dev)" "unat total < 2 ^ 32"
    using cnt unsigned_less [of total] by (simp_all add: word_less_nat_alt)
  moreover have "65525 \<le> unat ((total - fds) div spc)"
    using many by (simp add: word_less_nat_alt)
  moreover have "2 \<le> unat root" "unat root < unat ((total - fds) div spc) + 2"
    "unat root < 128 * unat spf"
    using root by (simp_all add: word_less_nat_alt word_le_nat_alt two unat_fat_entries)
  ultimately show "volume_ok \<lparr>device = dev, sectors_per_cluster = spc, fat_start_sector = reserved,
        sectors_per_fat = spf, first_data_sector = fds, root_cluster = root,
        cluster_count = (total - fds) div spc\<rparr>"
    using bounds nz by (auto simp: volume_ok_def wf_fat32_def valid_cluster_def unat_gt_0)
qed

lemma mount_facts:
  assumes "lawful_device dev"
  shows mount_not_Panic: "mount dev \<noteq> Panic"
    and mount_volume_ok: "mount dev = Ok fs \<Longrightarrow> volume_ok fs \<and> device fs = dev"
proof -
  have "mount dev \<noteq> Panic \<and> (mount dev = Ok fs \<longrightarrow> volume_ok fs \<and> device fs = dev)"
  proof (cases "read_sector dev 0")
    case (Ok sector)
    then have len: "length sector = 512"
      by (rule lawful_length [OF assms])
    show ?thesis
      using assms
      by (auto simp: mount_def Ok len Let_def SECTOR_SIZE_def fat_bytes_Ok obind_iffs split: if_splits)
        (auto simp: mount_geometry)
  next
    case (Err e)
    then show ?thesis by (simp add: mount_def)
  next
    case Panic
    with lawful_not_Panic [OF assms] show ?thesis by simp
  qed
  then show "mount dev \<noteq> Panic" "mount dev = Ok fs \<Longrightarrow> volume_ok fs \<and> device fs = dev"
    by auto
qed

context block_device_spec
begin

lemma mount_ok: "invar d \<Longrightarrow> mount (dev_of d) = Ok fs \<Longrightarrow> volume_ok fs \<and> device fs = dev_of d"
  using mount_volume_ok [OF dev_lawful] by blast

lemma mount_total: "invar d \<Longrightarrow> mount (dev_of d) \<noteq> Panic"
  using mount_not_Panic [OF dev_lawful] by blast

end

section \<open>Addresses on a mounted volume\<close>

definition dev_sector :: "fat32 \<Rightarrow> nat \<Rightarrow> u8 list" where
  "dev_sector fs n = (case read_sector (device fs) (of_nat n) of Ok s \<Rightarrow> s | _ \<Rightarrow> [])"

definition cluster_lba :: "fat32 \<Rightarrow> u32 \<Rightarrow> nat \<Rightarrow> nat" where
  "cluster_lba fs c i =
     unat (first_data_sector fs) + (unat c - 2) * unat (sectors_per_cluster fs) + i"

definition fat_value :: "fat32 \<Rightarrow> u32 \<Rightarrow> u32" where
  "fat_value fs c =
     le32_at (dev_sector fs (unat (fat_start_sector fs) + unat c div 128)) (4 * (unat c mod 128))
       AND 0x0fffffff"

lemma dev_sector_read:
  assumes "volume_ok fs" and "n < unat (sector_count (device fs))" and "n < 2 ^ 32"
  shows "read_sector (device fs) (of_nat n) = Ok (dev_sector fs n)" and "length (dev_sector fs n) = 512"
proof -
  have "unat (of_nat n :: u32) = n"
    using assms(3) by (simp add: unat_of_nat_small)
  with assms obtain s where "read_sector (device fs) (of_nat n) = Ok s" "length s = 512"
    unfolding volume_ok_def lawful_device_def SECTOR_SIZE_def by metis
  then show "read_sector (device fs) (of_nat n) = Ok (dev_sector fs n)" "length (dev_sector fs n) = 512"
    by (simp_all add: dev_sector_def)
qed

lemma volume_valid_cluster [simp]:
  "volume_ok fs \<Longrightarrow> is_valid_cluster fs c = Ok (valid_cluster fs c)"
  by (simp add: volume_ok_def wf_fat32_def is_valid_cluster_Ok)

lemma cluster_lba_bound:
  assumes "volume_ok fs" "valid_cluster fs c" "i < unat (sectors_per_cluster fs)"
  shows "cluster_lba fs c i < unat (first_data_sector fs) + unat (cluster_count fs) * unat (sectors_per_cluster fs)"
    and "cluster_lba fs c i < unat (sector_count (device fs))" and "cluster_lba fs c i < 2 ^ 32"
proof -
  have "unat c - 2 + 1 \<le> unat (cluster_count fs)"
    using assms(2) by (auto simp: valid_cluster_def)
  then have "(unat c - 2 + 1) * unat (sectors_per_cluster fs) \<le> unat (cluster_count fs) * unat (sectors_per_cluster fs)"
    by (rule mult_le_mono1)
  with assms(3) show *: "cluster_lba fs c i < unat (first_data_sector fs) + unat (cluster_count fs) * unat (sectors_per_cluster fs)"
    by (simp add: cluster_lba_def algebra_simps)
  from * assms(1) show "cluster_lba fs c i < unat (sector_count (device fs))" "cluster_lba fs c i < 2 ^ 32"
    by (simp_all add: volume_ok_def wf_fat32_def)
qed

lemma cluster_sector_read:
  assumes "volume_ok fs" "valid_cluster fs c" "i < unat (sectors_per_cluster fs)"
  shows "read_sector (device fs) (of_nat (cluster_lba fs c i)) = Ok (dev_sector fs (cluster_lba fs c i))"
    and "length (dev_sector fs (cluster_lba fs c i)) = 512"
  using dev_sector_read [OF assms(1) cluster_lba_bound(2,3) [OF assms]] by simp_all

lemma cluster_to_sector_Ok:
  assumes "volume_ok fs" "valid_cluster fs c" "i < unat (sectors_per_cluster fs)"
  shows "cluster_to_sector fs c (of_nat i) = Ok (of_nat (cluster_lba fs c i))"
proof -
  let ?spc = "sectors_per_cluster fs" and ?fds = "first_data_sector fs"
  note lba = cluster_lba_bound [OF assms]
  have i: "unat (of_nat i :: u32) = i"
    using assms(3) unat_bounds(3) [of ?spc] by (simp add: unat_of_nat_small)
  have c2: "unat (c - 2) = unat c - 2" and sub: "sub_ov c 2 = Ok (c - 2)"
    using assms(2) by (auto simp: valid_cluster_def ov_Ok_iff unat_sub word_le_nat_alt)
  have "unat (c - 2) * unat ?spc < 2 ^ 32"
    using lba(3) by (simp add: cluster_lba_def c2)
  then have m: "unat ((c - 2) * ?spc) = (unat c - 2) * unat ?spc"
    by (simp add: unat_word_ariths c2)
  have "unat (?fds + (c - 2) * ?spc) = unat ?fds + (unat c - 2) * unat ?spc"
    using lba(3) by (simp add: cluster_lba_def unat_word_ariths(1) m)
  then have add: "checked_add ?fds ((c - 2) * ?spc) = Some (?fds + (c - 2) * ?spc)"
    and add': "checked_add (?fds + (c - 2) * ?spc) (of_nat i) = Some (of_nat (cluster_lba fs c i))"
    using unat_of_nat_small [where 'a = 32, of "cluster_lba fs c i"] lba(3)
    by (simp_all add: checked_add_Some_iff m i) (simp add: cluster_lba_def)
  have mul: "checked_mul (c - 2) ?spc = Some ((c - 2) * ?spc)"
    by (simp add: checked_mul_Some_iff m c2)
  from assms i show ?thesis
    by (simp add: cluster_to_sector_def word_le_nat_alt sub mul add add')
qed

lemma next_cluster_eq:
  assumes "volume_ok fs" "valid_cluster fs c"
  shows "next_cluster fs c =
    (if unat c div 128 < unat (sectors_per_fat fs) then Ok (fat_value fs c) else Err CorruptFat)"
proof -
  have lt: "unat c < 2 ^ 32"
    by (rule unat_bounds)
  then have off: "unat ((ucast c :: u64) * 4) = unat c * 4"
    by (simp add: unat_word_ariths)
  then have mul: "checked_mul (ucast c :: u64) 4 = Some (ucast c * 4)"
    by (simp add: checked_mul_Some_iff)
  have so: "unat ((ucast c :: u64) * 4 div 512) = unat c div 128"
    and eo: "unat ((ucast c :: u64) * 4 mod 512) = 4 * (unat c mod 128)"
    by (simp_all add: unat_div unat_mod off mult_mod_right) (simp add: mult.commute)
  have so32: "unat (ucast ((ucast c :: u64) * 4 div 512) :: u32) = unat c div 128"
    using lt by (simp add: unsigned_ucast_eq so take_bit_nat_eq_self)
  show ?thesis
  proof (cases "unat c div 128 < unat (sectors_per_fat fs)")
    case True
    let ?n = "unat (fat_start_sector fs) + unat c div 128"
    have n: "?n < unat (sector_count (device fs))" "?n < 2 ^ 32"
      using True assms(1) by (auto simp: volume_ok_def wf_fat32_def)
    then have "checked_add (fat_start_sector fs) (ucast ((ucast c :: u64) * 4 div 512)) = Some (of_nat ?n)"
      by (simp add: checked_add_Some_iff so32 unat_of_nat_small del: of_nat_add)
    with True n assms dev_sector_read [OF assms(1) n] show ?thesis
      by (simp add: next_cluster_def mul SECTOR_SIZE_def word_le_nat_alt so eo fat_value_def del: of_nat_add)
  next
    case False
    with assms show ?thesis
      by (simp add: next_cluster_def mul SECTOR_SIZE_def word_le_nat_alt so)
  qed
qed

end
