(* ===== verification/Fat32_Walk.thy ===== *)
theory Fat32_Walk
  imports Fat32_Volume
begin

text \<open>
  The loops of the FAT32 reader on a mounted volume. The abstract view of a file or directory is
  its cluster chain, read off the FAT by \<open>cluster_link\<close>, and the bytes of the chain's clusters;
  the lemmas equate the nested loops over clusters, sectors and slots with one pass over those
  bytes.
\<close>

section \<open>Cluster chains\<close>

datatype chain_link = End_Of_Chain | Broken_Link | Link u32

definition cluster_link :: "fat32 \<Rightarrow> u32 \<Rightarrow> chain_link" where
  "cluster_link fs c =
     (if unat (sectors_per_fat fs) \<le> unat c div 128 then Broken_Link
      else if fat_value fs c \<ge> FAT32_EOC then End_Of_Chain
      else if fat_value fs c = FAT32_BAD_CLUSTER \<or> \<not> valid_cluster fs (fat_value fs c) then Broken_Link
      else Link (fat_value fs c))"

text \<open>How following a chain ends: at an end mark, at a bad link, or by running out of steps.\<close>

datatype chain_end = Complete | Broken | Cut

fun chain :: "fat32 \<Rightarrow> nat \<Rightarrow> u32 \<Rightarrow> u32 list \<times> chain_end" where
  "chain fs 0 c = ([], Cut)"
| "chain fs (Suc n) c =
     (case cluster_link fs c of
        End_Of_Chain \<Rightarrow> ([c], Complete)
      | Broken_Link \<Rightarrow> ([c], Broken)
      | Link c' \<Rightarrow> (let (cs, e) = chain fs n c' in (c # cs, e)))"

lemma link_valid: "cluster_link fs c = Link c' \<Longrightarrow> valid_cluster fs c'"
  by (auto simp: cluster_link_def split: if_splits)

lemma chain_valid:
  "valid_cluster fs c \<Longrightarrow> chain fs n c = (cs, e) \<Longrightarrow> c' \<in> set cs \<Longrightarrow> valid_cluster fs c'"
  by (induction n arbitrary: c cs)
    (auto split: chain_link.splits prod.splits, use link_valid in blast)

lemma chain_Cut_length: "chain fs n c = (cs, Cut) \<Longrightarrow> length cs = n"
  by (induction n arbitrary: c cs) (auto split: chain_link.splits prod.splits)

text \<open>A chain that ends does so after the same clusters, whatever the number of steps allowed.\<close>

lemma chain_unique:
  "chain fs n c = (cs, e) \<Longrightarrow> chain fs m c = (cs', e') \<Longrightarrow> e \<noteq> Cut \<Longrightarrow> e' \<noteq> Cut \<Longrightarrow> cs = cs'"
proof (induction n arbitrary: c cs m cs')
  case 0
  then show ?case by simp
next
  case (Suc n)
  then show ?case
    by (cases m) (fastforce split: chain_link.splits prod.splits)+
qed

lemma chain_suffix:
  "chain fs n c = (cs, e) \<Longrightarrow> i < length cs \<Longrightarrow> \<exists>m. chain fs m (cs ! i) = (drop i cs, e)"
proof (induction n arbitrary: c cs i)
  case 0
  then show ?case by simp
next
  case (Suc n)
  show ?case
  proof (cases i)
    case 0
    with Suc.prems have "cs ! i = c"
      by (auto split: chain_link.splits prod.splits)
    with 0 Suc.prems show ?thesis
      by (metis drop0)
  next
    case (Suc j)
    with Suc.prems Suc.IH show ?thesis
      by (auto split: chain_link.splits prod.splits)
  qed
qed

lemma chain_distinct:
  assumes "chain fs n c = (cs, e)" and "e \<noteq> Cut"
  shows "distinct cs"
proof -
  have "cs ! i \<noteq> cs ! j" if "i < j" "j < length cs" for i j
  proof
    assume eq: "cs ! i = cs ! j"
    from that chain_suffix [OF assms(1), of i] chain_suffix [OF assms(1), of j]
    obtain m m' where "chain fs m (cs ! i) = (drop i cs, e)" "chain fs m' (cs ! i) = (drop j cs, e)"
      unfolding eq by auto
    with assms(2) have "drop i cs = drop j cs"
      by (metis chain_unique)
    then have "length cs - i = length cs - j"
      by (metis length_drop)
    with that show False by simp
  qed
  then show ?thesis
    by (metis distinct_conv_nth linorder_neqE_nat)
qed

text \<open>By the pigeonhole principle a chain longer than the number of clusters repeats one.\<close>

lemma valid_clusters_card: "finite {c. valid_cluster fs c} \<and> card {c. valid_cluster fs c} \<le> unat (cluster_count fs)"
proof -
  have inj: "inj_on unat {c. valid_cluster fs c}"
    by (simp add: inj_on_def word_unat_eq_iff)
  have "unat ` {c. valid_cluster fs c} \<subseteq> {2..<unat (cluster_count fs) + 2}"
    by (auto simp: valid_cluster_def)
  then have "card (unat ` {c. valid_cluster fs c}) \<le> unat (cluster_count fs)"
    using card_mono [of "{2..<unat (cluster_count fs) + 2}"] by fastforce
  then show ?thesis
    by (simp add: card_image [OF inj])
qed

lemma long_chain_repeats:
  assumes "valid_cluster fs c" "chain fs n c = (cs, e)" "unat (cluster_count fs) < length cs"
  shows "\<not> distinct cs"
proof
  assume "distinct cs"
  then have "length cs = card (set cs)"
    by (simp add: distinct_card)
  also have "\<dots> \<le> card {c. valid_cluster fs c}"
    using valid_clusters_card [of fs] chain_valid [OF assms(1,2)] by (intro card_mono) auto
  finally show False
    using valid_clusters_card [of fs] assms(3) by simp
qed

text \<open>The link relation of the FAT.\<close>

definition fat_step :: "fat32 \<Rightarrow> u32 \<Rightarrow> u32 \<Rightarrow> bool" where
  "fat_step fs c c' \<longleftrightarrow> cluster_link fs c = Link c'"

lemma chain_steps:
  "chain fs n c = (cs, e) \<Longrightarrow> i < j \<Longrightarrow> j < length cs \<Longrightarrow> (fat_step fs)\<^sup>+\<^sup>+ (cs ! i) (cs ! j)"
proof (induction n arbitrary: c cs i j)
  case 0
  then show ?case by simp
next
  case (Suc n)
  from Suc.prems obtain c' cs' where link: "cluster_link fs c = Link c'"
    and tail: "chain fs n c' = (cs', e)" and cs: "cs = c # cs'"
    by (auto split: chain_link.splits prod.splits)
  obtain j' where j: "j = Suc j'" "j' < length cs'"
    using Suc.prems(2,3) cs by (cases j) auto
  have hd: "cs' ! 0 = c'"
    using tail j(2) by (cases n) (auto split: chain_link.splits prod.splits)
  have "(fat_step fs)\<^sup>+\<^sup>+ c (cs' ! j')"
  proof (cases "j' = 0")
    case True
    with hd j link show ?thesis
      by (auto simp: fat_step_def)
  next
    case False
    with Suc.IH [OF tail, of 0 j'] j hd have "(fat_step fs)\<^sup>+\<^sup>+ c' (cs' ! j')"
      by auto
    with link show ?thesis
      by (meson fat_step_def tranclp_into_tranclp2)
  qed
  with Suc.IH [OF tail, of "i - 1" j'] Suc.prems(2) j cs show ?case
    by (cases i) auto
qed

lemma chain_Cut_cyclic:
  assumes "valid_cluster fs c" "chain fs (unat (cluster_count fs) + 1) c = (cs, Cut)"
  shows "\<exists>x. (fat_step fs)\<^sup>*\<^sup>* c x \<and> (fat_step fs)\<^sup>+\<^sup>+ x x"
proof -
  have len: "length cs = unat (cluster_count fs) + 1"
    using chain_Cut_length [OF assms(2)] .
  then have "\<not> distinct cs"
    using long_chain_repeats [OF assms] by simp
  then obtain i j where ij: "i < j" "j < length cs" "cs ! i = cs ! j"
    by (metis distinct_conv_nth linorder_neqE_nat)
  have c0: "cs ! 0 = c"
    using assms(2) by (auto split: chain_link.splits prod.splits)
  have "(fat_step fs)\<^sup>*\<^sup>* c (cs ! i)"
    using chain_steps [OF assms(2), of 0 i] ij c0 by (cases "i = 0") (auto simp: tranclp_into_rtranclp)
  moreover have "(fat_step fs)\<^sup>+\<^sup>+ (cs ! i) (cs ! i)"
    using chain_steps [OF assms(2) ij(1,2)] ij(3) by simp
  ultimately show ?thesis by blast
qed

section \<open>The bytes of a chain\<close>

definition cluster_sectors :: "fat32 \<Rightarrow> u32 \<Rightarrow> u8 list list" where
  "cluster_sectors fs c =
     map (\<lambda>i. dev_sector fs (cluster_lba fs c i)) [0..<unat (sectors_per_cluster fs)]"

definition chain_bytes :: "fat32 \<Rightarrow> u32 list \<Rightarrow> u8 list" where
  "chain_bytes fs cs = concat (map (\<lambda>c. concat (cluster_sectors fs c)) cs)"

definition chain_slots :: "fat32 \<Rightarrow> u32 list \<Rightarrow> u8 list list" where
  "chain_slots fs cs = chunks_exact 32 (chain_bytes fs cs)"

lemma cluster_sectors_length:
  "volume_ok fs \<Longrightarrow> valid_cluster fs c \<Longrightarrow> s \<in> set (cluster_sectors fs c) \<Longrightarrow> length s = 512"
  by (auto simp: cluster_sectors_def cluster_sector_read)

lemma cluster_dvd:
  assumes "volume_ok fs" "valid_cluster fs c"
  shows "512 dvd length (concat (cluster_sectors fs c))"
  using cluster_sectors_length [OF assms] by (intro dvd_length_concat) auto

lemma cluster_length:
  assumes "volume_ok fs" "valid_cluster fs c"
  shows "length (concat (cluster_sectors fs c)) = 512 * unat (sectors_per_cluster fs)"
proof -
  have "map length (cluster_sectors fs c) = replicate (unat (sectors_per_cluster fs)) 512"
    using cluster_sectors_length [OF assms] by (intro replicate_eqI) (auto simp: cluster_sectors_def)
  then show ?thesis
    by (simp add: length_concat sum_list_replicate)
qed

lemma chain_bytes_Cons [simp]: "chain_bytes fs (c # cs) = concat (cluster_sectors fs c) @ chain_bytes fs cs"
  and chain_bytes_Nil [simp]: "chain_bytes fs [] = []"
  by (simp_all add: chain_bytes_def)

lemma chain_slots_Nil [simp]: "chain_slots fs [] = []"
  by (simp add: chain_slots_def)

lemma chain_slots_Cons:
  assumes "volume_ok fs" "valid_cluster fs c"
  shows "chain_slots fs (c # cs) = concat (map (chunks_exact 32) (cluster_sectors fs c)) @ chain_slots fs cs"
proof -
  have "32 dvd length (concat (cluster_sectors fs c))"
    using cluster_dvd [OF assms] by (rule dvd_trans [rotated]) simp
  moreover have "chunks_exact 32 (concat (cluster_sectors fs c)) = concat (map (chunks_exact 32) (cluster_sectors fs c))"
    using cluster_sectors_length [OF assms] by (intro chunks_exact_concat) auto
  ultimately show ?thesis
    by (simp add: chain_slots_def chunks_exact_append)
qed

lemma chain_slots_length: "raw \<in> set (chain_slots fs cs) \<Longrightarrow> length raw = 32"
  by (simp add: chain_slots_def chunks_exact_lengths)

section \<open>Walking a directory\<close>

text \<open>The entries of a directory: those in its slots before the first free-and-last mark.\<close>

definition slot_skipped :: "u8 list \<Rightarrow> bool" where
  "slot_skipped raw \<longleftrightarrow>
     raw ! 0 = 0xe5 \<or> raw ! 0 = 0x2e \<or> raw ! 11 = ATTR_LONG_FILE_NAME
     \<or> raw ! 11 AND ATTR_VOLUME_ID \<noteq> 0 \<or> \<not> raw_named raw"

definition slot_last :: "u8 list \<Rightarrow> bool" where
  "slot_last raw \<longleftrightarrow> raw ! 0 = 0x00"

definition dir_entries :: "u8 list list \<Rightarrow> dir_entry list" where
  "dir_entries slots =
     map raw_entry (filter (\<lambda>raw. \<not> slot_skipped raw) (takeWhile (\<lambda>raw. \<not> slot_last raw) slots))"

text \<open>Feeding entries to a visitor until it declines; the flag tells whether it did.\<close>

fun run_visitor :: "'s dir_visitor \<Rightarrow> dir_entry list \<Rightarrow> 's \<Rightarrow> ('s, bool) fs_run" where
  "run_visitor visitor [] s = Ok (s, False)"
| "run_visitor visitor (e # es) s =
     obind (or_panic (visitor s e)) (\<lambda>(s', go_on).
     if go_on then run_visitor visitor es s' else Ok (s', True))"

lemma visit_entries_eq:
  "(\<And>raw. raw \<in> set slots \<Longrightarrow> length raw = 32) \<Longrightarrow>
   visit_entries visitor slots s =
     obind (run_visitor visitor (dir_entries slots) s) (\<lambda>(s', declined).
     Ok (s', declined \<or> list_ex slot_last slots))"
proof (induction slots arbitrary: s)
  case Nil
  then show ?case by (simp add: dir_entries_def)
next
  case (Cons raw slots)
  have len: "length raw = 32"
    using Cons.prems by simp
  consider (last) "slot_last raw" | (skip) "\<not> slot_last raw" "slot_skipped raw"
    | (entry) "\<not> slot_last raw" "\<not> slot_skipped raw"
    by blast
  then show ?case
  proof cases
    case last
    then show ?thesis
      using len by (simp add: slot_last_def dir_entries_def)
  next
    case skip
    then have "visit_entries visitor (raw # slots) s = visit_entries visitor slots s"
      using len by (auto simp: slot_last_def slot_skipped_def from_raw_eq)
    with skip Cons show ?thesis
      by (simp add: dir_entries_def)
  next
    case entry
    then have "visit_entries visitor (raw # slots) s =
      obind (or_panic (visitor s (raw_entry raw))) (\<lambda>(s', go_on).
        if go_on then visit_entries visitor slots s' else Ok (s', True))"
      using len by (auto simp: slot_last_def slot_skipped_def from_raw_eq)
    with entry Cons show ?thesis
      by (cases "visitor s (raw_entry raw)") (auto simp: dir_entries_def)
  qed
qed

lemma visit_entries_append:
  "visit_entries visitor (xs @ ys) s =
     obind (visit_entries visitor xs s) (\<lambda>(s', returned).
     if returned then Ok (s', True) else visit_entries visitor ys s')"
proof (induction xs arbitrary: s)
  case Nil
  then show ?case by simp
next
  case (Cons raw xs)
  show ?case
    by (auto simp: Cons.IH obind_assoc case_prod_beta intro!: obind_cong split: option.splits)
qed

lemma visit_sectors_eq:
  assumes "volume_ok fs" "valid_cluster fs c" and "\<And>i. i \<in> set is \<Longrightarrow> i < unat (sectors_per_cluster fs)"
  shows "visit_sectors visitor fs c (map of_nat is) s =
    visit_entries visitor (concat (map (\<lambda>i. chunks_exact 32 (dev_sector fs (cluster_lba fs c i))) is)) s"
  using assms(3)
proof (induction "is" arbitrary: s)
  case Nil
  then show ?case by simp
next
  case (Cons i "is")
  then have "i < unat (sectors_per_cluster fs)"
    by simp
  note addr = cluster_to_sector_Ok [OF assms(1,2) this] cluster_sector_read [OF assms(1,2) this]
  show ?case
    using Cons by (auto simp: addr visit_entries_append intro!: obind_cong)
qed

lemma visit_cluster_eq:
  assumes "volume_ok fs" "valid_cluster fs c"
  shows "visit_sectors visitor fs c (sector_indices fs) s =
    visit_entries visitor (concat (map (chunks_exact 32) (cluster_sectors fs c))) s"
  using visit_sectors_eq [OF assms, of "[0..<unat (sectors_per_cluster fs)]" visitor s]
  by (simp add: sector_indices_def cluster_sectors_def comp_def)

definition chain_error :: "chain_end \<Rightarrow> fs_error \<Rightarrow> fs_error" where
  "chain_error e on_end =
     (case e of Complete \<Rightarrow> on_end | Broken \<Rightarrow> CorruptFat | Cut \<Rightarrow> DirectoryLoop)"

lemma next_cluster_link:
  assumes "volume_ok fs" "valid_cluster fs c"
  shows "(case cluster_link fs c of
      End_Of_Chain \<Rightarrow> \<exists>v. next_cluster fs c = Ok v \<and> FAT32_EOC \<le> v
    | Broken_Link \<Rightarrow> next_cluster fs c = Err CorruptFat \<or>
        (\<exists>v. next_cluster fs c = Ok v \<and> \<not> FAT32_EOC \<le> v \<and> checked_next_cluster fs v = Err CorruptFat)
    | Link c' \<Rightarrow> next_cluster fs c = Ok c' \<and> \<not> FAT32_EOC \<le> c' \<and> checked_next_cluster fs c' = Ok c')"
  using assms
  by (auto simp: cluster_link_def next_cluster_eq checked_next_cluster_def)

lemma chain_Suc:
  "fst (chain fs (Suc n) c) = c # (case cluster_link fs c of Link c' \<Rightarrow> fst (chain fs n c') | _ \<Rightarrow> [])"
  "snd (chain fs (Suc n) c) =
     (case cluster_link fs c of Link c' \<Rightarrow> snd (chain fs n c') | End_Of_Chain \<Rightarrow> Complete | Broken_Link \<Rightarrow> Broken)"
  by (simp_all split: chain_link.split prod.split)

declare chain.simps(2) [simp del]

lemma visit_clusters_eq:
  assumes "volume_ok fs"
  shows "valid_cluster fs c \<Longrightarrow> visit_clusters visitor fs n c s =
    obind (visit_entries visitor (chain_slots fs (fst (chain fs n c))) s) (\<lambda>(s', returned).
      if returned \<or> snd (chain fs n c) = Complete then Ok (s', ())
      else Err (s', chain_error (snd (chain fs n c)) CorruptFat))"
proof (induction n arbitrary: c s)
  case 0
  then show ?case by (simp add: chain_error_def)
next
  case (Suc n)
  note link = next_cluster_link [OF assms Suc.prems]
  note step = visit_cluster_eq [OF assms Suc.prems] chain_slots_Cons [OF assms Suc.prems] chain_Suc
  show ?case
  proof (cases "cluster_link fs c")
    case End_Of_Chain
    with link show ?thesis
      by (auto simp: step intro!: obind_cong)
  next
    case Broken_Link
    with link show ?thesis
      by (auto simp: step chain_error_def intro!: obind_cong)
  next
    case (Link c')
    then have "valid_cluster fs c'"
      by (rule link_valid)
    note IH = Suc.IH [OF this]
    show ?thesis
      using link Link
      by (auto simp: step visit_entries_append obind_assoc IH intro!: obind_cong)
  qed
qed

text \<open>The walk of a directory is one pass over the entries found in the bytes of its chain.\<close>

definition walk_chain :: "fat32 \<Rightarrow> u32 \<Rightarrow> u32 list" where
  "walk_chain fs c = fst (chain fs (unat (cluster_count fs) + 1) c)"

definition walk_end :: "fat32 \<Rightarrow> u32 \<Rightarrow> chain_end" where
  "walk_end fs c = snd (chain fs (unat (cluster_count fs) + 1) c)"

lemma visit_directory_eq:
  assumes "volume_ok fs"
  shows "visit_directory visitor fs c s =
    (if valid_cluster fs c then
       obind (run_visitor visitor (dir_entries (chain_slots fs (walk_chain fs c))) s) (\<lambda>(s', declined).
          if declined \<or> list_ex slot_last (chain_slots fs (walk_chain fs c)) \<or> walk_end fs c = Complete
          then Ok (s', ()) else Err (s', chain_error (walk_end fs c) CorruptFat))
     else Err (s, InvalidCluster))"
  using assms chain_slots_length
  by (auto simp: visit_directory_def visit_clusters_eq visit_entries_eq obind_assoc walk_chain_def
      walk_end_def simp del: visit_clusters.simps intro!: obind_cong)

end
