(* ===== verification/Fat32_Files.thy ===== *)
theory Fat32_Files
  imports Fat32_Walk
begin

text \<open>
  The public operations of the FAT32 reader against an abstract view of the volume: a directory is
  the list of its entries, a file is the bytes of its chain. Path resolution refines the relation
  \<open>resolves\<close>, \<open>list_dir\<close> feeds a directory's entries to its visitor, and \<open>read_file\<close> feeds
  the file's bytes in 512-byte pieces.
\<close>

section \<open>The abstract view\<close>

definition dir_list :: "fat32 \<Rightarrow> u32 \<Rightarrow> dir_entry list" where
  "dir_list fs c = dir_entries (chain_slots fs (walk_chain fs c))"

text \<open>A directory is closed when its end mark or the end of its chain is reached.\<close>

definition dir_closed :: "fat32 \<Rightarrow> u32 \<Rightarrow> bool" where
  "dir_closed fs c \<longleftrightarrow> list_ex slot_last (chain_slots fs (walk_chain fs c)) \<or> walk_end fs c = Complete"

definition file_bytes :: "fat32 \<Rightarrow> u32 \<Rightarrow> u8 list" where
  "file_bytes fs c = chain_bytes fs (walk_chain fs c)"

definition entry_label :: "dir_entry \<Rightarrow> u8 list" where
  "entry_label e = take (unat (de_name_len e)) (de_name e)"

definition named :: "u8 list \<Rightarrow> dir_entry \<Rightarrow> bool" where
  "named nm e \<longleftrightarrow> eq_ignore_ascii_case (entry_label e) nm"

definition first_named :: "fat32 \<Rightarrow> u32 \<Rightarrow> u8 list \<Rightarrow> dir_entry \<Rightarrow> bool" where
  "first_named fs c nm e \<longleftrightarrow> valid_cluster fs c \<and>
     (\<exists>pre post. dir_list fs c = pre @ e # post \<and> named nm e \<and> list_all (\<lambda>x. \<not> named nm x) pre)"

inductive resolves :: "fat32 \<Rightarrow> u32 \<Rightarrow> u8 list list \<Rightarrow> dir_entry \<Rightarrow> bool" for fs where
  leaf: "\<not> is_dot_component nm \<Longrightarrow> first_named fs c nm e \<Longrightarrow> resolves fs c [nm] e"
| step: "\<not> is_dot_component nm \<Longrightarrow> first_named fs c nm d \<Longrightarrow> is_directory d \<Longrightarrow>
    resolves fs (first_cluster d) (nm' # rest) e \<Longrightarrow> resolves fs c (nm # nm' # rest) e"

inductive_simps resolves_simps: "resolves fs c [] e" "resolves fs c [nm] e" "resolves fs c (nm # nm' # rest) e"

section \<open>Directories\<close>

lemma list_dir_entries_named:
  assumes "e \<in> set (dir_list fs c)"
  shows "entry_name e = Ok (entry_label e)"
proof -
  obtain raw where raw: "e = raw_entry raw" "length raw = 32"
    using assms set_takeWhileD by (fastforce simp: dir_list_def dir_entries_def dest: chain_slots_length)
  have "unat (of_nat (length (raw_name raw)) :: u8) = length (raw_name raw)"
    using raw_name_length [OF raw(2)] by (simp add: unat_of_nat_small)
  then have "entry_label e = raw_name raw"
    by (simp add: entry_label_def raw raw_entry_def)
  with entry_name_raw_entry [OF raw(2)] show ?thesis
    by (simp add: raw)
qed

lemma visit_directory_list:
  assumes "volume_ok fs"
  shows "visit_directory visitor fs c s =
    (if valid_cluster fs c then
       obind (run_visitor visitor (dir_list fs c) s) (\<lambda>(s', declined).
         if declined \<or> dir_closed fs c then Ok (s', ()) else Err (s', chain_error (walk_end fs c) CorruptFat))
     else Err (s, InvalidCluster))"
  by (simp add: visit_directory_eq [OF assms] dir_list_def dir_closed_def)

lemma run_find_visitor:
  "(\<And>e. e \<in> set es \<Longrightarrow> entry_name e = (Ok (entry_label e) :: (unit, u8 list) outcome)) \<Longrightarrow>
   run_visitor (find_visitor nm) es None =
     Ok (find (named nm) es, find (named nm) es \<noteq> None)"
  by (induction es) (auto simp: find_visitor_def named_def)

lemma find_first:
  "find P xs = Some x \<longleftrightarrow> (\<exists>pre post. xs = pre @ x # post \<and> P x \<and> list_all (\<lambda>y. \<not> P y) pre)"
proof
  assume "find P xs = Some x"
  then obtain i where i: "i < length xs" "P (xs ! i)" "x = xs ! i" "\<forall>j < i. \<not> P (xs ! j)"
    by (auto simp: find_Some_iff)
  then have "xs = take i xs @ x # drop (Suc i) xs" "list_all (\<lambda>y. \<not> P y) (take i xs)"
    by (auto simp: id_take_nth_drop list_all_length)
  with i show "\<exists>pre post. xs = pre @ x # post \<and> P x \<and> list_all (\<lambda>y. \<not> P y) pre"
    by metis
next
  assume "\<exists>pre post. xs = pre @ x # post \<and> P x \<and> list_all (\<lambda>y. \<not> P y) pre"
  moreover have "find P (pre @ x # post) = Some x" if "P x" "list_all (\<lambda>y. \<not> P y) pre" for pre post
    using that by (induction pre) auto
  ultimately show "find P xs = Some x" by auto
qed

lemma find_in_directory_eq:
  assumes "volume_ok fs"
  shows "find_in_directory fs c nm =
    (if valid_cluster fs c then
       case find (named nm) (dir_list fs c) of
         Some e \<Rightarrow> Ok e
       | None \<Rightarrow> Err (if dir_closed fs c then NotFound else chain_error (walk_end fs c) CorruptFat)
     else Err InvalidCluster)"
proof -
  have "run_visitor (find_visitor nm) (dir_list fs c) None =
     Ok (find (named nm) (dir_list fs c), find (named nm) (dir_list fs c) \<noteq> None)"
    by (rule run_find_visitor) (rule list_dir_entries_named)
  then show ?thesis
    by (simp add: find_in_directory_def visit_directory_list [OF assms] split: option.split)
qed

lemma first_named_iff:
  "first_named fs c nm e \<longleftrightarrow> valid_cluster fs c \<and> find (named nm) (dir_list fs c) = Some e"
  unfolding first_named_def find_first ..

lemma find_in_directory_Ok:
  "volume_ok fs \<Longrightarrow> find_in_directory fs c nm = Ok e \<longleftrightarrow> first_named fs c nm e"
  by (simp add: find_in_directory_eq first_named_iff split: option.split)

section \<open>Paths\<close>

lemma resolve_components_resolves:
  "volume_ok fs \<Longrightarrow> \<not> is_dot_component nm \<Longrightarrow>
   resolve_components fs c nm rest = Ok e \<longleftrightarrow> resolves fs c (nm # rest) e"
proof (induction rest arbitrary: c nm)
  case Nil
  then show ?case
    by (simp add: resolve_components.simps obind_Ok_iff find_in_directory_Ok resolves_simps)
next
  case (Cons nm' rest)
  have "resolves fs c (nm' # rest) e \<Longrightarrow> \<not> is_dot_component nm'" for c
    by (auto elim: resolves.cases)
  with Cons show ?case
    by (auto simp: resolve_components.simps [of _ _ _ "nm' # rest"] obind_Ok_iff find_in_directory_Ok
        resolves_simps)
qed

lemma resolve_path_resolves:
  assumes "volume_ok fs"
  shows "resolve_path fs path = Ok e \<longleftrightarrow> resolves fs (root_cluster fs) (path_components path) e"
proof (cases "path_components path")
  case Nil
  then show ?thesis by (simp add: resolve_path_def resolves_simps)
next
  case (Cons nm rest)
  moreover have "resolves fs c (nm # rest) e \<Longrightarrow> \<not> is_dot_component nm" for c
    by (auto elim: resolves.cases)
  ultimately show ?thesis
    by (auto simp: resolve_path_def resolve_components_resolves [OF assms])
qed

lemma split_on_append: "split_on sep (xs @ sep # ys) = split_on sep xs @ split_on sep ys"
proof (induction xs)
  case Nil
  then show ?case by simp
next
  case (Cons b xs)
  moreover have "split_on sep xs \<noteq> []"
    by (cases xs) (auto split: list.splits)
  ultimately show ?case
    by (auto split: list.splits)
qed

lemma split_on_free: "sep \<notin> set xs \<Longrightarrow> split_on sep xs = [xs]"
  by (induction xs) auto

lemma path_components_append:
  "path_components (xs @ 0x2f # ys) = path_components xs @ path_components ys"
  by (simp add: path_components_def split_on_append)

lemma path_components_free:
  "0x2f \<notin> set xs \<Longrightarrow> path_components xs = (if xs = [] then [] else [xs])"
  by (simp add: path_components_def split_on_free)

lemma path_components_empty: "path_components path = [] \<longleftrightarrow> (\<forall>b \<in> set path. b = 0x2f)"
proof (induction path rule: length_induct)
  case (1 path)
  show ?case
  proof (cases "0x2f \<in> set path")
    case True
    then obtain xs ys where "path = xs @ 0x2f # ys"
      by (meson split_list)
    moreover from this have "length xs < length path" "length ys < length path"
      by simp_all
    ultimately show ?thesis
      using 1 by (auto simp: path_components_append)
  next
    case False
    then show ?thesis
      by (cases path) (auto simp: path_components_free)
  qed
qed

lemma trim_matches_empty: "trim_matches c xs = [] \<longleftrightarrow> (\<forall>b \<in> set xs. b = c)"
proof -
  have "(\<forall>b \<in> set (dropWhile (\<lambda>b. b = c) xs). b = c) \<longleftrightarrow> (\<forall>b \<in> set xs. b = c)"
    by (induction xs) auto
  then show ?thesis
    by (simp add: trim_matches_def dropWhile_eq_Nil_conv)
qed

section \<open>Files\<close>

text \<open>Feeding pieces to a byte visitor, in order.\<close>

fun deliver :: "'s byte_visitor \<Rightarrow> u8 list list \<Rightarrow> 's \<Rightarrow> ('e, 's) outcome" where
  "deliver visitor [] s = Ok s"
| "deliver visitor (piece # pieces) s = obind (or_panic (visitor s piece)) (deliver visitor pieces)"

lemma deliver_append:
  "deliver visitor (xs @ ys) s = obind (deliver visitor xs s) (deliver visitor ys)"
  by (induction xs arbitrary: s) (auto simp: obind_assoc intro!: obind_cong)

lemma chunks_take_append:
  assumes "0 < n" "n dvd length xs"
  shows "chunks n (take r (xs @ ys)) = chunks n (take r xs) @ chunks n (take (r - length xs) ys)"
proof (cases "length xs \<le> r")
  case True
  with assms show ?thesis
    by (simp add: chunks_append)
qed simp

lemma chunks_take_sector:
  "length xs = 512 \<Longrightarrow> 0 < r \<Longrightarrow> chunks 512 (take r xs) = [take (min r 512) xs]"
  by (cases "r \<le> 512") (auto intro!: chunks_single simp: min_def)

lemma read_sectors_eq:
  assumes "volume_ok fs" "valid_cluster fs c" and "\<And>i. i \<in> set is \<Longrightarrow> i < unat (sectors_per_cluster fs)"
  shows "read_sectors visitor fs c (map of_nat is) r s =
    (let bytes = concat (map (\<lambda>i. dev_sector fs (cluster_lba fs c i)) is)
     in obind (deliver visitor (chunks 512 (take r bytes)) s) (\<lambda>s'. Ok (s', r - length bytes)))"
  using assms(3)
proof (induction "is" arbitrary: s r)
  case Nil
  then show ?case by simp
next
  case (Cons i "is")
  then have "i < unat (sectors_per_cluster fs)"
    by simp
  note addr = cluster_to_sector_Ok [OF assms(1,2) this] cluster_sector_read [OF assms(1,2) this]
  have "r - (min r 512 + k) = r - (512 + k)" "r - min r 512 = r - 512" for k
    by linarith+
  with Cons show ?case
    by (auto simp: addr Let_def SECTOR_SIZE_def chunks_take_append chunks_take_sector deliver_append obind_assoc
        simp del: take_append intro!: obind_cong)
qed

lemma read_cluster_eq:
  assumes "volume_ok fs" "valid_cluster fs c"
  shows "read_sectors visitor fs c (sector_indices fs) r s =
    obind (deliver visitor (chunks 512 (take r (concat (cluster_sectors fs c)))) s)
      (\<lambda>s'. Ok (s', r - length (concat (cluster_sectors fs c))))"
  using read_sectors_eq [OF assms, of "[0..<unat (sectors_per_cluster fs)]" visitor r s]
  by (simp add: sector_indices_def cluster_sectors_def Let_def)

lemma read_clusters_eq:
  assumes "volume_ok fs"
  shows "valid_cluster fs c \<Longrightarrow> 0 < r \<Longrightarrow> read_clusters visitor fs sz n c r s =
    obind (deliver visitor (chunks 512 (take r (chain_bytes fs (fst (chain fs n c))))) s) (\<lambda>s'.
      if r \<le> length (chain_bytes fs (fst (chain fs n c))) then Ok (s', unat sz)
      else Err (s', chain_error (snd (chain fs n c)) TruncatedFile))"
proof (induction n arbitrary: c r s)
  case 0
  then show ?case by (simp add: chain_error_def)
next
  case (Suc n)
  note link = next_cluster_link [OF assms Suc.prems(1)]
  note step = read_cluster_eq [OF assms Suc.prems(1)] chain_Suc obind_assoc
    chunks_take_append [OF _ cluster_dvd [OF assms Suc.prems(1)]] deliver_append
  show ?case
  proof (cases "cluster_link fs c")
    case End_Of_Chain
    with link show ?thesis
      by (auto simp: step chain_error_def intro!: obind_cong)
  next
    case Broken_Link
    with link show ?thesis
      by (auto simp: step chain_error_def intro!: obind_cong)
  next
    case (Link c')
    then have "valid_cluster fs c'"
      by (rule link_valid)
    note IH = Suc.IH [OF this]
    show ?thesis
      using link Link
      by (auto simp: step IH le_diff_conv add.commute simp del: take_append intro!: obind_cong)
  qed
qed

text \<open>Reading the file at an entry, as one pass over the bytes of its chain.\<close>

definition read_entry :: "fat32 \<Rightarrow> dir_entry \<Rightarrow> 's byte_visitor \<Rightarrow> 's \<Rightarrow> ('s, nat) fs_run" where
  "read_entry fs e visitor s =
     (if is_directory e then Err (s, IsDirectory)
      else if de_size e = 0 then Ok (s, 0)
      else if \<not> valid_cluster fs (first_cluster e) then Err (s, InvalidCluster)
      else obind (deliver visitor (chunks 512 (take (unat (de_size e)) (file_bytes fs (first_cluster e)))) s) (\<lambda>s'.
        if unat (de_size e) \<le> length (file_bytes fs (first_cluster e)) then Ok (s', unat (de_size e))
        else Err (s', chain_error (walk_end fs (first_cluster e)) TruncatedFile)))"

lemma read_file_eq:
  assumes "volume_ok fs"
  shows "read_file fs path visitor s =
    obind (map_err (Pair s) (resolve_path fs path)) (\<lambda>e. read_entry fs e visitor s)"
  using assms
  by (auto simp: read_file_def read_entry_def read_clusters_eq file_bytes_def walk_chain_def walk_end_def
      unat_gt_0 simp del: read_clusters.simps intro!: obind_cong)

end
