(* ===== verification/Fat32_Image.thy ===== *)
theory Fat32_Image
  imports Fat32_Files
begin

text \<open>
  A concrete FAT32 volume, on which the witnesses of the FAT32 properties run: one reserved sector,
  one FAT of 512 sectors, 65525 one-sector clusters. The root directory (cluster 2) lists the file
  \<open>HELLO.TXT\<close> (600 bytes in clusters 3 and 4), the directory \<open>LOOP\<close>, whose clusters 5 and 6
  link to each other, and the directory \<open>DOCS\<close> (cluster 7), which lists the empty file
  \<open>A.TXT\<close>.
\<close>

section \<open>The bytes\<close>

definition boot_sector :: "u8 list" where
  "boot_sector =
     [0xeb, 0x58, 0x90, 0x53, 0x4f, 0x4c, 0x20, 0x20, 0x20, 0x20, 0x20, 0x00, 0x02, 1, 1, 0,
      1, 0, 0, 0, 0, 0xf8, 0, 0, 0, 0, 0, 0, 0, 0, 0, 0,
      0xf6, 0x01, 0x01, 0, 0, 0x02, 0, 0, 0, 0, 0, 0, 2, 0, 0, 0] @ replicate 462 0 @ [0x55, 0xaa]"

definition fat_sector :: "u8 list" where
  "fat_sector =
     [0xf8, 0xff, 0xff, 0x0f, 0xff, 0xff, 0xff, 0x0f, 0xff, 0xff, 0xff, 0x0f, 4, 0, 0, 0,
      0xff, 0xff, 0xff, 0x0f, 6, 0, 0, 0, 5, 0, 0, 0, 0xff, 0xff, 0xff, 0x0f] @ replicate 480 0"

definition hello_entry :: "u8 list" where
  "hello_entry = [0x48, 0x45, 0x4c, 0x4c, 0x4f, 0x20, 0x20, 0x20, 0x54, 0x58, 0x54, 0x20,
     0, 0, 0, 0, 0, 0, 0, 0, 0, 0, 0, 0, 0, 0, 3, 0, 0x58, 0x02, 0, 0]"

definition loop_entry :: "u8 list" where
  "loop_entry = [0x4c, 0x4f, 0x4f, 0x50, 0x20, 0x20, 0x20, 0x20, 0x20, 0x20, 0x20, 0x10,
     0, 0, 0, 0, 0, 0, 0, 0, 0, 0, 0, 0, 0, 0, 5, 0, 0, 0, 0, 0]"

definition docs_entry :: "u8 list" where
  "docs_entry = [0x44, 0x4f, 0x43, 0x53, 0x20, 0x20, 0x20, 0x20, 0x20, 0x20, 0x20, 0x10,
     0, 0, 0, 0, 0, 0, 0, 0, 0, 0, 0, 0, 0, 0, 7, 0, 0, 0, 0, 0]"

definition a_entry :: "u8 list" where
  "a_entry = [0x41, 0x20, 0x20, 0x20, 0x20, 0x20, 0x20, 0x20, 0x54, 0x58, 0x54, 0x20,
     0, 0, 0, 0, 0, 0, 0, 0, 0, 0, 0, 0, 0, 0, 0, 0, 0, 0, 0, 0]"

definition demo_disk :: ram_disk where
  "demo_disk = \<lparr>rd_bytes =
     boot_sector @ fat_sector @ replicate 261632 0 @
     (hello_entry @ loop_entry @ docs_entry @ replicate 416 0) @
     replicate 512 0x41 @ replicate 512 0x42 @ replicate 512 0xe5 @ replicate 512 0xe5 @
     (a_entry @ replicate 480 0) @ replicate 33545728 0\<rparr>"

definition demo_fs :: fat32 where
  "demo_fs = \<lparr>device = ram_device demo_disk, sectors_per_cluster = 1, fat_start_sector = 1,
     sectors_per_fat = 512, first_data_sector = 513, root_cluster = 2, cluster_count = 65525\<rparr>"

section \<open>Its sectors\<close>

lemma sector_lengths [simp]:
  "length boot_sector = 512" "length fat_sector = 512" "length hello_entry = 32"
  "length loop_entry = 32" "length docs_entry = 32" "length a_entry = 32"
  by (simp_all add: boot_sector_def fat_sector_def hello_entry_def loop_entry_def docs_entry_def a_entry_def)

lemma demo_disk_ok [simp]: "ram_ok demo_disk"
  by (simp add: ram_ok_def demo_disk_def)

lemma demo_sectors [simp]:
  "dev_sector demo_fs 0 = boot_sector"
  "dev_sector demo_fs (Suc 0) = fat_sector"
  "dev_sector demo_fs 513 = hello_entry @ loop_entry @ docs_entry @ replicate 416 0"
  "dev_sector demo_fs 514 = replicate 512 0x41"
  "dev_sector demo_fs 515 = replicate 512 0x42"
  "dev_sector demo_fs 516 = replicate 512 0xe5"
  "dev_sector demo_fs 517 = replicate 512 0xe5"
  "dev_sector demo_fs 518 = a_entry @ replicate 480 0"
  by (simp_all add: dev_sector_def demo_fs_def ram_device_def ram_read_sector_eq SECTOR_SIZE_def demo_disk_def)

lemma demo_mount: "mount (ram_device demo_disk) = Ok demo_fs"
proof -
  have sector: "ram_read_sector demo_disk 0 = Ok boot_sector"
    by (simp add: ram_read_sector_eq SECTOR_SIZE_def demo_disk_def)
  have count: "ram_sector_count demo_disk = 66038"
    by (simp add: ram_sector_count_def SECTOR_SIZE_def demo_disk_def)
  have fields: "boot_sector ! 510 = 0x55" "boot_sector ! 511 = 0xaa" "le16_at boot_sector 11 = 512"
    "boot_sector ! 13 = 1" "le16_at boot_sector 14 = 1" "boot_sector ! 16 = 1" "le16_at boot_sector 17 = 0"
    "le16_at boot_sector 19 = 0" "le16_at boot_sector 22 = 0" "le32_at boot_sector 32 = 66038"
    "le32_at boot_sector 36 = 512" "le32_at boot_sector 44 = 2"
    by (simp_all add: boot_sector_def le16_at_def le32_at_def nth_append)
  show ?thesis
    by (simp add: mount_def ram_device_def sector count fields SECTOR_SIZE_def Let_def is_power_of_two_def
        checked_mul_def checked_add_def sub_ov_def add_ov_def mul_ov_def checked_sub_def demo_fs_def)
qed

lemma demo_volume_ok [simp]: "volume_ok demo_fs"
  using ram.mount_ok [OF demo_disk_ok demo_mount] by simp

section \<open>Its chains and directories\<close>

lemma demo_geometry [simp]:
  "sectors_per_cluster demo_fs = 1" "fat_start_sector demo_fs = 1" "sectors_per_fat demo_fs = 512"
  "first_data_sector demo_fs = 513" "root_cluster demo_fs = 2" "cluster_count demo_fs = 65525"
  "device demo_fs = ram_device demo_disk"
  by (simp_all add: demo_fs_def)

lemma demo_valid [simp]: "valid_cluster demo_fs c \<longleftrightarrow> 2 \<le> unat c \<and> unat c < 65527"
  by (simp add: valid_cluster_def)

lemma demo_links [simp]:
  "cluster_link demo_fs 2 = End_Of_Chain" "cluster_link demo_fs 3 = Link 4"
  "cluster_link demo_fs 4 = End_Of_Chain" "cluster_link demo_fs 5 = Link 6"
  "cluster_link demo_fs 6 = Link 5" "cluster_link demo_fs 7 = End_Of_Chain"
  by (simp_all add: cluster_link_def fat_value_def fat_sector_def le32_at_def FAT32_EOC_def
      FAT32_BAD_CLUSTER_def)

lemma chain_numeral:
  "fst (chain fs (numeral k) c) =
     c # (case cluster_link fs c of Link c' \<Rightarrow> fst (chain fs (pred_numeral k) c') | _ \<Rightarrow> [])"
  "snd (chain fs (numeral k) c) =
     (case cluster_link fs c of
        Link c' \<Rightarrow> snd (chain fs (pred_numeral k) c') | End_Of_Chain \<Rightarrow> Complete | Broken_Link \<Rightarrow> Broken)"
  by (simp_all add: numeral_eq_Suc chain_Suc)

lemma demo_chains [simp]:
  "walk_chain demo_fs 2 = [2]" "walk_end demo_fs 2 = Complete"
  "walk_chain demo_fs 3 = [3, 4]" "walk_end demo_fs 3 = Complete"
  "walk_chain demo_fs 7 = [7]" "walk_end demo_fs 7 = Complete"
  by (simp_all add: walk_chain_def walk_end_def chain_numeral chain_Suc)

lemma demo_cluster_bytes [simp]:
  "concat (cluster_sectors demo_fs 2) = hello_entry @ loop_entry @ docs_entry @ replicate 416 0"
  "concat (cluster_sectors demo_fs 3) = replicate 512 0x41"
  "concat (cluster_sectors demo_fs 4) = replicate 512 0x42"
  "concat (cluster_sectors demo_fs 5) = replicate 512 0xe5"
  "concat (cluster_sectors demo_fs 6) = replicate 512 0xe5"
  "concat (cluster_sectors demo_fs 7) = a_entry @ replicate 480 0"
  by (simp_all add: cluster_sectors_def cluster_lba_def)

lemma demo_file [simp]: "file_bytes demo_fs 3 = replicate 512 0x41 @ replicate 512 0x42"
  by (simp add: file_bytes_def)

lemma dir_entries_Cons:
  "dir_entries (raw # slots) =
     (if slot_last raw then [] else if slot_skipped raw then dir_entries slots
      else raw_entry raw # dir_entries slots)"
  by (simp add: dir_entries_def)

lemma chunks_exact_32:
  "length x = 32 \<Longrightarrow> chunks_exact 32 (x @ xs) = x # chunks_exact 32 xs"
  "chunks_exact 32 (replicate 416 0) = replicate 32 0 # chunks_exact 32 (replicate 384 (0 :: u8))"
  "chunks_exact 32 (replicate 480 0) = replicate 32 0 # chunks_exact 32 (replicate 448 (0 :: u8))"
  by (simp_all add: chunks_exact.simps [of _ "x @ xs"] chunks_exact.simps [of _ "replicate 416 0"]
      chunks_exact.simps [of _ "replicate 480 0"])

lemma demo_slots:
  "slot_last (replicate 32 0)" "\<not> slot_last hello_entry" "\<not> slot_last loop_entry"
  "\<not> slot_last docs_entry" "\<not> slot_last a_entry" "\<not> slot_skipped hello_entry"
  "\<not> slot_skipped loop_entry" "\<not> slot_skipped docs_entry" "\<not> slot_skipped a_entry"
  by (simp_all add: slot_last_def slot_skipped_def hello_entry_def loop_entry_def docs_entry_def a_entry_def
      ATTR_LONG_FILE_NAME_def ATTR_VOLUME_ID_def raw_named_def raw_name_def raw_base_def raw_suffix_def
      name_field_def is_ascii_def)

lemma demo_dirs [simp]:
  "dir_list demo_fs 2 = [raw_entry hello_entry, raw_entry loop_entry, raw_entry docs_entry]"
  "dir_list demo_fs 7 = [raw_entry a_entry]"
  by (simp_all add: dir_list_def chain_slots_def chunks_exact_32 dir_entries_Cons demo_slots)

lemma demo_entries [simp]:
  "entry_label (raw_entry hello_entry) = [0x48, 0x45, 0x4c, 0x4c, 0x4f, 0x2e, 0x54, 0x58, 0x54]"
  "entry_label (raw_entry loop_entry) = [0x4c, 0x4f, 0x4f, 0x50]"
  "entry_label (raw_entry docs_entry) = [0x44, 0x4f, 0x43, 0x53]"
  "entry_label (raw_entry a_entry) = [0x41, 0x2e, 0x54, 0x58, 0x54]"
  "first_cluster (raw_entry hello_entry) = 3" "first_cluster (raw_entry loop_entry) = 5"
  "first_cluster (raw_entry docs_entry) = 7" "first_cluster (raw_entry a_entry) = 0"
  "de_size (raw_entry hello_entry) = 600" "de_size (raw_entry a_entry) = 0"
  "de_size (raw_entry loop_entry) = 0" "de_size (raw_entry docs_entry) = 0"
  "\<not> is_directory (raw_entry hello_entry)" "is_directory (raw_entry loop_entry)"
  "is_directory (raw_entry docs_entry)" "\<not> is_directory (raw_entry a_entry)"
  by (simp_all add: entry_label_def raw_entry_def hello_entry_def loop_entry_def docs_entry_def a_entry_def
      raw_name_def raw_base_def raw_suffix_def name_field_def le16_at_def le32_at_def is_directory_def
      ATTR_DIRECTORY_def)

text \<open>Both clusters of \<open>LOOP\<close> are full of deleted slots, so no slot of the walk ends it.\<close>

lemma loop_chain_set: "c \<in> {5, 6} \<Longrightarrow> set (fst (chain demo_fs n c)) \<subseteq> {5, 6}"
  by (induction n arbitrary: c) (fastforce simp: chain_Suc)+

lemma demo_loop_slots: "\<not> list_ex slot_last (chain_slots demo_fs (walk_chain demo_fs 5))"
proof -
  have bytes: "set (chain_bytes demo_fs cs) \<subseteq> {0xe5}" if "set cs \<subseteq> {5, 6}" for cs
    using that by (induction cs) (auto simp del: set_concat simp: set_replicate_conv_if)
  have "set raw \<subseteq> set (chain_bytes demo_fs cs)" if "raw \<in> set (chain_slots demo_fs cs)" for raw cs
    using that chunks_exact_subset by (fastforce simp: chain_slots_def)
  then have "set raw \<subseteq> {0xe5} \<and> length raw = 32" if "raw \<in> set (chain_slots demo_fs (walk_chain demo_fs 5))" for raw
    using that bytes loop_chain_set [of 5] chain_slots_length unfolding walk_chain_def by blast
  then have "raw ! 0 = 0xe5" if "raw \<in> set (chain_slots demo_fs (walk_chain demo_fs 5))" for raw
    using that nth_mem [of 0 raw] by fastforce
  then show ?thesis
    by (fastforce simp: list_ex_iff slot_last_def)
qed

end
