(* ===== verification/Fat32_Correct.thy ===== *)
theory Fat32_Correct
  imports Fat32_Image
begin

text \<open>
  The properties of the FAT32 reader: what mounting accepts, that the addresses it computes stay
  inside the volume, that walks end and report a loop exactly when there is one, and that path
  resolution, directory listing and file reading return what the volume holds.
\<close>

section \<open>Loops\<close>

lemma reachable_in_chain:
  assumes "(fat_step fs)\<^sup>*\<^sup>* c x" "chain fs n c = (cs, e)" "e \<noteq> Cut"
  shows "x \<in> set cs"
  using assms
proof (induction arbitrary: n cs rule: converse_rtranclp_induct)
  case base
  then show ?case
    by (cases n) (auto simp: chain.simps split: chain_link.splits prod.splits)
next
  case (step c c')
  then show ?case
    by (cases n) (auto simp: chain.simps fat_step_def split: chain_link.splits prod.splits)
qed

lemma cyclic_chain_Cut:
  assumes "(fat_step fs)\<^sup>*\<^sup>* c x" "(fat_step fs)\<^sup>+\<^sup>+ x x"
  shows "snd (chain fs n c) = Cut"
proof (rule ccontr)
  assume no_cut: "snd (chain fs n c) \<noteq> Cut"
  obtain cs e where chain: "chain fs n c = (cs, e)"
    by fastforce
  with no_cut assms(1) have "x \<in> set cs"
    by (auto intro: reachable_in_chain)
  then obtain i where i: "i < length cs" "cs ! i = x"
    by (auto simp: in_set_conv_nth)
  then obtain m where m: "chain fs m x = (drop i cs, e)"
    using chain_suffix [OF chain] by blast
  obtain y where y: "fat_step fs x y" "(fat_step fs)\<^sup>*\<^sup>* y x"
    using assms(2) by (meson tranclpD)
  obtain k where k: "m = Suc k"
    using m i by (cases m) auto
  with m y(1) have "drop i cs = x # fst (chain fs k y)" "snd (chain fs k y) = e"
    by (auto simp: chain.simps fat_step_def split: prod.splits)
  moreover from this no_cut chain y(2) have "x \<in> set (fst (chain fs k y))"
    by (metis prod.collapse reachable_in_chain snd_conv)
  moreover have "distinct (drop i cs)"
    using chain_distinct [OF chain] no_cut chain by simp
  ultimately show False by simp
qed

definition cyclic_from :: "fat32 \<Rightarrow> u32 \<Rightarrow> bool" where
  "cyclic_from fs c \<longleftrightarrow> (\<exists>x. (fat_step fs)\<^sup>*\<^sup>* c x \<and> (fat_step fs)\<^sup>+\<^sup>+ x x)"

lemma walk_end_Cut_iff: "valid_cluster fs c \<Longrightarrow> walk_end fs c = Cut \<longleftrightarrow> cyclic_from fs c"
  unfolding cyclic_from_def walk_end_def
  using chain_Cut_cyclic [of fs c "walk_chain fs c"] cyclic_chain_Cut
  by (metis prod.collapse walk_chain_def)

section \<open>Visitors\<close>

definition total_visitor :: "('s \<Rightarrow> 'a \<Rightarrow> 'r option) \<Rightarrow> bool" where
  "total_visitor visitor \<longleftrightarrow> (\<forall>s x. visitor s x \<noteq> None)"

lemma run_visitor_total:
  "total_visitor visitor \<Longrightarrow> \<exists>s' d. run_visitor visitor es s = Ok (s', d)"
proof (induction es arbitrary: s)
  case Nil
  then show ?case by auto
next
  case (Cons e es)
  then obtain r where "visitor s e = Some r"
    by (meson not_None_eq total_visitor_def)
  with Cons show ?case
    by (cases r) auto
qed

lemma deliver_total: "total_visitor visitor \<Longrightarrow> \<exists>s'. deliver visitor ps s = Ok s'"
proof (induction ps arbitrary: s)
  case Nil
  then show ?case by simp
next
  case (Cons p ps)
  then obtain r where "visitor s p = Some r"
    by (meson not_None_eq total_visitor_def)
  with Cons show ?case by simp
qed

text \<open>Visitors that record what they are given.\<close>

definition collect_entry :: "dir_entry list dir_visitor" where
  "collect_entry = (\<lambda>es e. Some (es @ [e], True))"

definition collect_piece :: "u8 list list byte_visitor" where
  "collect_piece = (\<lambda>ps p. Some (ps @ [p]))"

lemma run_collect_entry: "run_visitor collect_entry es acc = Ok (acc @ es, False)"
  by (induction es arbitrary: acc) (simp_all add: collect_entry_def)

lemma deliver_collect_piece: "deliver collect_piece ps acc = Ok (acc @ ps)"
  by (induction ps arbitrary: acc) (simp_all add: collect_piece_def)

lemma read_entry_collect:
  "read_entry fs e collect_piece [] = Ok (pieces, n) \<longleftrightarrow>
     \<not> is_directory e \<and> n = unat (de_size e) \<and>
       (if de_size e = 0 then pieces = []
        else valid_cluster fs (first_cluster e) \<and> n \<le> length (file_bytes fs (first_cluster e)) \<and>
          pieces = chunks 512 (take n (file_bytes fs (first_cluster e))) \<and>
          concat pieces = take n (file_bytes fs (first_cluster e)))"
  by (cases "is_directory e"; cases "de_size e = 0"; cases "valid_cluster fs (first_cluster e)";
      cases "unat (de_size e) \<le> length (file_bytes fs (first_cluster e))")
    (auto simp: read_entry_def deliver_collect_piece concat_chunks)

section \<open>Errors\<close>

definition volume_error :: "fs_error \<Rightarrow> bool" where
  "volume_error e \<longleftrightarrow> (\<forall>d. e \<noteq> Device d) \<and> e \<noteq> InvalidBootSector \<and> e \<noteq> UnsupportedVolume"

definition run_safe :: "(fs_error, 'a) outcome \<Rightarrow> bool" where
  "run_safe r \<longleftrightarrow> (case r of Ok _ \<Rightarrow> True | Err e \<Rightarrow> volume_error e | Panic \<Rightarrow> False)"

lemma run_safe_simps [simp]: "run_safe (Ok x)" "run_safe (Err e) \<longleftrightarrow> volume_error e" "\<not> run_safe Panic"
  by (simp_all add: run_safe_def)

lemma run_safe_obind:
  "run_safe m \<Longrightarrow> (\<And>x. m = Ok x \<Longrightarrow> run_safe (f x)) \<Longrightarrow> run_safe (obind m f)"
  by (cases m) auto

lemma volume_error_simps [simp]:
  "volume_error InvalidCluster" "volume_error CorruptFat" "volume_error DirectoryLoop"
  "volume_error NotFound" "volume_error NotDirectory" "volume_error IsDirectory" "volume_error TruncatedFile"
  by (simp_all add: volume_error_def)

lemma chain_error_safe [simp]: "volume_error e \<Longrightarrow> volume_error (chain_error k e)"
  by (cases k) (simp_all add: chain_error_def)

lemma find_in_directory_safe: "volume_ok fs \<Longrightarrow> run_safe (find_in_directory fs c nm)"
  by (simp add: find_in_directory_eq split: option.split)

lemma resolve_components_safe: "volume_ok fs \<Longrightarrow> run_safe (resolve_components fs c nm rest)"
proof (induction rest arbitrary: c nm)
  case Nil
  then show ?case
    by (auto simp: resolve_components.simps intro!: run_safe_obind find_in_directory_safe)
next
  case (Cons nm' rest)
  then show ?case
    by (subst resolve_components.simps) (auto intro!: run_safe_obind find_in_directory_safe)
qed

lemma resolve_path_safe: "volume_ok fs \<Longrightarrow> run_safe (resolve_path fs path)"
  by (simp add: resolve_path_def resolve_components_safe split: list.split)

text \<open>The same for an operation that drives a visitor, and returns its state in every case.\<close>

lemma run_safe_state:
  "run_safe r \<Longrightarrow> run_safe (map_err snd (map_err (Pair s) r))"
  by (cases r) auto

lemma visit_directory_safe:
  assumes "volume_ok fs" "total_visitor visitor"
  shows "run_safe (map_err snd (visit_directory visitor fs c s))"
  using run_visitor_total [OF assms(2), of "dir_list fs c" s]
  by (auto simp: visit_directory_list [OF assms(1)])

lemma list_dir_safe:
  assumes "volume_ok fs" "total_visitor visitor"
  shows "run_safe (map_err snd (list_dir fs path visitor s))"
  using resolve_path_safe [OF assms(1), of path] visit_directory_safe [OF assms]
  by (cases "resolve_path fs path") (auto simp: list_dir_def)

lemma read_file_safe:
  fixes visitor :: "'s byte_visitor"
  assumes "volume_ok fs" "total_visitor visitor"
  shows "run_safe (map_err snd (read_file fs path visitor s))"
proof (cases "resolve_path fs path")
  case (Ok e)
  obtain s' where
    "deliver visitor (chunks 512 (take (unat (de_size e)) (file_bytes fs (first_cluster e)))) s
      = (Ok s' :: ('s \<times> fs_error, 's) outcome)"
    using deliver_total [OF assms(2)] by blast
  with Ok show ?thesis
    by (simp add: read_file_eq [OF assms(1)] read_entry_def)
qed (use resolve_path_safe [OF assms(1), of path] in \<open>auto simp: read_file_eq [OF assms(1)]\<close>)

section \<open>What mounting accepts\<close>

text \<open>The requirements on a boot sector, over unbounded arithmetic.\<close>

definition boot_accepted :: "u8 list \<Rightarrow> nat \<Rightarrow> bool" where
  "boot_accepted b sectors \<longleftrightarrow>
     (let spc = unat (b ! 13); reserved = unat (le16_at b 14); fats = unat (b ! 16);
          spf = unat (le32_at b 36); root = unat (le32_at b 44);
          total = (if le16_at b 19 \<noteq> 0 then unat (le16_at b 19) else unat (le32_at b 32));
          data = reserved + fats * spf; clusters = (total - data) div spc
      in b ! 510 = 0x55 \<and> b ! 511 = 0xaa \<and> le16_at b 11 = 512 \<and> spc \<in> {1, 2, 4, 8, 16, 32, 64, 128} \<and>
         0 < reserved \<and> 0 < fats \<and> 0 < spf \<and> le16_at b 17 = 0 \<and> le16_at b 22 = 0 \<and>
         data < total \<and> total \<le> sectors \<and> 65525 \<le> clusters \<and>
         2 \<le> root \<and> root < clusters + 2 \<and> root < 128 * spf)"

lemma power_of_two_u8:
  "is_power_of_two (ucast (b :: u8) :: u32) \<longleftrightarrow> unat b \<in> {1, 2, 4, 8, 16, 32, 64, 128}"
proof
  assume "is_power_of_two (ucast b :: u32)"
  then obtain k where k: "unat b = 2 ^ k"
    by (auto simp: is_power_of_two_iff)
  then have "(2 :: nat) ^ k < 2 ^ 8"
    using unat_bounds(1) [of b] by simp
  then have "k < 8"
    by (rule power_less_imp_less_exp [rotated]) simp
  then have "k \<in> {0, 1, 2, 3, 4, 5, 6, 7}"
    by auto
  with k show "unat b \<in> {1, 2, 4, 8, 16, 32, 64, 128}"
    by auto
next
  assume "unat b \<in> {1, 2, 4, 8, 16, 32, 64, 128}"
  then have "unat b \<in> {2 ^ 0, 2 ^ 1, 2 ^ 2, 2 ^ 3, 2 ^ 4, 2 ^ 5, 2 ^ 6, 2 ^ 7}"
    by simp
  then show "is_power_of_two (ucast b :: u32)"
    unfolding is_power_of_two_iff unat_ucast_widen by blast
qed

text \<open>The geometry checks, on the words of the boot sector and on their values.\<close>

lemma geometry_accepted:
  fixes total spc reserved fatc spf root :: u32 and sectors :: u64
  assumes nz: "reserved \<noteq> 0" "fatc \<noteq> 0" "spf \<noteq> 0" "spc \<noteq> 0"
  shows "(\<exists>x. checked_mul fatc spf = Some x \<and> (\<exists>fds. checked_add reserved x = Some fds \<and>
      \<not> total \<le> fds \<and> \<not> sectors < ucast total \<and> \<not> (total - fds) div spc < 65525 \<and>
      \<not> (total - fds) div spc + 2 \<le> root \<and> \<not> (ucast spf :: u64) * 512 div 4 \<le> ucast root)) \<longleftrightarrow>
    (let data = unat reserved + unat fatc * unat spf; clusters = (unat total - data) div unat spc
     in data < unat total \<and> unat total \<le> unat sectors \<and> 65525 \<le> clusters \<and>
        unat root < clusters + 2 \<and> unat root < 128 * unat spf)" (is "?words \<longleftrightarrow> ?nats")
proof -
  let ?data = "unat reserved + unat fatc * unat spf"
  have eq: "(\<not> total \<le> fds \<and> \<not> sectors < ucast total \<and> \<not> (total - fds) div spc < 65525 \<and>
      \<not> (total - fds) div spc + 2 \<le> root \<and> \<not> (ucast spf :: u64) * 512 div 4 \<le> ucast root) \<longleftrightarrow> ?nats"
    if fds: "checked_mul fatc spf = Some x" "checked_add reserved x = Some fds" for x fds
  proof (cases "total \<le> fds")
    case True
    with fds show ?thesis
      by (simp add: rust_simps word_le_nat_alt Let_def)
  next
    case False
    have data: "unat fds = ?data"
      using fds by (simp add: rust_simps)
    have sub: "unat (total - fds) = unat total - ?data"
      using False by (simp add: unat_sub word_le_nat_alt data)
    have "unat ((total - fds) div spc + 2) = (unat total - ?data) div unat spc + 2"
      using limit [OF fds nz False] by (simp add: ov_Ok_iff unat_div sub)
    moreover have "unat ((ucast spf :: u64) * 512) div 4 = 128 * unat spf"
      using unat_fat_entries [of spf] by (simp add: unat_div)
    ultimately show ?thesis
      using False by (auto simp: word_less_nat_alt word_le_nat_alt unat_div sub data Let_def)
  qed
  have small: "\<exists>x fds. checked_mul fatc spf = Some x \<and> checked_add reserved x = Some fds" if ?nats
  proof -
    have "?data < 2 ^ 32"
      using that unat_bounds(3) [of total] by (auto simp: Let_def)
    then have "unat fatc * unat spf < 2 ^ 32" "?data < 2 ^ 32"
      by linarith+
    then show ?thesis
      by (simp add: checked_mul_def checked_add_def unat_word_ariths)
  qed
  show ?thesis
    using eq small by blast
qed

definition fields_accepted :: "u8 list \<Rightarrow> bool" where
  "fields_accepted b \<longleftrightarrow> b ! 510 = 0x55 \<and> b ! 511 = 0xaa \<and> le16_at b 11 = 512 \<and>
     (ucast (b ! 13) :: u32) \<noteq> 0 \<and> is_power_of_two (ucast (b ! 13) :: u32) \<and> (ucast (le16_at b 14) :: u32) \<noteq> 0 \<and>
     (ucast (b ! 16) :: u32) \<noteq> 0 \<and> (ucast (le16_at b 22) :: u32) = 0 \<and> le32_at b 36 \<noteq> 0 \<and> le16_at b 17 = 0 \<and> \<not> le32_at b 44 < 2"

lemma ucast_zero_iff:
  "(ucast (x :: u16) :: u32) = 0 \<longleftrightarrow> unat x = 0" "(ucast (y :: u8) :: u32) = 0 \<longleftrightarrow> unat y = 0"
  using unat_eq_zero [of "ucast x :: u32"] unat_eq_zero [of "ucast y :: u32"] by (simp_all del: unat_eq_zero)

lemma mount_rejects_fields:
  assumes "length b = 512" "read_sector dev 0 = Ok b" "\<not> fields_accepted b"
  shows "\<not> (\<exists>fs. mount dev = Ok fs)" "\<not> boot_accepted b n"
proof -
  have "mount dev = Err InvalidBootSector \<or> mount dev = Err UnsupportedVolume"
    using assms by (auto simp: fields_accepted_def mount_def Let_def SECTOR_SIZE_def)
  then show "\<not> (\<exists>fs. mount dev = Ok fs)" by auto
  show "\<not> boot_accepted b n"
    using assms(3) power_of_two_u8 [of "b ! 13"]
    by (auto simp: fields_accepted_def boot_accepted_def Let_def ucast_zero_iff unat_eq_zero word_less_nat_alt)
qed

lemma mount_with_fields:
  fixes total :: u32
  assumes "length b = 512" "read_sector dev 0 = Ok b" "fields_accepted b"
  defines "spc \<equiv> ucast (b ! 13) :: u32" and "reserved \<equiv> ucast (le16_at b 14) :: u32"
    and "fatc \<equiv> ucast (b ! 16) :: u32" and "spf \<equiv> le32_at b 36" and "root \<equiv> le32_at b 44"
    and "total \<equiv> if (ucast (le16_at b 19) :: u32) \<noteq> 0 then ucast (le16_at b 19) else le32_at b 32"
  shows "(\<exists>fs. mount dev = Ok fs) \<longleftrightarrow>
    (\<exists>x. checked_mul fatc spf = Some x \<and> (\<exists>fds. checked_add reserved x = Some fds \<and>
      \<not> total \<le> fds \<and> \<not> sector_count dev < ucast total \<and> \<not> (total - fds) div spc < 65525 \<and>
      \<not> (total - fds) div spc + 2 \<le> root \<and> \<not> (ucast spf :: u64) * 512 div 4 \<le> ucast root))"
proof -
  have nz: "reserved \<noteq> 0" "fatc \<noteq> 0" "spf \<noteq> 0" "spc \<noteq> 0"
    using assms(3) unfolding fields_accepted_def assms(4-7) by blast+
  have mount: "mount dev =
    obind (ok_or (checked_mul fatc spf) InvalidBootSector) (\<lambda>fat_sectors.
    obind (ok_or (checked_add reserved fat_sectors) InvalidBootSector) (\<lambda>fds.
    if total \<le> fds \<or> (ucast total :: u64) > sector_count dev then Err InvalidBootSector else
    obind (sub_ov total fds) (\<lambda>data_sectors.
    obind (if data_sectors div spc < 65525 then Ok True
           else obind (add_ov (data_sectors div spc) 2) (\<lambda>limit. Ok (root \<ge> limit))) (\<lambda>unsupported.
    if unsupported then Err UnsupportedVolume else
    if (ucast root :: u64) \<ge> ucast spf * 512 div 4 then Err InvalidBootSector else
    Ok \<lparr>device = dev, sectors_per_cluster = spc, fat_start_sector = reserved, sectors_per_fat = spf,
        first_data_sector = fds, root_cluster = root, cluster_count = data_sectors div spc\<rparr>))))"
    using assms(1-3) unfolding assms(4-9) fields_accepted_def
    by (simp add: mount_def Let_def SECTOR_SIZE_def fat_bytes_Ok cong: if_cong)
  show ?thesis
  proof (cases "\<exists>x fds. checked_mul fatc spf = Some x \<and> checked_add reserved x = Some fds \<and> \<not> total \<le> fds")
    case True
    then obtain x fds where fds: "checked_mul fatc spf = Some x" "checked_add reserved x = Some fds" "\<not> total \<le> fds"
      by blast
    from fds show ?thesis
      by (simp add: mount mount_geometry(1,2) [OF fds(1,2) nz fds(3)])
  next
    case False
    then show ?thesis
      by (cases "checked_mul fatc spf"; cases "checked_add reserved (the (checked_mul fatc spf))") (auto simp: mount)
  qed
qed

lemma mount_accepts_sector:
  assumes "lawful_device dev" "read_sector dev 0 = Ok b"
  shows "(\<exists>fs. mount dev = Ok fs) \<longleftrightarrow> boot_accepted b (unat (sector_count dev))"
proof (cases "fields_accepted b")
  case False
  then show ?thesis
    using mount_rejects_fields [OF lawful_length [OF assms] assms(2)] by blast
next
  case True
  define total :: u32 where "total = (if (ucast (le16_at b 19) :: u32) \<noteq> 0 then ucast (le16_at b 19) else le32_at b 32)"
  have nz: "(ucast (le16_at b 14) :: u32) \<noteq> 0" "(ucast (b ! 16) :: u32) \<noteq> 0" "le32_at b 36 \<noteq> 0" "(ucast (b ! 13) :: u32) \<noteq> 0"
    using True unfolding fields_accepted_def by blast+
  have total: "(if le16_at b 19 \<noteq> 0 then unat (le16_at b 19) else unat (le32_at b 32)) = unat total"
    by (auto simp: total_def ucast_zero_iff unat_eq_zero)
  have "0 < unat (le16_at b 14)" "0 < unat (b ! 16)" "0 < unat (le32_at b 36)" "le16_at b 22 = 0" "2 \<le> unat (le32_at b 44)"
    using True by (auto simp: fields_accepted_def ucast_zero_iff unat_gt_0 unat_eq_zero word_less_nat_alt)
  with True power_of_two_u8 [of "b ! 13"] show ?thesis
    unfolding mount_with_fields [OF lawful_length [OF assms] assms(2) True, folded total_def] geometry_accepted [OF nz]
      boot_accepted_def total by (simp add: fields_accepted_def Let_def)
qed

section \<open>The directory at a path\<close>

definition dir_at :: "fat32 \<Rightarrow> u8 list \<Rightarrow> u32 \<Rightarrow> bool" where
  "dir_at fs path c \<longleftrightarrow>
     (if path_components path = [] then c = root_cluster fs
      else \<exists>e. resolves fs (root_cluster fs) (path_components path) e \<and> is_directory e \<and> c = first_cluster e)"

lemma visit_collect:
  assumes "volume_ok fs"
  shows "visit_directory collect_entry fs c [] =
    (if valid_cluster fs c then
       if dir_closed fs c then Ok (dir_list fs c, ())
       else Err (dir_list fs c, chain_error (walk_end fs c) CorruptFat)
     else Err ([], InvalidCluster))"
  by (simp add: visit_directory_list [OF assms] run_collect_entry)

lemma list_dir_Ok_iff:
  assumes "volume_ok fs"
  shows "list_dir fs path visitor s = Ok r \<longleftrightarrow>
    (\<exists>c. dir_at fs path c \<and> visit_directory visitor fs c s = Ok r)"
  using resolve_path_resolves [OF assms, of path]
  by (auto simp: list_dir_def dir_at_def trim_matches_empty path_components_empty obind_Ok_iff split: if_splits)

lemma path_components_join:
  "list_all (\<lambda>c. c \<noteq> [] \<and> 0x2f \<notin> set c) cs \<Longrightarrow>
   path_components (concat (map (\<lambda>c. 0x2f # c) cs)) = cs"
proof (induction cs rule: rev_induct)
  case Nil
  then show ?case by (simp add: path_components_def)
next
  case (snoc c cs)
  then show ?case
    by (simp add: path_components_append path_components_free)
qed

lemma lower_slash: "to_ascii_lowercase b = 0x2f \<longleftrightarrow> b = 0x2f"
  and lower_dot: "to_ascii_lowercase b = 0x2e \<longleftrightarrow> b = 0x2e"
  and lower_idem [simp]: "to_ascii_lowercase (to_ascii_lowercase b) = to_ascii_lowercase b"
proof -
  have "unat (b + 0x20) = unat b + 32" if "0x41 \<le> b" "b \<le> 0x5a"
    using that by (simp add: word_le_nat_alt unat_word_ariths)
  then show "to_ascii_lowercase b = 0x2f \<longleftrightarrow> b = 0x2f" "to_ascii_lowercase b = 0x2e \<longleftrightarrow> b = 0x2e"
    "to_ascii_lowercase (to_ascii_lowercase b) = to_ascii_lowercase b"
    by (auto simp: to_ascii_lowercase_def word_le_nat_alt word_unat_eq_iff)
qed

lemma split_on_lower:
  "split_on 0x2f (map to_ascii_lowercase path) = map (map to_ascii_lowercase) (split_on 0x2f path)"
  by (induction path) (auto simp: lower_slash split: list.splits)

lemma path_components_lower:
  "path_components (map to_ascii_lowercase path) = map (map to_ascii_lowercase) (path_components path)"
  by (simp add: path_components_def split_on_lower filter_map comp_def)

lemma is_dot_lower: "is_dot_component (map to_ascii_lowercase c) \<longleftrightarrow> is_dot_component c"
  by (auto simp: is_dot_component_def map_eq_Cons_conv lower_dot)

lemma find_in_directory_lower:
  "find_in_directory fs c (map to_ascii_lowercase nm) = find_in_directory fs c nm"
proof -
  have "eq_ignore_ascii_case en (map to_ascii_lowercase nm) = eq_ignore_ascii_case en nm" for en
    by (simp add: eq_ignore_ascii_case_def comp_def)
  then have "find_visitor (map to_ascii_lowercase nm) = find_visitor nm"
    by (simp only: find_visitor_def)
  then show ?thesis
    by (simp add: find_in_directory_def)
qed

lemma resolve_components_lower:
  "resolve_components fs c (map to_ascii_lowercase nm) (map (map to_ascii_lowercase) rest) =
   resolve_components fs c nm rest"
proof (induction rest arbitrary: c nm)
  case Nil
  then show ?case by (simp add: resolve_components.simps find_in_directory_lower)
next
  case (Cons nm' rest)
  then show ?case
    by (simp add: resolve_components.simps [of _ _ _ "_ # _"] find_in_directory_lower is_dot_lower
        cong: if_cong)
qed

section \<open>Properties\<close>

text \<open>
  C15. Mounting a RAM disk never panics. It succeeds exactly when the disk has a first sector whose
  fields, computed without overflow, describe a FAT32 volume that fits on the disk; and then the
  mounted volume is well formed: its FAT lies before its data area, its data area on the disk, and
  the root directory is one of its clusters and has a FAT entry.
\<close>

theorem mount_accepts:
  assumes "ram_ok d"
  shows "mount (ram_device d) \<noteq> Panic \<and>
    ((\<exists>fs. mount (ram_device d) = Ok fs) \<longleftrightarrow>
       512 \<le> length (rd_bytes d) \<and> boot_accepted (take 512 (rd_bytes d)) (length (rd_bytes d) div 512)) \<and>
    (\<forall>fs. mount (ram_device d) = Ok fs \<longrightarrow> wf_fat32 fs \<and> device fs = ram_device d)"
proof -
  have count: "unat (sector_count (ram_device d)) = length (rd_bytes d) div 512"
    using unat_ram_sector_count [OF assms] by (simp add: ram_device_def SECTOR_SIZE_def)
  have read: "read_sector (ram_device d) 0 =
    (if 512 \<le> length (rd_bytes d) then Ok (take 512 (rd_bytes d)) else Err SectorOutOfRange)"
    by (simp add: ram_device_def ram_read_sector_eq SECTOR_SIZE_def)
  have "(\<exists>fs. mount (ram_device d) = Ok fs) \<longleftrightarrow>
       512 \<le> length (rd_bytes d) \<and> boot_accepted (take 512 (rd_bytes d)) (length (rd_bytes d) div 512)"
  proof (cases "512 \<le> length (rd_bytes d)")
    case True
    with mount_accepts_sector [OF ram.dev_lawful [OF assms], of "take 512 (rd_bytes d)"] show ?thesis
      by (simp add: read count)
  next
    case False
    then show ?thesis
      by (simp add: mount_def read)
  qed
  with ram.mount_total [OF assms] ram.mount_ok [OF assms] show ?thesis
    by (auto simp: volume_ok_def)
qed

text \<open>Witness of C15: the demonstration disk.\<close>

theorem mount_accepts_witness:
  "ram_ok demo_disk \<and> mount (ram_device demo_disk) = Ok demo_fs \<and>
   boot_accepted (take 512 (rd_bytes demo_disk)) 66038"
proof -
  have len: "length (rd_bytes demo_disk) = 33811456"
    by (simp add: demo_disk_def)
  have "boot_accepted (take 512 (rd_bytes demo_disk)) (length (rd_bytes demo_disk) div 512)"
    using mount_accepts [OF demo_disk_ok] demo_mount by blast
  then show ?thesis
    by (simp add: len demo_mount)
qed

text \<open>
  C27. On a mounted volume every sector of every valid cluster has an address, computed without
  overflow, inside the data area and on the disk; reading it succeeds; and no two of them share an
  address.
\<close>

theorem cluster_addresses:
  assumes "ram_ok d" "mount (ram_device d) = Ok fs"
    and "valid_cluster fs c" "i < unat (sectors_per_cluster fs)"
  shows "\<exists>lba s. cluster_to_sector fs c (of_nat i) = Ok lba \<and>
    unat (first_data_sector fs) \<le> unat lba \<and> unat lba < unat (ram_sector_count d) \<and>
    ram_read_sector d lba = Ok s \<and> length s = 512 \<and>
    (\<forall>c' i'. valid_cluster fs c' \<longrightarrow> i' < unat (sectors_per_cluster fs) \<longrightarrow>
       cluster_to_sector fs c' (of_nat i') = Ok lba \<longrightarrow> c' = c \<and> i' = i)"
proof -
  have ok: "volume_ok fs" and dev: "device fs = ram_device d"
    using ram.mount_ok [OF assms(1,2)] by auto
  note lba = cluster_lba_bound [OF ok assms(3,4)]
  have un: "unat (of_nat (cluster_lba fs c i) :: u32) = cluster_lba fs c i" if "valid_cluster fs c" "i < unat (sectors_per_cluster fs)" for c i
    using cluster_lba_bound(3) [OF ok that] by (simp add: unat_of_nat_small)
  have inj: "c' = c \<and> i' = i"
    if "valid_cluster fs c'" "i' < unat (sectors_per_cluster fs)" "cluster_lba fs c' i' = cluster_lba fs c i" for c' i'
  proof -
    have "(unat c' - 2) * unat (sectors_per_cluster fs) + i' = (unat c - 2) * unat (sectors_per_cluster fs) + i"
      using that(3) by (simp add: cluster_lba_def)
    then have "unat c' - 2 = unat c - 2 \<and> i' = i"
      using mult_add_unique [OF that(2) assms(4)] by blast
    with that(1) assms(3) show ?thesis
      by (auto simp: valid_cluster_def word_unat_eq_iff)
  qed
  have "unat (first_data_sector fs) \<le> cluster_lba fs c i"
    by (simp add: cluster_lba_def)
  moreover have "cluster_to_sector fs c' (of_nat i') = Ok (of_nat (cluster_lba fs c' i'))"
    if "valid_cluster fs c'" "i' < unat (sectors_per_cluster fs)" for c' i'
    using cluster_to_sector_Ok [OF ok that] .
  ultimately show ?thesis
    using lba un assms(3,4) inj cluster_sector_read [OF ok assms(3,4)]
    by (auto simp: dev ram_device_def) (metis un)+
qed

text \<open>Witness of C27: the first sector of cluster 3 of the demonstration disk.\<close>

theorem cluster_addresses_witness:
  "valid_cluster demo_fs 3 \<and> (\<exists>lba s. cluster_to_sector demo_fs 3 0 = Ok lba \<and> ram_read_sector demo_disk lba = Ok s)"
  using cluster_addresses [OF demo_disk_ok demo_mount, of 3 0] by auto

text \<open>
  C16. On a mounted volume a path resolves to an entry exactly when following its components from
  the root directory does: each component names (ignoring ASCII case) the first such entry of the
  directory reached so far, all but the last are directories, and none is \<open>.\<close> or \<open>..\<close>.
\<close>

theorem resolve_path_refines:
  assumes "ram_ok d" "mount (ram_device d) = Ok fs"
  shows "resolve_path fs path = Ok e \<longleftrightarrow> resolves fs (root_cluster fs) (path_components path) e"
  using resolve_path_resolves ram.mount_ok [OF assms] by blast

text \<open>Witness of C16: \<open>/docs/a.txt\<close> on the demonstration disk.\<close>

theorem resolve_path_refines_witness:
  "resolve_path demo_fs [0x2f, 0x64, 0x6f, 0x63, 0x73, 0x2f, 0x61, 0x2e, 0x74, 0x78, 0x74] = Ok (raw_entry a_entry)"
proof -
  have "path_components [0x2f, 0x64, 0x6f, 0x63, 0x73, 0x2f, 0x61, 0x2e, 0x74, 0x78, 0x74] =
    [[0x64, 0x6f, 0x63, 0x73], [0x61, 0x2e, 0x74, 0x78, 0x74]]"
    by (simp add: path_components_def)
  moreover have "resolves demo_fs 2 [[0x64, 0x6f, 0x63, 0x73], [0x61, 0x2e, 0x74, 0x78, 0x74]] (raw_entry a_entry)"
    by (simp add: resolves_simps first_named_iff named_def eq_ignore_ascii_case_def to_ascii_lowercase_def
        is_dot_component_def)
  ultimately show ?thesis
    using resolve_path_refines [OF demo_disk_ok demo_mount] by simp
qed

text \<open>
  Joining non-empty, slash-free components with slashes and splitting the path again gives the
  components back, whatever number of slashes follows.
\<close>

lemma path_components_roundtrip:
  assumes "list_all (\<lambda>c. c \<noteq> [] \<and> 0x2f \<notin> set c) cs"
  shows "path_components (concat (map (\<lambda>c. 0x2f # c) cs) @ replicate n 0x2f) = cs"
proof (induction n)
  case 0
  then show ?case using path_components_join [OF assms] by simp
next
  case (Suc n)
  have "concat (map (\<lambda>c. 0x2f # c) cs) @ replicate (Suc n) 0x2f =
    (concat (map (\<lambda>c. 0x2f # c) cs) @ replicate n 0x2f) @ 0x2f # []"
    by (simp add: replicate_append_same)
  then have "path_components (concat (map (\<lambda>c. 0x2f # c) cs) @ replicate (Suc n) 0x2f) =
    path_components (concat (map (\<lambda>c. 0x2f # c) cs) @ replicate n 0x2f) @ path_components []"
    by (simp only: path_components_append)
  with Suc show ?case
    by (simp add: path_components_free)
qed

text \<open>C34. Path resolution does not depend on the case of the ASCII letters of the path.\<close>

theorem resolve_path_ignores_case:
  "resolve_path fs (map to_ascii_lowercase path) = resolve_path fs path"
  by (simp add: resolve_path_def path_components_lower is_dot_lower resolve_components_lower split: list.split)

text \<open>
  C6. Listing a path of a mounted volume, with a visitor that records the entries and goes on,
  succeeds exactly when the path names a directory (any path without components names the root)
  that has a valid first cluster and ends, and then the visitor has seen exactly the directory's
  entries, in order.
\<close>

theorem list_dir_lists:
  assumes "ram_ok d" "mount (ram_device d) = Ok fs"
  shows "list_dir fs path collect_entry [] = Ok (es, ()) \<longleftrightarrow>
    (\<exists>c. dir_at fs path c \<and> valid_cluster fs c \<and> dir_closed fs c \<and> es = dir_list fs c)"
proof -
  have ok: "volume_ok fs"
    using ram.mount_ok [OF assms] by blast
  show ?thesis
    by (auto simp: list_dir_Ok_iff [OF ok] visit_collect [OF ok] split: if_splits)
qed

text \<open>Witness of C6: the root directory of the demonstration disk.\<close>

theorem list_dir_lists_witness:
  "list_dir demo_fs [0x2f] collect_entry [] =
     Ok ([raw_entry hello_entry, raw_entry loop_entry, raw_entry docs_entry], ())"
proof -
  have "dir_at demo_fs [0x2f] 2" "dir_closed demo_fs 2"
    by (simp_all add: dir_at_def path_components_def dir_closed_def)
  then show ?thesis
    using list_dir_lists [OF demo_disk_ok demo_mount] by auto
qed

text \<open>
  C17. A directory walk on a mounted volume reports \<open>DirectoryLoop\<close> exactly when the chain of the
  directory really runs into a cycle of the FAT and no slot of the clusters visited ends it: the
  loop bound is never exhausted by a chain that ends.
\<close>

theorem directory_loop_iff_cyclic:
  assumes "ram_ok d" "mount (ram_device d) = Ok fs"
  shows "(\<exists>es. visit_directory collect_entry fs c [] = Err (es, DirectoryLoop)) \<longleftrightarrow>
    valid_cluster fs c \<and> cyclic_from fs c \<and> \<not> list_ex slot_last (chain_slots fs (walk_chain fs c))"
proof -
  have "volume_ok fs"
    using ram.mount_ok [OF assms] by blast
  then show ?thesis
    by (cases "walk_end fs c") (auto simp: visit_collect walk_end_Cut_iff [symmetric] dir_closed_def chain_error_def)
qed

text \<open>Witness of C17: the directory \<open>LOOP\<close> of the demonstration disk, clusters 5 and 6.\<close>

theorem directory_loop_iff_cyclic_witness:
  "valid_cluster demo_fs 5 \<and> (\<exists>es. visit_directory collect_entry demo_fs 5 [] = Err (es, DirectoryLoop))"
proof -
  have cyc: "(fat_step demo_fs)\<^sup>+\<^sup>+ 5 5"
    using tranclp.trancl_into_trancl [OF tranclp.r_into_trancl, of "fat_step demo_fs" 5 6 5]
    by (simp add: fat_step_def)
  then have "cyclic_from demo_fs 5"
    by (auto simp: cyclic_from_def)
  moreover have "\<not> list_ex slot_last (chain_slots demo_fs (walk_chain demo_fs 5))"
    by (rule demo_loop_slots)
  ultimately show ?thesis
    using directory_loop_iff_cyclic [OF demo_disk_ok demo_mount, of 5] by simp
qed

text \<open>
  C2. Reading a path of a mounted volume, with a visitor that records the pieces it is given,
  succeeds exactly when the path resolves to a file whose chain is at least as long as its size (or
  to an empty file); it then returns the size, and the pieces are the first \<open>size\<close> bytes of the
  chain cut into sectors.
\<close>

theorem read_file_exact:
  assumes "ram_ok d" "mount (ram_device d) = Ok fs"
  shows "read_file fs path collect_piece [] = Ok (pieces, n) \<longleftrightarrow>
    (\<exists>e. resolves fs (root_cluster fs) (path_components path) e \<and> \<not> is_directory e \<and> n = unat (de_size e) \<and>
       (if de_size e = 0 then pieces = []
        else valid_cluster fs (first_cluster e) \<and> n \<le> length (file_bytes fs (first_cluster e)) \<and>
          pieces = chunks 512 (take n (file_bytes fs (first_cluster e))) \<and>
          concat pieces = take n (file_bytes fs (first_cluster e))))"
proof -
  have ok: "volume_ok fs"
    using ram.mount_ok [OF assms] by blast
  show ?thesis
    by (simp only: read_file_eq [OF ok] obind_Ok_iff map_err_iffs resolve_path_resolves [OF ok] read_entry_collect)
qed

text \<open>Witness of C2: the 600 bytes of \<open>/HELLO.TXT\<close>.\<close>

theorem read_file_exact_witness:
  "\<exists>pieces. read_file demo_fs [0x48, 0x45, 0x4c, 0x4c, 0x4f, 0x2e, 0x54, 0x58, 0x54] collect_piece [] = Ok (pieces, 600)
     \<and> pieces = [replicate 512 0x41, replicate 88 0x42]"
proof -
  have "path_components [0x48, 0x45, 0x4c, 0x4c, 0x4f, 0x2e, 0x54, 0x58, 0x54] =
    [[0x48, 0x45, 0x4c, 0x4c, 0x4f, 0x2e, 0x54, 0x58, 0x54]]"
    by (simp add: path_components_def)
  moreover have "resolves demo_fs 2 [[0x48, 0x45, 0x4c, 0x4c, 0x4f, 0x2e, 0x54, 0x58, 0x54]] (raw_entry hello_entry)"
    by (simp add: resolves_simps first_named_iff named_def eq_ignore_ascii_case_def to_ascii_lowercase_def
        is_dot_component_def)
  moreover have "chunks 512 (replicate 512 0x41 @ replicate 88 0x42) = [replicate 512 0x41, replicate 88 (0x42 :: u8)]"
    by (simp add: chunks_append chunks_single)
  ultimately have "read_file demo_fs [0x48, 0x45, 0x4c, 0x4c, 0x4f, 0x2e, 0x54, 0x58, 0x54] collect_piece [] =
      Ok ([replicate 512 0x41, replicate 88 0x42], 600)"
    by (subst read_file_exact [OF demo_disk_ok demo_mount]) (rule exI [of _ "raw_entry hello_entry"], simp)
  then show ?thesis
    by blast
qed

text \<open>
  C1. On a mounted volume no operation panics, for every path and every visitor that does not
  panic itself, and no operation fails with a device error: whatever the bytes of the volume are,
  the reader never reads a sector outside the disk. The only errors are those about the volume's
  structure and the path.
\<close>

theorem reader_safe:
  fixes dv :: "'s dir_visitor" and bv :: "'t byte_visitor"
  assumes "ram_ok d" "mount (ram_device d) = Ok fs" "total_visitor dv" "total_visitor bv"
  shows "run_safe (resolve_path fs path) \<and> run_safe (map_err snd (list_dir fs path dv s)) \<and>
    run_safe (map_err snd (read_file fs path bv t))"
proof -
  have ok: "volume_ok fs"
    using ram.mount_ok [OF assms(1,2)] by blast
  show ?thesis
    by (intro conjI resolve_path_safe list_dir_safe read_file_safe ok assms)
qed

text \<open>Witness of C1: the recording visitors, on the looping directory.\<close>

theorem reader_safe_witness:
  "total_visitor collect_entry \<and> total_visitor collect_piece \<and>
   run_safe (map_err snd (list_dir demo_fs [0x4c, 0x4f, 0x4f, 0x50] collect_entry []))"
proof -
  have total: "total_visitor collect_entry" "total_visitor collect_piece"
    by (simp_all add: total_visitor_def collect_entry_def collect_piece_def)
  with reader_safe [OF demo_disk_ok demo_mount total] show ?thesis
    by blast
qed

end
