(* ===== verification/Ring.thy ===== *)
theory Ring
  imports Prelude
begin

text \<open>
  Ring buffers and bounded queues. \<open>ring_slice\<close> reads \<open>n\<close> consecutive slots of a circular array;
  the keyboard queue and the command history are both such slices. The contract of a bounded queue
  that drops what does not fit is the locale \<open>bounded_fifo\<close>; its client lemmas follow every
  sequence of operations.
\<close>

section \<open>Slices of a circular array\<close>

definition ring_slice :: "'a list \<Rightarrow> nat \<Rightarrow> nat \<Rightarrow> 'a list" where
  "ring_slice xs t n = map (\<lambda>i. xs ! ((t + i) mod length xs)) [0..<n]"

lemma length_ring_slice [simp]: "length (ring_slice xs t n) = n"
  by (simp add: ring_slice_def)

lemma ring_slice_0 [simp]: "ring_slice xs t 0 = []"
  by (simp add: ring_slice_def)

lemma nth_ring_slice [simp]: "i < n \<Longrightarrow> ring_slice xs t n ! i = xs ! ((t + i) mod length xs)"
  by (simp add: ring_slice_def)

text \<open>The slot after the slice is none of its own.\<close>

lemma ring_distinct:
  fixes t i n m :: nat
  assumes "i < n" "n < m"
  shows "(t + i) mod m \<noteq> (t + n) mod m"
proof
  assume "(t + i) mod m = (t + n) mod m"
  then have "m dvd (t + n) - (t + i)"
    using assms by (intro mod_eq_dvd_iff_nat [THEN iffD1]) auto
  with assms show False
    by (auto dest: dvd_imp_le)
qed

lemma ring_slice_snoc:
  assumes "n < length xs"
  shows "ring_slice (xs[(t + n) mod length xs := x]) t (Suc n) = ring_slice xs t n @ [x]"
proof (rule nth_equalityI)
  fix i
  assume "i < length (ring_slice (xs[(t + n) mod length xs := x]) t (Suc n))"
  then consider "i = n" | "i < n"
    by force
  then show "ring_slice (xs[(t + n) mod length xs := x]) t (Suc n) ! i = (ring_slice xs t n @ [x]) ! i"
  proof cases
    case 1
    have "(t + n) mod length xs < length xs"
      using assms by (intro mod_less_divisor) linarith
    with 1 show ?thesis
      by (simp add: nth_append)
  next
    case 2
    with assms ring_distinct [of i n "length xs" t] show ?thesis
      by (simp add: nth_append)
  qed
qed simp

lemma ring_slice_Cons:
  "ring_slice xs t (Suc n) = xs ! (t mod length xs) # ring_slice xs (Suc t mod length xs) n"
  by (simp add: ring_slice_def upt_conv_Cons map_Suc_upt [symmetric] comp_def mod_simps del: upt_Suc)

lemma ring_slice_mod: "ring_slice xs (t mod length xs) n = ring_slice xs t n"
  by (simp add: ring_slice_def mod_simps)

text \<open>
  A ring with a write index \<open>h\<close> and a read index \<open>t\<close> holds \<open>ring_count m h t\<close> elements; one of
  the \<open>m\<close> slots always stays free.
\<close>

definition ring_count :: "nat \<Rightarrow> nat \<Rightarrow> nat \<Rightarrow> nat" where
  "ring_count m h t = (if t \<le> h then h - t else h + m - t)"

lemma suc_mod: "h < m \<Longrightarrow> Suc h mod m = (if Suc h = m then 0 else Suc h)"
  by (simp add: mod_Suc)

lemma ring_count_less: "h < m \<Longrightarrow> t < m \<Longrightarrow> ring_count m h t < m"
  by (auto simp: ring_count_def)

lemma ring_full_iff: "h < m \<Longrightarrow> t < m \<Longrightarrow> Suc h mod m = t \<longleftrightarrow> Suc (ring_count m h t) = m"
  by (auto simp: ring_count_def suc_mod)

lemma ring_empty_iff: "h < m \<Longrightarrow> t < m \<Longrightarrow> ring_count m h t = 0 \<longleftrightarrow> t = h"
  by (auto simp: ring_count_def)

lemma ring_slot: "h < m \<Longrightarrow> t < m \<Longrightarrow> (t + ring_count m h t) mod m = h"
  by (auto simp: ring_count_def)

lemma ring_count_push:
  "h < m \<Longrightarrow> t < m \<Longrightarrow> Suc h mod m \<noteq> t \<Longrightarrow> ring_count m (Suc h mod m) t = Suc (ring_count m h t)"
  by (auto simp: ring_count_def suc_mod)

lemma ring_count_pop:
  "h < m \<Longrightarrow> t < m \<Longrightarrow> t \<noteq> h \<Longrightarrow> Suc (ring_count m h (Suc t mod m)) = ring_count m h t"
  by (auto simp: ring_count_def suc_mod)

section \<open>Bounded queues\<close>

datatype 'a fifo_op = Enq 'a | Deq

text \<open>Running a sequence of operations, on an implementation and on a list of bounded length.\<close>

fun run_ops ::
    "('q \<Rightarrow> 'a \<Rightarrow> ('e, 'q) outcome) \<Rightarrow> ('q \<Rightarrow> ('e, 'a option \<times> 'q) outcome) \<Rightarrow>
     'a fifo_op list \<Rightarrow> 'q \<Rightarrow> ('e, 'a option list \<times> 'q) outcome" where
  "run_ops enq deq [] q = Ok ([], q)"
| "run_ops enq deq (Enq x # ops) q = obind (enq q x) (run_ops enq deq ops)"
| "run_ops enq deq (Deq # ops) q =
     obind (deq q) (\<lambda>(r, q'). obind (run_ops enq deq ops q') (\<lambda>(rs, q''). Ok (r # rs, q'')))"

fun fifo_run :: "nat \<Rightarrow> 'a fifo_op list \<Rightarrow> 'a list \<Rightarrow> 'a option list \<times> 'a list" where
  "fifo_run cap [] xs = ([], xs)"
| "fifo_run cap (Enq x # ops) xs = fifo_run cap ops (if length xs < cap then xs @ [x] else xs)"
| "fifo_run cap (Deq # ops) xs =
     (case xs of
        [] \<Rightarrow> (let (rs, ys) = fifo_run cap ops [] in (None # rs, ys))
      | x # xs' \<Rightarrow> (let (rs, ys) = fifo_run cap ops xs' in (Some x # rs, ys)))"

locale bounded_fifo =
  fixes enq :: "'q \<Rightarrow> 'a \<Rightarrow> ('e, 'q) outcome"
    and deq :: "'q \<Rightarrow> ('e, 'a option \<times> 'q) outcome"
    and contents :: "'q \<Rightarrow> 'a list"
    and invar :: "'q \<Rightarrow> bool"
    and cap :: nat
  assumes enq_ok: "invar q \<Longrightarrow> \<exists>q'. enq q x = Ok q' \<and> invar q' \<and>
      contents q' = (if length (contents q) < cap then contents q @ [x] else contents q)"
    and deq_empty: "invar q \<Longrightarrow> contents q = [] \<Longrightarrow> deq q = Ok (None, q)"
    and deq_front: "invar q \<Longrightarrow> contents q = x # xs \<Longrightarrow>
      \<exists>q'. deq q = Ok (Some x, q') \<and> invar q' \<and> contents q' = xs"
    and contents_bound: "invar q \<Longrightarrow> length (contents q) \<le> cap"
begin

lemma enq_contents:
  assumes "invar q" "enq q x = Ok q'"
  shows "invar q' \<and> contents q' = take cap (contents q @ [x])"
  using enq_ok [OF assms(1), of x] contents_bound [OF assms(1)] assms(2) by auto

lemma run_ops_refines:
  "invar q \<Longrightarrow> \<exists>q'. run_ops enq deq ops q = Ok (fst (fifo_run cap ops (contents q)), q') \<and>
     invar q' \<and> contents q' = snd (fifo_run cap ops (contents q))"
proof (induction ops arbitrary: q)
  case Nil
  then show ?case by simp
next
  case (Cons op ops)
  show ?case
  proof (cases op)
    case (Enq x)
    with enq_ok [OF Cons.prems, of x] Cons.IH show ?thesis
      by fastforce
  next
    case Deq
    show ?thesis
    proof (cases "contents q")
      case Nil
      with Deq deq_empty [OF Cons.prems] Cons.IH [OF Cons.prems] show ?thesis
        by (auto simp: case_prod_beta Let_def)
    next
      case (Cons x xs)
      with deq_front [OF Cons.prems] obtain q' where "deq q = Ok (Some x, q')" "invar q'" "contents q' = xs"
        by blast
      with Deq Cons Cons.IH [of q'] show ?thesis
        by (auto simp: case_prod_beta Let_def)
    qed
  qed
qed

end

end
