(* ===== verification/Ports.thy ===== *)
theory Ports
  imports Prelude "HOL-Library.State_Monad"
begin

text \<open>
  Port input and output. The devices behind the ports are not part of the repository: a \<open>bus\<close> is
  a parameter of every driver model, a record of functions on the state \<open>'h\<close> of the hardware.
  Driver code is a computation in the state monad over that state. What a driver does to the
  hardware is stated about \<open>logged b\<close>, the bus \<open>b\<close> extended with the sequence of port accesses:
  \<open>io_spec m Q\<close> says that, whatever the hardware answers, \<open>m\<close> returns an \<open>x\<close> after accesses
  \<open>evs\<close> with \<open>Q x evs\<close>.
\<close>

section \<open>Buses\<close>

record 'h bus =
  bus_in8 :: "u16 \<Rightarrow> 'h \<Rightarrow> u8 \<times> 'h"
  bus_out8 :: "u16 \<Rightarrow> u8 \<Rightarrow> 'h \<Rightarrow> 'h"
  bus_in32 :: "u16 \<Rightarrow> 'h \<Rightarrow> u32 \<times> 'h"
  bus_out32 :: "u16 \<Rightarrow> u32 \<Rightarrow> 'h \<Rightarrow> 'h"

definition in8 :: "'h bus \<Rightarrow> u16 \<Rightarrow> ('h, u8) state" where
  "in8 b p = State (bus_in8 b p)"

definition out8 :: "'h bus \<Rightarrow> u16 \<Rightarrow> u8 \<Rightarrow> ('h, unit) state" where
  "out8 b p v = State (\<lambda>h. ((), bus_out8 b p v h))"

definition in32 :: "'h bus \<Rightarrow> u16 \<Rightarrow> ('h, u32) state" where
  "in32 b p = State (bus_in32 b p)"

definition out32 :: "'h bus \<Rightarrow> u16 \<Rightarrow> u32 \<Rightarrow> ('h, unit) state" where
  "out32 b p v = State (\<lambda>h. ((), bus_out32 b p v h))"

abbreviation ret :: "'a \<Rightarrow> ('h, 'a) state" where
  "ret \<equiv> State_Monad.return"

text \<open>
  The polling loop of the drivers, \<open>for _ in 0..n { if status & mask ... { ...; return } spin_loop() }\<close>:
  up to \<open>n\<close> reads of a status port, stopping at the first that satisfies the test.
\<close>

fun poll8 :: "'h bus \<Rightarrow> nat \<Rightarrow> u16 \<Rightarrow> (u8 \<Rightarrow> bool) \<Rightarrow> ('h, bool) state" where
  "poll8 b 0 p ready = ret False"
| "poll8 b (Suc n) p ready = do {
     status \<leftarrow> in8 b p;
     if ready status then ret True else poll8 b n p ready
   }"

section \<open>Logged buses\<close>

datatype io = In8 u16 u8 | Out8 u16 u8 | In32 u16 u32 | Out32 u16 u32

definition logged :: "'h bus \<Rightarrow> ('h \<times> io list) bus" where
  "logged b = \<lparr>
     bus_in8 = (\<lambda>p (h, l). let (v, h') = bus_in8 b p h in (v, (h', l @ [In8 p v]))),
     bus_out8 = (\<lambda>p v (h, l). (bus_out8 b p v h, l @ [Out8 p v])),
     bus_in32 = (\<lambda>p (h, l). let (v, h') = bus_in32 b p h in (v, (h', l @ [In32 p v]))),
     bus_out32 = (\<lambda>p v (h, l). (bus_out32 b p v h, l @ [Out32 p v]))\<rparr>"

definition io_spec :: "('h \<times> io list, 'a) state \<Rightarrow> ('a \<Rightarrow> io list \<Rightarrow> bool) \<Rightarrow> bool" where
  "io_spec m Q \<longleftrightarrow> (\<forall>h l. \<exists>x h' evs. run_state m (h, l) = (x, (h', l @ evs)) \<and> Q x evs)"

named_theorems io_rules \<open>accesses of the port primitives\<close>

lemma io_specI:
  "(\<And>h l. \<exists>x h' evs. run_state m (h, l) = (x, (h', l @ evs)) \<and> Q x evs) \<Longrightarrow> io_spec m Q"
  by (simp add: io_spec_def)

lemma io_specD:
  assumes "io_spec m Q" and "run_state m (h, l) = (x, (h', l'))"
  obtains evs where "l' = l @ evs" "Q x evs"
  using assms unfolding io_spec_def by (metis Pair_inject)

lemma io_weaken: "io_spec m Q \<Longrightarrow> (\<And>x evs. Q x evs \<Longrightarrow> R x evs) \<Longrightarrow> io_spec m R"
  unfolding io_spec_def by metis

lemma io_return [io_rules]: "Q x [] \<Longrightarrow> io_spec (ret x) Q"
  unfolding io_spec_def by (metis append_Nil2 run_state_return)

lemma io_bind:
  assumes "io_spec m P" and "\<And>x evs. P x evs \<Longrightarrow> io_spec (f x) (\<lambda>y evs'. Q y (evs @ evs'))"
  shows "io_spec (State_Monad.bind m f) Q"
proof (rule io_specI)
  fix h l
  obtain x h' evs where m: "run_state m (h, l) = (x, (h', l @ evs))" "P x evs"
    using assms(1) unfolding io_spec_def by metis
  then obtain y h'' evs' where "run_state (f x) (h', l @ evs) = (y, (h'', (l @ evs) @ evs'))" "Q y (evs @ evs')"
    using assms(2) [OF m(2)] unfolding io_spec_def by metis
  with m show "\<exists>y h' evs. run_state (State_Monad.bind m f) (h, l) = (y, (h', l @ evs)) \<and> Q y evs"
    by auto
qed

lemma io_prim [io_rules]:
  "(\<And>v. Q v [In8 p v]) \<Longrightarrow> io_spec (in8 (logged b) p) Q"
  "S () [Out8 p w] \<Longrightarrow> io_spec (out8 (logged b) p w) S"
  "(\<And>d. R d [In32 p d]) \<Longrightarrow> io_spec (in32 (logged b) p) R"
  "S () [Out32 p d] \<Longrightarrow> io_spec (out32 (logged b) p d) S"
  by (auto intro!: io_specI simp: in8_def out8_def in32_def out32_def logged_def split: prod.split)

text \<open>Straight-line accesses.\<close>

lemma io_out_bind:
  "io_spec (f ()) (\<lambda>x evs. Q x (Out8 p v # evs)) \<Longrightarrow> io_spec (State_Monad.bind (out8 (logged b) p v) f) Q"
  by (rule io_bind [where P = "\<lambda>_ evs. evs = [Out8 p v]"]) (auto intro: io_rules)

lemma io_in_bind:
  "(\<And>v. io_spec (f v) (\<lambda>x evs. Q x (In8 p v # evs))) \<Longrightarrow> io_spec (State_Monad.bind (in8 (logged b) p) f) Q"
  by (rule io_bind [where P = "\<lambda>v evs. evs = [In8 p v]"]) (auto intro: io_rules)

lemma io_out32_bind:
  "io_spec (f ()) (\<lambda>x evs. Q x (Out32 p v # evs)) \<Longrightarrow> io_spec (State_Monad.bind (out32 (logged b) p v) f) Q"
  by (rule io_bind [where P = "\<lambda>_ evs. evs = [Out32 p v]"]) (auto intro: io_rules)

lemmas io_straight = io_out_bind io_in_bind io_out32_bind

text \<open>
  A poll reads the status port at most \<open>n\<close> times; on success the last read, and only it,
  satisfied the test, and on failure none did.
\<close>

definition polled :: "nat \<Rightarrow> u16 \<Rightarrow> (u8 \<Rightarrow> bool) \<Rightarrow> bool \<Rightarrow> io list \<Rightarrow> bool" where
  "polled n p ready ok evs \<longleftrightarrow>
     (\<exists>vs. evs = map (In8 p) vs \<and>
        (if ok then vs \<noteq> [] \<and> length vs \<le> n \<and> ready (last vs) \<and> list_all (\<lambda>v. \<not> ready v) (butlast vs)
         else length vs = n \<and> list_all (\<lambda>v. \<not> ready v) vs))"

lemma polled_start:
  "polled 0 p ready False []"
  "ready v \<Longrightarrow> polled (Suc n) p ready True [In8 p v]"
  unfolding polled_def by (simp, rule exI [of _ "[v]"], simp)

lemma polled_Cons:
  "\<not> ready v \<Longrightarrow> polled n p ready ok evs \<Longrightarrow> polled (Suc n) p ready ok (In8 p v # evs)"
  unfolding polled_def by (elim exE conjE, rule_tac x = "v # vs" in exI) (auto split: if_splits)

lemma poll8_spec: "io_spec (poll8 (logged b) n p ready) (polled n p ready)"
proof (induction n)
  case 0
  show ?case
    unfolding poll8.simps by (intro io_return polled_start)
next
  case (Suc n)
  have "io_spec (if ready v then ret True else poll8 (logged b) n p ready)
      (\<lambda>ok evs. polled (Suc n) p ready ok (In8 p v # evs))" for v
  proof (cases "ready v")
    case True
    then show ?thesis
      by (simp add: io_return polled_start)
  next
    case False
    with io_weaken [OF Suc.IH] polled_Cons [of ready v n p] show ?thesis
      by simp
  qed
  then show ?case
    unfolding poll8.simps by (intro io_bind [where P = "\<lambda>v evs. evs = [In8 p v]"] io_rules) simp_all
qed

text \<open>The writes among the accesses.\<close>

fun io_writes :: "io list \<Rightarrow> (u16 \<times> u8) list" where
  "io_writes [] = []"
| "io_writes (Out8 p v # evs) = (p, v) # io_writes evs"
| "io_writes (_ # evs) = io_writes evs"

lemma io_writes_append [simp]: "io_writes (xs @ ys) = io_writes xs @ io_writes ys"
  by (induction xs rule: io_writes.induct) auto

lemma polled_no_writes: "polled n p ready ok evs \<Longrightarrow> io_writes evs = []"
proof -
  have "io_writes (map (In8 p) vs) = []" for vs
    by (induction vs) auto
  then show "polled n p ready ok evs \<Longrightarrow> io_writes evs = []"
    by (auto simp: polled_def)
qed

lemma polled_length: "polled n p ready ok evs \<Longrightarrow> length evs \<le> n"
  by (auto simp: polled_def split: if_splits)

end
