(* ===== verification/Keyboard.thy ===== *)
theory Keyboard
  imports Ring Ports
begin

text \<open>
  The keyboard (\<open>kernel/src/keyboard.rs\<close>): the event queue between IRQ1 and the shell, the set-1
  scancode decoder with its modifier state, and the set-up of the 8042 controller. The statics
  \<open>INPUT_QUEUE\<close>, \<open>MODIFIERS\<close> and \<open>EXTENDED_PREFIX\<close> are the record \<open>kbd\<close>. Here a call runs to
  completion; the interleaving of the two sides of the queue is the subject of
  \<open>Keyboard_Race\<close>.
\<close>

section \<open>Constants and data\<close>

definition INPUT_QUEUE_CAPACITY :: nat where "INPUT_QUEUE_CAPACITY = 256"
definition SHIFT :: u8 where "SHIFT = 1"
definition CAPS_LOCK :: u8 where "CAPS_LOCK = 2"
definition PS2_DATA :: u16 where "PS2_DATA = 0x60"
definition PS2_STATUS_COMMAND :: u16 where "PS2_STATUS_COMMAND = 0x64"
definition CONTROLLER_TIMEOUT :: nat where "CONTROLLER_TIMEOUT = 100000"

datatype key_event =
    Character u8
  | Backspace
  | Tab
  | Enter
  | Left
  | Right
  | Up
  | Down
  | Home
  | End
  | Delete

record input_queue =
  q_events :: "key_event list"
  q_head :: usize
  q_tail :: usize
  q_dropped :: usize

record kbd =
  queue :: input_queue
  modifiers :: u8
  extended_prefix :: bool

section \<open>The queue\<close>

definition queue_new :: input_queue where
  "queue_new = \<lparr>q_events = replicate INPUT_QUEUE_CAPACITY Enter, q_head = 0, q_tail = 0, q_dropped = 0\<rparr>"

definition queue_push :: "input_queue \<Rightarrow> key_event \<Rightarrow> input_queue may_panic" where
  "queue_push q event =
     obind (add_ov (q_head q) 1) (\<lambda>sum.
     let next = sum mod of_nat INPUT_QUEUE_CAPACITY in
     if next = q_tail q then Ok (q\<lparr>q_dropped := q_dropped q + 1\<rparr>)
     else obind (set_idx (q_events q) (unat (q_head q)) event) (\<lambda>events.
          Ok (q\<lparr>q_events := events, q_head := next\<rparr>)))"

definition queue_pop :: "input_queue \<Rightarrow> (key_event option \<times> input_queue) may_panic" where
  "queue_pop q =
     (if q_tail q = q_head q then Ok (None, q)
      else obind (idx (q_events q) (unat (q_tail q))) (\<lambda>event.
           obind (add_ov (q_tail q) 1) (\<lambda>sum.
           Ok (Some event, q\<lparr>q_tail := sum mod of_nat INPUT_QUEUE_CAPACITY\<rparr>))))"

section \<open>The decoder\<close>

text \<open>The tables are the arms of the source's \<open>match\<close> expressions.\<close>

definition extended_keys :: "(u8 \<times> key_event) list" where
  "extended_keys =
     [(0x47, Home), (0x48, Up), (0x4b, Left), (0x4d, Right), (0x4f, End), (0x50, Down), (0x53, Delete)]"

definition extended_event_for_set_1 :: "u8 \<Rightarrow> key_event option" where
  "extended_event_for_set_1 scancode = map_of extended_keys scancode"

definition letter_keys :: "(u8 \<times> u8) list" where
  "letter_keys =
     [(0x10, 0x71), (0x11, 0x77), (0x12, 0x65), (0x13, 0x72), (0x14, 0x74), (0x15, 0x79), (0x16, 0x75),
      (0x17, 0x69), (0x18, 0x6f), (0x19, 0x70), (0x1e, 0x61), (0x1f, 0x73), (0x20, 0x64), (0x21, 0x66),
      (0x22, 0x67), (0x23, 0x68), (0x24, 0x6a), (0x25, 0x6b), (0x26, 0x6c), (0x2c, 0x7a), (0x2d, 0x78),
      (0x2e, 0x63), (0x2f, 0x76), (0x30, 0x62), (0x31, 0x6e), (0x32, 0x6d)]"

definition to_ascii_uppercase :: "u8 \<Rightarrow> u8" where
  "to_ascii_uppercase b = (if 0x61 \<le> b \<and> b \<le> 0x7a then b - 0x20 else b)"

definition letter_for_set_1 :: "u8 \<Rightarrow> bool \<Rightarrow> key_event option" where
  "letter_for_set_1 scancode uppercase =
     map_option (\<lambda>lowercase. Character (if uppercase then to_ascii_uppercase lowercase else lowercase))
       (map_of letter_keys scancode)"

text \<open>The arms with a plain and a shifted character.\<close>

definition symbol_keys :: "(u8 \<times> u8 \<times> u8) list" where
  "symbol_keys =
     [(0x02, 0x31, 0x21), (0x03, 0x32, 0x40), (0x04, 0x33, 0x23), (0x05, 0x34, 0x24), (0x06, 0x35, 0x25),
      (0x07, 0x36, 0x5e), (0x08, 0x37, 0x26), (0x09, 0x38, 0x2a), (0x0a, 0x39, 0x28), (0x0b, 0x30, 0x29),
      (0x0c, 0x2d, 0x5f), (0x0d, 0x3d, 0x2b), (0x1a, 0x5b, 0x7b), (0x1b, 0x5d, 0x7d), (0x27, 0x3b, 0x3a),
      (0x28, 0x27, 0x22), (0x29, 0x60, 0x7e), (0x2b, 0x5c, 0x7c), (0x33, 0x2c, 0x3c), (0x34, 0x2e, 0x3e),
      (0x35, 0x2f, 0x3f)]"

definition ascii_for_set_1 :: "u8 \<Rightarrow> bool \<Rightarrow> bool \<Rightarrow> key_event option" where
  "ascii_for_set_1 scancode shift caps_lock =
     (if scancode = 0x0e then Some Backspace
      else if scancode = 0x0f then Some Tab
      else if scancode = 0x1c then Some Enter
      else if scancode = 0x39 then Some (Character 0x20)
      else case map_of symbol_keys scancode of
             Some (plain, shifted) \<Rightarrow> Some (Character (if shift then shifted else plain))
           | None \<Rightarrow> letter_for_set_1 scancode (shift \<noteq> caps_lock))"

definition push_event :: "kbd \<Rightarrow> key_event option \<Rightarrow> kbd may_panic" where
  "push_event k event =
     (case event of None \<Rightarrow> Ok k
      | Some e \<Rightarrow> obind (queue_push (queue k) e) (\<lambda>q. Ok (k\<lparr>queue := q\<rparr>)))"

definition handle_scancode :: "kbd \<Rightarrow> u8 \<Rightarrow> kbd may_panic" where
  "handle_scancode k scancode =
     (if scancode = 0xe0 then Ok (k\<lparr>extended_prefix := True\<rparr>)
      else if extended_prefix k then
        (let k' = k\<lparr>extended_prefix := False\<rparr> in
         if scancode AND 0x80 = 0 then push_event k' (extended_event_for_set_1 scancode) else Ok k')
      else if scancode = 0x2a \<or> scancode = 0x36 then Ok (k\<lparr>modifiers := modifiers k OR SHIFT\<rparr>)
      else if scancode = 0xaa \<or> scancode = 0xb6 then Ok (k\<lparr>modifiers := modifiers k AND NOT SHIFT\<rparr>)
      else if scancode = 0x3a then Ok (k\<lparr>modifiers := modifiers k XOR CAPS_LOCK\<rparr>)
      else if scancode AND 0x80 \<noteq> 0 then Ok k
      else push_event k
             (ascii_for_set_1 scancode (modifiers k AND SHIFT \<noteq> 0) (modifiers k AND CAPS_LOCK \<noteq> 0)))"

definition kbd_new :: kbd where
  "kbd_new = \<lparr>queue = queue_new, modifiers = 0, extended_prefix = False\<rparr>"

definition next_event :: "kbd \<Rightarrow> (key_event option \<times> kbd) may_panic" where
  "next_event k = obind (queue_pop (queue k)) (\<lambda>(event, q). Ok (event, k\<lparr>queue := q\<rparr>))"

definition dropped_chars :: "kbd \<Rightarrow> usize" where
  "dropped_chars k = q_dropped (queue k)"

section \<open>The controller\<close>

definition read_status :: "'h bus \<Rightarrow> ('h, u8) state" where
  "read_status b = in8 b PS2_STATUS_COMMAND"

definition read_data :: "'h bus \<Rightarrow> ('h, u8) state" where
  "read_data b = in8 b PS2_DATA"

definition write_command :: "'h bus \<Rightarrow> u8 \<Rightarrow> ('h, unit) state" where
  "write_command b command = out8 b PS2_STATUS_COMMAND command"

definition write_data :: "'h bus \<Rightarrow> u8 \<Rightarrow> ('h, unit) state" where
  "write_data b data = out8 b PS2_DATA data"

definition wait_for_input_empty :: "'h bus \<Rightarrow> ('h, bool) state" where
  "wait_for_input_empty b = poll8 b CONTROLLER_TIMEOUT PS2_STATUS_COMMAND (\<lambda>status. status AND 0x02 = 0)"

definition wait_for_output_full :: "'h bus \<Rightarrow> ('h, bool) state" where
  "wait_for_output_full b = poll8 b CONTROLLER_TIMEOUT PS2_STATUS_COMMAND (\<lambda>status. status AND 0x01 \<noteq> 0)"

fun drain_loop :: "'h bus \<Rightarrow> nat \<Rightarrow> ('h, unit) state" where
  "drain_loop b 0 = ret ()"
| "drain_loop b (Suc n) = do {
     status \<leftarrow> read_status b;
     if status AND 0x01 = 0 then ret () else do {
       _ \<leftarrow> read_data b;
       drain_loop b n
     }
   }"

definition drain_output :: "'h bus \<Rightarrow> ('h, unit) state" where
  "drain_output b = drain_loop b 32"

definition initialize_controller :: "'h bus \<Rightarrow> ('h, bool) state" where
  "initialize_controller b = do {
     ready \<leftarrow> wait_for_input_empty b;
     if \<not> ready then ret False else do {
     write_command b 0xad;
     drain_output b;
     ready \<leftarrow> wait_for_input_empty b;
     if \<not> ready then ret False else do {
     write_command b 0x20;
     full \<leftarrow> wait_for_output_full b;
     if \<not> full then ret False else do {
     command_byte \<leftarrow> read_data b;
     let configured = (command_byte OR 0x01 OR 0x40) AND NOT 0x10;
     ready \<leftarrow> wait_for_input_empty b;
     if \<not> ready then ret False else do {
     write_command b 0x60;
     ready \<leftarrow> wait_for_input_empty b;
     if \<not> ready then ret False else do {
     write_data b configured;
     ready \<leftarrow> wait_for_input_empty b;
     if \<not> ready then ret False else do {
     write_command b 0xae;
     ret True
   }}}}}}}"

section \<open>The queue is a bounded FIFO\<close>

definition queue_ok :: "input_queue \<Rightarrow> bool" where
  "queue_ok q \<longleftrightarrow> length (q_events q) = 256 \<and> unat (q_head q) < 256 \<and> unat (q_tail q) < 256"

definition queue_contents :: "input_queue \<Rightarrow> key_event list" where
  "queue_contents q =
     ring_slice (q_events q) (unat (q_tail q)) (ring_count 256 (unat (q_head q)) (unat (q_tail q)))"

lemma queue_new_ok: "queue_ok queue_new" "queue_contents queue_new = []"
  by (simp_all add: queue_ok_def queue_new_def INPUT_QUEUE_CAPACITY_def queue_contents_def ring_count_def)

lemma index_succ:
  assumes "unat (i :: usize) < 256"
  shows "add_ov i 1 = Ok (i + 1)" and "unat ((i + 1) mod 256) = Suc (unat i) mod 256"
  using assms by (simp_all add: ov_Ok_iff unat_word_ariths unat_mod)

lemma queue_push_eq:
  assumes "queue_ok q"
  shows "queue_push q e = Ok (if length (queue_contents q) < 255
    then q\<lparr>q_events := (q_events q)[unat (q_head q) := e], q_head := (q_head q + 1) mod 256\<rparr>
    else q\<lparr>q_dropped := q_dropped q + 1\<rparr>)"
proof -
  let ?h = "unat (q_head q)" and ?t = "unat (q_tail q)"
  have range: "?h < 256" "?t < 256" and len: "length (q_events q) = 256"
    using assms by (auto simp: queue_ok_def)
  have "(q_head q + 1) mod 256 = q_tail q \<longleftrightarrow> Suc ?h mod 256 = ?t"
    by (simp add: word_unat_eq_iff index_succ [OF range(1)])
  also have "\<dots> \<longleftrightarrow> \<not> length (queue_contents q) < 255"
    using ring_full_iff [OF range] ring_count_less [OF range] by (simp add: queue_contents_def) linarith
  finally show ?thesis
    using range len by (auto simp: queue_push_def index_succ INPUT_QUEUE_CAPACITY_def Let_def)
qed

lemma queue_push_contents:
  assumes "queue_ok q" "length (queue_contents q) < 255"
  shows "queue_contents (q\<lparr>q_events := (q_events q)[unat (q_head q) := e], q_head := (q_head q + 1) mod 256\<rparr>)
    = queue_contents q @ [e]"
proof -
  let ?h = "unat (q_head q)" and ?t = "unat (q_tail q)"
  have range: "?h < 256" "?t < 256" and len: "length (q_events q) = 256"
    using assms by (auto simp: queue_ok_def)
  have room: "Suc ?h mod 256 \<noteq> ?t" "ring_count 256 ?h ?t < 256"
    using ring_full_iff [OF range] assms(2) by (auto simp: queue_contents_def)
  show ?thesis
    using ring_slice_snoc [of "ring_count 256 ?h ?t" "q_events q" ?t e] len room
      ring_count_push [OF range room(1)] ring_slot [OF range]
    by (simp add: queue_contents_def index_succ [OF range(1)])
qed

lemma queue_pop_front:
  assumes "queue_ok q" "q_tail q \<noteq> q_head q"
  shows "queue_contents q = q_events q ! unat (q_tail q) # queue_contents (q\<lparr>q_tail := (q_tail q + 1) mod 256\<rparr>)"
proof -
  let ?h = "unat (q_head q)" and ?t = "unat (q_tail q)"
  have range: "?h < 256" "?t < 256" and len: "length (q_events q) = 256" and ne: "?t \<noteq> ?h"
    using assms by (auto simp: queue_ok_def word_unat_eq_iff)
  have "queue_contents q = ring_slice (q_events q) ?t (Suc (ring_count 256 ?h (Suc ?t mod 256)))"
    using ring_count_pop [OF range ne] by (simp add: queue_contents_def)
  then show ?thesis
    using len range by (simp add: ring_slice_Cons queue_contents_def index_succ)
qed

lemma queue_empty_iff:
  assumes "queue_ok q"
  shows "queue_contents q = [] \<longleftrightarrow> q_tail q = q_head q"
proof -
  have "queue_contents q = [] \<longleftrightarrow> ring_count 256 (unat (q_head q)) (unat (q_tail q)) = 0"
    unfolding queue_contents_def by (metis length_0_conv length_ring_slice)
  with assms show ?thesis
    by (simp add: ring_empty_iff queue_ok_def word_unat_eq_iff)
qed

lemma queue_pop_eq:
  "queue_ok q \<Longrightarrow> queue_pop q = Ok (if q_tail q = q_head q then (None, q)
     else (Some (q_events q ! unat (q_tail q)), q\<lparr>q_tail := (q_tail q + 1) mod 256\<rparr>))"
  by (simp add: queue_pop_def queue_ok_def index_succ INPUT_QUEUE_CAPACITY_def)

interpretation kbdq: bounded_fifo queue_push queue_pop queue_contents queue_ok 255
proof
  fix q :: input_queue and x :: key_event
  assume ok: "queue_ok q"
  let ?pushed = "q\<lparr>q_events := (q_events q)[unat (q_head q) := x], q_head := (q_head q + 1) mod 256\<rparr>"
  have "queue_ok ?pushed" "queue_ok (q\<lparr>q_dropped := q_dropped q + 1\<rparr>)"
    using ok by (auto simp: queue_ok_def index_succ)
  then show "\<exists>q'. queue_push q x = Ok q' \<and> queue_ok q' \<and>
      queue_contents q' = (if length (queue_contents q) < 255 then queue_contents q @ [x] else queue_contents q)"
    using queue_push_contents [OF ok, of x] by (simp add: queue_push_eq [OF ok]) (simp add: queue_contents_def)
next
  fix q
  assume "queue_ok q" "queue_contents q = []"
  then show "queue_pop q = Ok (None, q)"
    by (simp add: queue_pop_eq queue_empty_iff)
next
  fix q x xs
  assume ok: "queue_ok q" and front: "queue_contents q = x # xs"
  then have ne: "q_tail q \<noteq> q_head q"
    using queue_empty_iff [OF ok] by auto
  have "queue_ok (q\<lparr>q_tail := (q_tail q + 1) mod 256\<rparr>)"
    using ok by (auto simp: queue_ok_def index_succ)
  with ne front queue_pop_front [OF ok ne]
  show "\<exists>q'. queue_pop q = Ok (Some x, q') \<and> queue_ok q' \<and> queue_contents q' = xs"
    by (simp add: queue_pop_eq [OF ok])
next
  fix q
  assume "queue_ok q"
  then show "length (queue_contents q) \<le> 255"
    using ring_count_less [of "unat (q_head q)" 256 "unat (q_tail q)"] by (simp add: queue_contents_def queue_ok_def)
qed

end
