(* ===== verification/Keyboard_Race.thy ===== *)
theory Keyboard_Race
  imports Keyboard
begin

text \<open>
  The keyboard queue under interleaving. IRQ1 may preempt the shell between any two atomic accesses
  of \<open>pop\<close>; the model lets the accesses of \<open>push\<close> and of \<open>pop\<close> interleave in every way, one atomic
  access per step, as the source's acquire and release orderings make them appear. Two ghost
  fields record the events published by the producer and those returned to the shell. The indices
  are the values of the source's \<open>usize\<close> cells.
\<close>

section \<open>The step relation\<close>

text \<open>How far each side is: the local variables it holds.\<close>

datatype producer =
    P_Idle
  | P_Head key_event nat
  | P_Room key_event nat
  | P_Written key_event nat

datatype consumer =
    C_Idle
  | C_Tail nat
  | C_Some nat
  | C_Read nat key_event

record race =
  r_events :: "key_event list"
  r_head :: nat
  r_tail :: nat
  r_dropped :: usize
  producer :: producer
  consumer :: consumer
  sent :: "key_event list"
  received :: "key_event list"

inductive race_step :: "race \<Rightarrow> race \<Rightarrow> bool" where
  load_head: "producer s = P_Idle \<Longrightarrow> race_step s (s\<lparr>producer := P_Head e (r_head s)\<rparr>)"
| full: "producer s = P_Head e h \<Longrightarrow> Suc h mod 256 = r_tail s \<Longrightarrow>
    race_step s (s\<lparr>producer := P_Idle, r_dropped := r_dropped s + 1\<rparr>)"
| room: "producer s = P_Head e h \<Longrightarrow> Suc h mod 256 \<noteq> r_tail s \<Longrightarrow> race_step s (s\<lparr>producer := P_Room e h\<rparr>)"
| write_slot: "producer s = P_Room e h \<Longrightarrow>
    race_step s (s\<lparr>r_events := (r_events s)[h := e], producer := P_Written e h\<rparr>)"
| publish: "producer s = P_Written e h \<Longrightarrow>
    race_step s (s\<lparr>r_head := Suc h mod 256, producer := P_Idle, sent := sent s @ [e]\<rparr>)"
| load_tail: "consumer s = C_Idle \<Longrightarrow> race_step s (s\<lparr>consumer := C_Tail (r_tail s)\<rparr>)"
| empty: "consumer s = C_Tail t \<Longrightarrow> t = r_head s \<Longrightarrow> race_step s (s\<lparr>consumer := C_Idle\<rparr>)"
| some: "consumer s = C_Tail t \<Longrightarrow> t \<noteq> r_head s \<Longrightarrow> race_step s (s\<lparr>consumer := C_Some t\<rparr>)"
| read_slot: "consumer s = C_Some t \<Longrightarrow> race_step s (s\<lparr>consumer := C_Read t (r_events s ! t)\<rparr>)"
| release: "consumer s = C_Read t e \<Longrightarrow>
    race_step s (s\<lparr>r_tail := Suc t mod 256, consumer := C_Idle, received := received s @ [e]\<rparr>)"

definition race_init :: race where
  "race_init = \<lparr>r_events = replicate 256 Enter, r_head = 0, r_tail = 0, r_dropped = 0,
     producer = P_Idle, consumer = C_Idle, sent = [], received = []\<rparr>"

section \<open>The invariant\<close>

definition producer_ok :: "race \<Rightarrow> bool" where
  "producer_ok s =
     (case producer s of
        P_Idle \<Rightarrow> True
      | P_Head e h \<Rightarrow> h = r_head s
      | P_Room e h \<Rightarrow> h = r_head s \<and> Suc h mod 256 \<noteq> r_tail s
      | P_Written e h \<Rightarrow> h = r_head s \<and> Suc h mod 256 \<noteq> r_tail s \<and> r_events s ! h = e)"

definition consumer_ok :: "race \<Rightarrow> bool" where
  "consumer_ok s =
     (case consumer s of
        C_Idle \<Rightarrow> True
      | C_Tail t \<Rightarrow> t = r_tail s
      | C_Some t \<Rightarrow> t = r_tail s \<and> t \<noteq> r_head s
      | C_Read t e \<Rightarrow> t = r_tail s \<and> t \<noteq> r_head s \<and> e = r_events s ! t)"

definition in_flight :: "race \<Rightarrow> key_event list" where
  "in_flight s = ring_slice (r_events s) (r_tail s) (ring_count 256 (r_head s) (r_tail s))"

definition race_ok :: "race \<Rightarrow> bool" where
  "race_ok s \<longleftrightarrow> length (r_events s) = 256 \<and> r_head s < 256 \<and> r_tail s < 256 \<and>
     producer_ok s \<and> consumer_ok s \<and> sent s = received s @ in_flight s"

text \<open>Writing the free slot at the head changes nothing that is in flight.\<close>

lemma ring_slice_write_free:
  assumes "n < length xs"
  shows "ring_slice (xs[(t + n) mod length xs := x]) t n = ring_slice xs t n"
  using ring_distinct [of _ n "length xs" t, THEN not_sym] assms by (intro nth_equalityI) auto

lemma in_flight_write:
  assumes "length evs = 256" "h < 256" "t < 256"
  shows "ring_slice (evs[h := e]) t (ring_count 256 h t) = ring_slice evs t (ring_count 256 h t)"
  using ring_slice_write_free [of "ring_count 256 h t" evs t e] ring_slot [OF assms(2,3)]
    ring_count_less [OF assms(2,3)] assms(1) by simp

lemma in_flight_publish:
  assumes "length evs = 256" "h < 256" "t < 256" "Suc h mod 256 \<noteq> t"
  shows "ring_slice evs t (ring_count 256 (Suc h mod 256) t) = ring_slice evs t (ring_count 256 h t) @ [evs ! h]"
  using ring_slice_snoc [of "ring_count 256 h t" evs t "evs ! h"] ring_slot [OF assms(2,3)]
    ring_count_less [OF assms(2,3)] ring_count_push [OF assms(2-4)] assms(1) by simp

lemma in_flight_release:
  assumes "length evs = 256" "h < 256" "t < 256" "t \<noteq> h"
  shows "ring_slice evs t (ring_count 256 h t) = evs ! t # ring_slice evs (Suc t mod 256) (ring_count 256 h (Suc t mod 256))"
  using ring_slice_Cons [of evs t "ring_count 256 h (Suc t mod 256)"] ring_count_pop [OF assms(2-4)] assms(1,3)
  by simp

lemma suc_mod_inj: "a < m \<Longrightarrow> b < m \<Longrightarrow> Suc a mod m = Suc b mod m \<longleftrightarrow> a = b"
  by (auto simp: suc_mod split: if_splits)

lemmas race_defs = race_ok_def producer_ok_def consumer_ok_def in_flight_def

lemma race_step_ok: "race_step s s' \<Longrightarrow> race_ok s \<Longrightarrow> race_ok s'"
proof (induction rule: race_step.induct)
  case (write_slot s e h)
  then show ?case
    by (auto simp: race_defs in_flight_write split: consumer.splits)
next
  case (publish s e h)
  then show ?case
    by (auto simp: race_defs in_flight_publish split: consumer.splits)
next
  case (release s t e)
  then show ?case
    by (auto simp: race_defs in_flight_release suc_mod_inj split: producer.splits)
qed (auto simp: race_defs split: producer.splits consumer.splits)

lemma race_init_ok: "race_ok race_init"
  by (simp add: race_defs race_init_def ring_count_def)

lemma race_reachable_ok: "race_step\<^sup>*\<^sup>* race_init s \<Longrightarrow> race_ok s"
  by (induction rule: rtranclp_induct) (auto simp: race_init_ok race_step_ok)

section \<open>Uninterrupted calls\<close>

text \<open>
  Run without interruption, the steps of the producer are \<open>queue_push\<close> and those of the consumer
  \<open>queue_pop\<close>.
\<close>

definition race_of :: "input_queue \<Rightarrow> key_event list \<Rightarrow> key_event list \<Rightarrow> race" where
  "race_of q ss rs = \<lparr>r_events = q_events q, r_head = unat (q_head q), r_tail = unat (q_tail q),
     r_dropped = q_dropped q, producer = P_Idle, consumer = C_Idle, sent = ss, received = rs\<rparr>"

lemma push_steps:
  assumes "queue_ok q"
  shows "\<exists>q' ss'. queue_push q e = Ok q' \<and> race_step\<^sup>*\<^sup>* (race_of q ss rs) (race_of q' ss' rs)"
proof -
  let ?s = "race_of q ss rs" and ?h = "unat (q_head q)" and ?t = "unat (q_tail q)"
  have range: "?h < 256" "?t < 256"
    using assms by (auto simp: queue_ok_def)
  have s1: "race_step ?s (?s\<lparr>producer := P_Head e ?h\<rparr>)"
    using race_step.load_head [of ?s e] by (simp add: race_of_def)
  show ?thesis
  proof (cases "Suc ?h mod 256 = ?t")
    case True
    then have "queue_push q e = Ok (q\<lparr>q_dropped := q_dropped q + 1\<rparr>)"
      using queue_push_eq [OF assms, of e] ring_full_iff [OF range] by (simp add: queue_contents_def)
    moreover have "race_step (?s\<lparr>producer := P_Head e ?h\<rparr>) (race_of (q\<lparr>q_dropped := q_dropped q + 1\<rparr>) ss rs)"
      using race_step.full [of "?s\<lparr>producer := P_Head e ?h\<rparr>" e ?h] True by (simp add: race_of_def)
    ultimately show ?thesis
      using s1 by (meson rtranclp.rtrancl_into_rtrancl r_into_rtranclp)
  next
    case False
    let ?q' = "q\<lparr>q_events := (q_events q)[?h := e], q_head := (q_head q + 1) mod 256\<rparr>"
    have "queue_push q e = Ok ?q'"
      using queue_push_eq [OF assms, of e] ring_full_iff [OF range] ring_count_less [OF range] False
      by (auto simp: queue_contents_def)
    moreover have "race_step (?s\<lparr>producer := P_Head e ?h\<rparr>) (?s\<lparr>producer := P_Room e ?h\<rparr>)"
      using race_step.room [of "?s\<lparr>producer := P_Head e ?h\<rparr>" e ?h] False by (simp add: race_of_def)
    moreover have "race_step (?s\<lparr>producer := P_Room e ?h\<rparr>)
        (?s\<lparr>r_events := (q_events q)[?h := e], producer := P_Written e ?h\<rparr>)"
      using race_step.write_slot [of "?s\<lparr>producer := P_Room e ?h\<rparr>" e ?h] by (simp add: race_of_def)
    moreover have "race_step (?s\<lparr>r_events := (q_events q)[?h := e], producer := P_Written e ?h\<rparr>)
        (race_of ?q' (ss @ [e]) rs)"
      using race_step.publish [of "?s\<lparr>r_events := (q_events q)[?h := e], producer := P_Written e ?h\<rparr>" e ?h]
      by (simp add: race_of_def index_succ [OF range(1)])
    ultimately show ?thesis
      using s1 by (meson rtranclp.rtrancl_into_rtrancl r_into_rtranclp)
  qed
qed

lemma pop_steps:
  assumes "queue_ok q"
  shows "\<exists>e q' rs'. queue_pop q = Ok (e, q') \<and> race_step\<^sup>*\<^sup>* (race_of q ss rs) (race_of q' ss rs')"
proof -
  let ?s = "race_of q ss rs" and ?t = "unat (q_tail q)"
  have range: "?t < 256"
    using assms by (auto simp: queue_ok_def)
  have s1: "race_step ?s (?s\<lparr>consumer := C_Tail ?t\<rparr>)"
    using race_step.load_tail [of ?s] by (simp add: race_of_def)
  show ?thesis
  proof (cases "q_tail q = q_head q")
    case True
    then have "queue_pop q = Ok (None, q)"
      by (simp add: queue_pop_eq [OF assms])
    moreover have "race_step (?s\<lparr>consumer := C_Tail ?t\<rparr>) ?s"
      using race_step.empty [of "?s\<lparr>consumer := C_Tail ?t\<rparr>" ?t] True by (simp add: race_of_def)
    ultimately show ?thesis
      by blast
  next
    case False
    let ?e = "q_events q ! ?t" and ?q' = "q\<lparr>q_tail := (q_tail q + 1) mod 256\<rparr>"
    have "queue_pop q = Ok (Some ?e, ?q')"
      using False by (simp add: queue_pop_eq [OF assms])
    moreover have "race_step (?s\<lparr>consumer := C_Tail ?t\<rparr>) (?s\<lparr>consumer := C_Some ?t\<rparr>)"
      using race_step.some [of "?s\<lparr>consumer := C_Tail ?t\<rparr>" ?t] False by (simp add: race_of_def word_unat_eq_iff)
    moreover have "race_step (?s\<lparr>consumer := C_Some ?t\<rparr>) (?s\<lparr>consumer := C_Read ?t ?e\<rparr>)"
      using race_step.read_slot [of "?s\<lparr>consumer := C_Some ?t\<rparr>" ?t] by (simp add: race_of_def)
    moreover have "race_step (?s\<lparr>consumer := C_Read ?t ?e\<rparr>) (race_of ?q' ss (rs @ [?e]))"
      using race_step.release [of "?s\<lparr>consumer := C_Read ?t ?e\<rparr>" ?t ?e]
      by (simp add: race_of_def index_succ [OF range])
    ultimately show ?thesis
      using s1 by (meson rtranclp.rtrancl_into_rtrancl r_into_rtranclp)
  qed
qed

section \<open>Properties\<close>

text \<open>
  C9. In every interleaving of the interrupt handler and the shell: the events returned to the
  shell are a prefix of the events published, with at most 255 in between; the slot the producer is
  about to write is never the slot the consumer is about to read; and the event the consumer has
  read is the oldest not yet returned.
\<close>

theorem queue_race_free:
  assumes "race_step\<^sup>*\<^sup>* race_init s"
  shows "(\<exists>pending. sent s = received s @ pending \<and> length pending \<le> 255 \<and>
       (\<forall>t e. consumer s = C_Read t e \<longrightarrow> pending \<noteq> [] \<and> e = hd pending)) \<and>
     (\<forall>e h t. producer s = P_Room e h \<longrightarrow> consumer s = C_Some t \<longrightarrow> h \<noteq> t \<and> h < 256 \<and> t < 256)"
proof -
  have ok: "race_ok s"
    by (rule race_reachable_ok [OF assms])
  have "length (in_flight s) \<le> 255"
    using ok ring_count_less [of "r_head s" 256 "r_tail s"] by (simp add: race_ok_def in_flight_def)
  moreover have "in_flight s \<noteq> [] \<and> e = hd (in_flight s)" if "consumer s = C_Read t e" for t e
    using ok that in_flight_release [of "r_events s" "r_head s" "r_tail s"] by (simp add: race_defs)
  ultimately show ?thesis
    using ok by (auto simp: race_ok_def producer_ok_def consumer_ok_def)
qed

text \<open>Witness of C9: the producer has checked for room, the consumer has not started.\<close>

theorem queue_race_free_witness:
  "\<exists>s. race_step\<^sup>*\<^sup>* race_init s \<and> producer s = P_Room Tab 0 \<and> received s = [] \<and> length (sent s) \<le> 255"
proof -
  let ?s1 = "race_init\<lparr>producer := P_Head Tab 0\<rparr>" and ?s2 = "race_init\<lparr>producer := P_Room Tab 0\<rparr>"
  have "race_step race_init ?s1"
    using race_step.load_head [of race_init Tab] by (simp add: race_init_def)
  moreover have "race_step ?s1 ?s2"
    using race_step.room [of ?s1 Tab 0] by (simp add: race_init_def)
  ultimately have "race_step\<^sup>*\<^sup>* race_init ?s2"
    by (meson rtranclp.rtrancl_into_rtrancl r_into_rtranclp)
  moreover have "length (sent ?s2) \<le> 255"
    using queue_race_free [OF \<open>race_step\<^sup>*\<^sup>* race_init ?s2\<close>] by (auto simp: race_init_def)
  ultimately show ?thesis
    by (intro exI [of _ ?s2]) (simp add: race_init_def)
qed

end
