(* ===== verification/Allocator.thy ===== *)
theory Allocator
  imports Prelude
begin

text \<open>
  The kernel heap (\<open>kernel/src/allocator.rs\<close>): a bump allocator whose state is three atomic words.
  A pointer is its address, the null pointer is 0. \<open>alloc\<close> retries its compare-and-exchange; the
  retries are driven by \<open>spurious\<close>, which tells for each attempt whether the weak exchange fails
  for no reason, and not returning is the value \<open>None\<close>. The step relation \<open>heap_step\<close> lets any
  number of contexts allocate at once, one atomic access per step.
\<close>

section \<open>Definitions\<close>

record bump =
  b_start :: usize
  b_end :: usize
  b_next :: usize

text \<open>\<open>core::alloc::Layout\<close>, with the conditions its constructor guarantees.\<close>

record layout =
  l_size :: usize
  l_align :: usize

definition layout_ok :: "layout \<Rightarrow> bool" where
  "layout_ok l \<longleftrightarrow> is_power_of_two (l_align l) \<and> unat (l_size l) + unat (l_align l) \<le> 2 ^ 63"

definition bump_new :: bump where
  "bump_new = \<lparr>b_start = 0, b_end = 0, b_next = 0\<rparr>"

definition bump_init :: "bump \<Rightarrow> usize \<Rightarrow> usize \<Rightarrow> bump may_panic" where
  "bump_init a heap_start heap_size =
     obind (or_panic (checked_add heap_start heap_size)) (\<lambda>heap_end.
     if b_start a \<noteq> 0 then Panic
     else Ok (a\<lparr>b_start := heap_start, b_end := heap_end, b_next := heap_start\<rparr>))"

definition bump_capacity :: "bump \<Rightarrow> usize" where
  "bump_capacity a = saturating_sub (b_end a) (b_start a)"

definition bump_used :: "bump \<Rightarrow> usize" where
  "bump_used a = saturating_sub (b_next a) (b_start a)"

text \<open>
  One turn of the loop in \<open>alloc\<close>, up to the exchange: the aligned address and the new value of
  \<open>next\<close>, or \<open>None\<close> where the source returns the null pointer.
\<close>

definition alloc_attempt :: "usize \<Rightarrow> layout \<Rightarrow> usize \<Rightarrow> (usize \<times> usize) option" where
  "alloc_attempt end layout current =
     (let align_mask = l_align layout - 1 in
      case checked_add current align_mask of
        None \<Rightarrow> None
      | Some value \<Rightarrow>
          let aligned = value AND NOT align_mask in
          (case checked_add aligned (l_size layout) of
             None \<Rightarrow> None
           | Some allocation_end \<Rightarrow>
               if current = 0 \<or> allocation_end > end then None else Some (aligned, allocation_end)))"

partial_function (option) alloc_loop :: "(nat \<Rightarrow> bool) \<Rightarrow> nat \<Rightarrow> bump \<Rightarrow> layout \<Rightarrow> (usize \<times> bump) option" where
  "alloc_loop spurious n a layout =
     (case alloc_attempt (b_end a) layout (b_next a) of
        None \<Rightarrow> Some (0, a)
      | Some (aligned, allocation_end) \<Rightarrow>
          if spurious n then alloc_loop spurious (Suc n) a layout
          else Some (aligned, a\<lparr>b_next := allocation_end\<rparr>))"

text \<open>\<open>layout.align() - 1\<close> is computed before the loop and traps on a zero alignment.\<close>

definition alloc :: "(nat \<Rightarrow> bool) \<Rightarrow> bump \<Rightarrow> layout \<Rightarrow> (usize \<times> bump) may_panic option" where
  "alloc spurious a layout =
     (case (sub_ov (l_align layout) 1 :: usize may_panic) of
        Ok _ \<Rightarrow> map_option Ok (alloc_loop spurious 0 a layout)
      | _ \<Rightarrow> Some Panic)"

definition dealloc :: "bump \<Rightarrow> usize \<Rightarrow> layout \<Rightarrow> bump" where
  "dealloc a p layout = a"

text \<open>\<open>write_bytes(0, n)\<close> clears \<open>n\<close> bytes of memory from an address.\<close>

definition write_zero_bytes :: "usize \<Rightarrow> usize \<Rightarrow> (usize \<Rightarrow> u8) \<Rightarrow> (usize \<Rightarrow> u8)" where
  "write_zero_bytes p n mem = (\<lambda>x. if unat p \<le> unat x \<and> unat x < unat p + unat n then 0 else mem x)"

definition alloc_zeroed ::
    "(nat \<Rightarrow> bool) \<Rightarrow> bump \<Rightarrow> layout \<Rightarrow> (usize \<Rightarrow> u8) \<Rightarrow> (usize \<times> bump \<times> (usize \<Rightarrow> u8)) may_panic option" where
  "alloc_zeroed spurious a layout mem =
     map_option (\<lambda>r. obind r (\<lambda>(p, a').
       Ok (p, a', if p \<noteq> 0 then write_zero_bytes p (l_size layout) mem else mem)))
     (alloc spurious a layout)"

section \<open>One attempt\<close>

definition align_up_to :: "nat \<Rightarrow> nat \<Rightarrow> nat" where
  "align_up_to a n = (n + a - 1) div a * a"

lemma align_up_to_bounds: "0 < a \<Longrightarrow> n \<le> align_up_to a n \<and> align_up_to a n < n + a \<and> a dvd align_up_to a n"
proof -
  assume "0 < a"
  define r where "r = (n + a - 1) mod a"
  have "align_up_to a n = n + a - 1 - r"
    by (simp add: align_up_to_def r_def minus_mod_eq_div_mult [symmetric])
  moreover have "r < a"
    using \<open>0 < a\<close> by (simp add: r_def)
  moreover have "a dvd align_up_to a n"
    by (simp add: align_up_to_def)
  ultimately show ?thesis
    by auto
qed

text \<open>
  On the values of the words: an attempt succeeds exactly when the aligned block fits below the end
  of an initialised heap; overflow of the address computation is one of the ways not to fit.
\<close>

lemma alloc_attempt_iff:
  assumes "layout_ok l"
  shows "alloc_attempt end l cur = Some (p, e) \<longleftrightarrow>
    cur \<noteq> 0 \<and> unat p = align_up_to (unat (l_align l)) (unat cur) \<and> unat e = unat p + unat (l_size l) \<and>
    unat e \<le> unat end \<and> unat cur + unat (l_align l) - 1 < 2 ^ 64"
proof -
  obtain k where k: "unat (l_align l) = 2 ^ k"
    using assms by (auto simp: layout_ok_def is_power_of_two_iff)
  have mask: "l_align l - 1 = mask k"
    by (rule mask_of_power [OF k])
  have pos: "0 < unat (l_align l)"
    by (simp add: k)
  then have um: "unat (mask k :: usize) = unat (l_align l) - 1"
    using mask by (metis Suc_leI One_nat_def unat_sub word_le_nat_alt unsigned_1)
  have al: "unat (v AND NOT (mask k)) = align_up_to (unat (l_align l)) (unat cur)"
    if "checked_add cur (mask k) = Some v" for v :: usize
    using that pos by (simp add: checked_add_Some_iff unat_and_not_mask um align_up_to_def k minus_mod_eq_div_mult)
  have "alloc_attempt end l cur = Some (p, e) \<longleftrightarrow>
    (\<exists>v. checked_add cur (mask k) = Some v \<and> p = v AND NOT (mask k) \<and> checked_add p (l_size l) = Some e \<and>
      cur \<noteq> 0 \<and> \<not> end < e)"
    by (auto simp: alloc_attempt_def mask Let_def split: option.splits if_splits)
  also have "\<dots> \<longleftrightarrow> cur \<noteq> 0 \<and> unat p = align_up_to (unat (l_align l)) (unat cur) \<and>
    unat e = unat p + unat (l_size l) \<and> unat e \<le> unat end \<and> unat cur + unat (l_align l) - 1 < 2 ^ 64"
  proof (cases "checked_add cur (mask k)")
    case None
    then have "2 ^ 64 \<le> unat cur + unat (mask k :: usize)"
      by (simp add: checked_add_None_iff)
    with None pos show ?thesis
      by (simp add: um)
  next
    case (Some v)
    then have "unat cur + unat (l_align l) - 1 < 2 ^ 64"
      using unat_bounds(4) [of v] pos by (simp add: checked_add_Some_iff um)
    moreover have "p = v AND NOT (mask k) \<longleftrightarrow> unat p = align_up_to (unat (l_align l)) (unat cur)"
      by (simp add: word_unat_eq_iff al [OF Some])
    ultimately show ?thesis
      by (auto simp: Some checked_add_Some_iff word_less_nat_alt)
  qed
  finally show ?thesis .
qed

lemma alloc_attempt_block:
  assumes "layout_ok l" "alloc_attempt end l cur = Some (p, e)"
  shows "unat cur \<le> unat p" "unat e = unat p + unat (l_size l)" "unat e \<le> unat end"
    "unat (l_align l) dvd unat p" "p \<noteq> 0"
proof -
  have pos: "0 < unat (l_align l)"
    using assms(1) by (auto simp: layout_ok_def is_power_of_two_iff)
  note at = assms(2) [unfolded alloc_attempt_iff [OF assms(1)]]
  show "unat cur \<le> unat p" "unat e = unat p + unat (l_size l)" "unat e \<le> unat end" "unat (l_align l) dvd unat p"
    using at align_up_to_bounds [OF pos, of "unat cur"] by auto
  then show "p \<noteq> 0"
    using at by (auto simp: unat_eq_zero)
qed

lemma alloc_loop_eq:
  assumes "\<not> spurious m" "n \<le> m"
  shows "alloc_loop spurious n a l = Some
    (case alloc_attempt (b_end a) l (b_next a) of
       None \<Rightarrow> (0, a) | Some (aligned, allocation_end) \<Rightarrow> (aligned, a\<lparr>b_next := allocation_end\<rparr>))"
  using assms(2)
proof (induction "m - n" arbitrary: n)
  case 0
  with assms show ?case
    by (subst alloc_loop.simps) (auto split: option.split)
next
  case (Suc d)
  show ?case
    by (subst alloc_loop.simps) (use Suc in \<open>auto split: option.split\<close>)
qed

section \<open>Interleaved allocations\<close>

text \<open>
  Each context (a thread, or a handler that interrupts another context) is idle, about to read
  \<open>next\<close>, or holds the value it read. \<open>blocks\<close> records the allocations made, newest first.
\<close>

datatype alloc_context = Idle | Retry layout | Loaded layout usize

record heap =
  bump :: bump
  contexts :: "nat \<Rightarrow> alloc_context"
  blocks :: "(usize \<times> layout) list"

inductive heap_step :: "heap \<Rightarrow> heap \<Rightarrow> bool" where
  call: "contexts h i = Idle \<Longrightarrow> layout_ok l \<Longrightarrow> heap_step h (h\<lparr>contexts := (contexts h)(i := Retry l)\<rparr>)"
| load: "contexts h i = Retry l \<Longrightarrow>
    heap_step h (h\<lparr>contexts := (contexts h)(i := Loaded l (b_next (bump h)))\<rparr>)"
| null: "contexts h i = Loaded l cur \<Longrightarrow> alloc_attempt (b_end (bump h)) l cur = None \<Longrightarrow>
    heap_step h (h\<lparr>contexts := (contexts h)(i := Idle)\<rparr>)"
| exchange: "contexts h i = Loaded l cur \<Longrightarrow> alloc_attempt (b_end (bump h)) l cur = Some (p, e) \<Longrightarrow>
    b_next (bump h) = cur \<Longrightarrow>
    heap_step h (h\<lparr>bump := (bump h)\<lparr>b_next := e\<rparr>, contexts := (contexts h)(i := Idle), blocks := (p, l) # blocks h\<rparr>)"
| retry: "contexts h i = Loaded l cur \<Longrightarrow> alloc_attempt (b_end (bump h)) l cur = Some (p, e) \<Longrightarrow>
    heap_step h (h\<lparr>contexts := (contexts h)(i := Retry l)\<rparr>)"

definition block_end :: "usize \<times> layout \<Rightarrow> nat" where
  "block_end = (\<lambda>(p, l). unat p + unat (l_size l))"

text \<open>Blocks are stacked: each starts at or after the end of the one before it.\<close>

fun stacked :: "nat \<Rightarrow> nat \<Rightarrow> (usize \<times> layout) list \<Rightarrow> bool" where
  "stacked lo hi [] = (lo \<le> hi)"
| "stacked lo hi (bl # bs) =
     (block_end bl \<le> hi \<and> unat (l_align (snd bl)) dvd unat (fst bl) \<and> stacked lo (unat (fst bl)) bs)"

definition context_ok :: "alloc_context \<Rightarrow> bool" where
  "context_ok c = (case c of Idle \<Rightarrow> True | Retry l \<Rightarrow> layout_ok l | Loaded l cur \<Rightarrow> layout_ok l)"

definition heap_ok :: "heap \<Rightarrow> bool" where
  "heap_ok h \<longleftrightarrow> (\<forall>i. context_ok (contexts h i)) \<and> unat (b_next (bump h)) \<le> unat (b_end (bump h)) \<and>
     stacked (unat (b_start (bump h))) (unat (b_next (bump h))) (blocks h)"

lemma stacked_mono: "stacked lo hi bs \<Longrightarrow> hi \<le> hi' \<Longrightarrow> stacked lo hi' bs"
  by (cases bs) auto

lemma heap_context: "heap_ok h \<Longrightarrow> context_ok (contexts h i)"
  by (simp add: heap_ok_def)

lemma context_layout:
  "heap_ok h \<Longrightarrow> contexts h i = Retry l \<Longrightarrow> layout_ok l"
  "heap_ok h \<Longrightarrow> contexts h i = Loaded l cur \<Longrightarrow> layout_ok l"
  using heap_context [of h i] by (simp_all add: context_ok_def)

lemma contexts_update:
  "heap_ok h \<Longrightarrow> context_ok c \<Longrightarrow> heap_ok (h\<lparr>contexts := (contexts h)(i := c)\<rparr>)"
  by (simp add: heap_ok_def)

lemma heap_step_ok: "heap_step h h' \<Longrightarrow> heap_ok h \<Longrightarrow> heap_ok h'"
proof (induction rule: heap_step.induct)
  case (exchange h i l cur p e)
  note block = alloc_attempt_block [OF context_layout(2) [OF exchange.prems exchange(1)] exchange(2)]
  have "stacked (unat (b_start (bump h))) (unat p) (blocks h)"
    using exchange block by (auto simp: heap_ok_def elim: stacked_mono)
  with exchange block show ?case
    by (simp add: heap_ok_def context_ok_def block_end_def)
qed (simp_all add: contexts_update context_ok_def context_layout)

text \<open>Stacked blocks lie between their bounds and do not overlap.\<close>

lemma stacked_bounds:
  "stacked lo hi bs \<Longrightarrow> lo \<le> hi"
  "stacked lo hi bs \<Longrightarrow> bl \<in> set bs \<Longrightarrow> lo \<le> unat (fst bl) \<and> block_end bl \<le> hi \<and> unat (l_align (snd bl)) dvd unat (fst bl)"
proof (induction bs arbitrary: hi)
  case Nil
  { case 1 then show ?case by simp next case 2 then show ?case by simp }
next
  case (Cons b bs)
  have "unat (fst b) \<le> block_end b"
    by (simp add: block_end_def split: prod.split)
  { case 1
    with Cons.IH(1) [of "unat (fst b)"] \<open>unat (fst b) \<le> block_end b\<close> show ?case by simp
  next
    case 2
    with Cons.IH [of "unat (fst b)"] \<open>unat (fst b) \<le> block_end b\<close> show ?case by fastforce }
qed

lemma stacked_disjoint:
  "stacked lo hi bs \<Longrightarrow> i < j \<Longrightarrow> j < length bs \<Longrightarrow> block_end (bs ! j) \<le> unat (fst (bs ! i))"
proof (induction bs arbitrary: hi i j)
  case Nil
  then show ?case by simp
next
  case (Cons b bs)
  obtain j' where j: "j = Suc j'"
    using Cons.prems by (cases j) auto
  show ?case
  proof (cases i)
    case 0
    with Cons.prems j stacked_bounds(2) [of lo "unat (fst b)" bs "bs ! j'"] show ?thesis
      by simp
  next
    case (Suc i')
    with Cons.prems j Cons.IH [of "unat (fst b)" i' j'] show ?thesis
      by simp
  qed
qed

definition heap_new :: "bump \<Rightarrow> heap" where
  "heap_new a = \<lparr>bump = a, contexts = (\<lambda>_. Idle), blocks = []\<rparr>"

lemma heap_bounds_kept:
  "heap_step\<^sup>*\<^sup>* h h' \<Longrightarrow> b_start (bump h') = b_start (bump h) \<and> b_end (bump h') = b_end (bump h)"
  by (induction rule: rtranclp_induct) (auto elim: heap_step.cases)

lemma heap_reachable_ok: "heap_step\<^sup>*\<^sup>* h h' \<Longrightarrow> heap_ok h \<Longrightarrow> heap_ok h'"
  by (induction rule: rtranclp_induct) (auto intro: heap_step_ok)

lemma bump_init_Ok:
  assumes "bump_init a hs n = Ok a'"
  shows "b_start a' = hs" "b_next a' = hs" "unat (b_end a') = unat hs + unat n"
  using assms by (auto simp: bump_init_def obind_Ok_iff checked_add_Some_iff split: if_splits)

text \<open>A block that fits is found: the address computation cannot overflow below the heap's end.\<close>

lemma aligned_no_overflow:
  assumes "layout_ok l" "align_up_to (unat (l_align l)) (unat cur) \<le> unat (end :: usize)"
  shows "unat (cur :: usize) + unat (l_align l) - 1 < 2 ^ 64"
proof -
  obtain k where k: "unat (l_align l) = 2 ^ k"
    using assms(1) by (auto simp: layout_ok_def is_power_of_two_iff)
  let ?p = "align_up_to (2 ^ k) (unat cur)"
  have p: "unat cur \<le> ?p" "2 ^ k dvd ?p" "?p < 2 ^ 64"
    using align_up_to_bounds [of "2 ^ k" "unat cur"] assms(2) unat_bounds(4) [of "end"] by (simp_all add: k)
  have "(2 :: nat) ^ k \<le> 2 ^ 63"
    using assms(1) by (simp add: layout_ok_def k)
  then have "k \<le> 63"
    by (rule power_le_imp_le_exp [rotated]) simp
  then have "(2 :: nat) ^ k dvd 2 ^ 64"
    by (intro le_imp_power_dvd) simp
  with p have "2 ^ k dvd 2 ^ 64 - ?p" "0 < 2 ^ 64 - ?p"
    by (simp_all add: dvd_diff_nat)
  then have "2 ^ k \<le> 2 ^ 64 - ?p"
    by (rule dvd_imp_le)
  with p show ?thesis
    by (simp add: k)
qed

lemma alloc_attempt_eq:
  assumes "layout_ok l"
  shows "alloc_attempt end l cur =
    (let p = align_up_to (unat (l_align l)) (unat cur) in
     if cur \<noteq> 0 \<and> p + unat (l_size l) \<le> unat end then Some (of_nat p, of_nat (p + unat (l_size l))) else None)"
proof -
  let ?p = "align_up_to (unat (l_align l)) (unat cur)"
  show ?thesis
  proof (cases "cur \<noteq> 0 \<and> ?p + unat (l_size l) \<le> unat end")
    case True
    then have "?p + unat (l_size l) < 2 ^ 64"
      using unat_bounds(4) [of "end"] by linarith
    then have "unat (of_nat ?p :: usize) = ?p" "unat (of_nat (?p + unat (l_size l)) :: usize) = ?p + unat (l_size l)"
      by (simp_all add: unat_of_nat_small del: of_nat_add)
    then have "alloc_attempt end l cur = Some (of_nat ?p, of_nat (?p + unat (l_size l)))"
      using True aligned_no_overflow [OF assms, of cur "end"]
      by (simp add: alloc_attempt_iff [OF assms] del: of_nat_add)
    with True show ?thesis
      by (simp add: Let_def)
  next
    case False
    then have "alloc_attempt end l cur \<noteq> Some (q, e)" for q e
      by (auto simp: alloc_attempt_iff [OF assms])
    with False show ?thesis
      by (cases "alloc_attempt end l cur") (auto simp: Let_def)
  qed
qed

lemma alloc_run:
  assumes "layout_ok l" "\<not> spurious m"
  shows "alloc spurious a l = Some (Ok (case alloc_attempt (b_end a) l (b_next a) of
    None \<Rightarrow> (0, a) | Some (aligned, allocation_end) \<Rightarrow> (aligned, a\<lparr>b_next := allocation_end\<rparr>)))"
proof -
  have "0 < unat (l_align l)"
    using assms(1) by (auto simp: layout_ok_def is_power_of_two_iff)
  then have "sub_ov (l_align l) 1 = (Ok (l_align l - 1) :: usize may_panic)"
    by (simp add: ov_Ok_iff unat_sub word_le_nat_alt Suc_le_eq)
  then show ?thesis
    using alloc_loop_eq [of spurious m 0, OF assms(2)] by (simp add: alloc_def)
qed

section \<open>Properties\<close>

text \<open>
  C38. An allocation returns as soon as one exchange does not fail spuriously. It returns null,
  leaving the heap as it was, exactly when the heap is not initialised or the block, placed at the
  next aligned address, does not end within the heap; otherwise it returns that address and \<open>next\<close>
  becomes the end of the block. No overflow of the address computation changes the answer.
\<close>

theorem alloc_exact:
  assumes "layout_ok l" "\<not> spurious m"
  shows "alloc spurious a l =
    (let p = align_up_to (unat (l_align l)) (unat (b_next a)) in
     if b_next a \<noteq> 0 \<and> p + unat (l_size l) \<le> unat (b_end a)
     then Some (Ok (of_nat p, a\<lparr>b_next := of_nat (p + unat (l_size l))\<rparr>))
     else Some (Ok (0, a)))"
  by (simp add: alloc_run [of l spurious m, OF assms] alloc_attempt_eq [OF assms(1)] Let_def)

text \<open>Witness of C38: 24 bytes aligned to 16 in a heap whose next free address is 0x1004, after one spurious failure.\<close>

theorem alloc_exact_witness:
  "alloc (\<lambda>n. n = 0) \<lparr>b_start = 0x1000, b_end = 0x2000, b_next = 0x1004\<rparr> \<lparr>l_size = 24, l_align = 16\<rparr> =
     Some (Ok (0x1010, \<lparr>b_start = 0x1000, b_end = 0x2000, b_next = 0x1028\<rparr>))"
proof -
  have "layout_ok \<lparr>l_size = 24, l_align = 16\<rparr>"
    by (simp add: layout_ok_def is_power_of_two_def)
  from alloc_exact [OF this, of "\<lambda>n. n = 0" 1 "\<lparr>b_start = 0x1000, b_end = 0x2000, b_next = 0x1004\<rparr>"] show ?thesis
    by (simp add: align_up_to_def)
qed

text \<open>
  C18. However the allocations of any number of contexts interleave, the blocks handed out by an
  initialised heap are aligned, lie inside the heap, and do not overlap; and the used size never
  exceeds the capacity, which is the size the heap was given.
\<close>

theorem heap_blocks_disjoint:
  assumes "bump_init bump_new hs n = Ok a" "heap_step\<^sup>*\<^sup>* (heap_new a) h"
  shows "(\<forall>i < length (blocks h). unat hs \<le> unat (fst (blocks h ! i)) \<and>
        block_end (blocks h ! i) \<le> unat hs + unat n \<and>
        unat (l_align (snd (blocks h ! i))) dvd unat (fst (blocks h ! i)) \<and>
        (\<forall>j < length (blocks h). i \<noteq> j \<longrightarrow>
           block_end (blocks h ! i) \<le> unat (fst (blocks h ! j)) \<or>
           block_end (blocks h ! j) \<le> unat (fst (blocks h ! i)))) \<and>
     bump_capacity (bump h) = n \<and> bump_used (bump h) \<le> bump_capacity (bump h)"
proof -
  note init = bump_init_Ok [OF assms(1)]
  have bounds: "b_start (bump h) = hs" "unat (b_end (bump h)) = unat hs + unat n"
    using heap_bounds_kept [OF assms(2)] init by (simp_all add: heap_new_def)
  have "heap_ok (heap_new a)"
    using init by (simp add: heap_ok_def heap_new_def context_ok_def)
  then have ok: "heap_ok h"
    by (rule heap_reachable_ok [OF assms(2)])
  then have st: "stacked (unat hs) (unat (b_next (bump h))) (blocks h)"
    and le: "unat (b_next (bump h)) \<le> unat hs + unat n"
    using bounds by (auto simp: heap_ok_def)
  have "bump_capacity (bump h) = n"
    by (simp add: bump_capacity_def word_unat_eq_iff bounds)
  moreover have "bump_used (bump h) \<le> bump_capacity (bump h)"
    using le by (simp add: bump_used_def bump_capacity_def word_le_nat_alt bounds)
  moreover have "block_end (blocks h ! i) \<le> unat (fst (blocks h ! j)) \<or> block_end (blocks h ! j) \<le> unat (fst (blocks h ! i))"
    if "i < length (blocks h)" "j < length (blocks h)" "i \<noteq> j" for i j
    using stacked_disjoint [OF st, of i j] stacked_disjoint [OF st, of j i] that by (cases "i < j") auto
  ultimately show ?thesis
    using stacked_bounds(2) [OF st nth_mem] le by (meson order_trans)
qed

text \<open>Witness of C18: one context allocates 8 bytes.\<close>

theorem heap_blocks_disjoint_witness:
  "\<exists>a h. bump_init bump_new 0x1000 0x100 = Ok a \<and> heap_step\<^sup>*\<^sup>* (heap_new a) h \<and>
     blocks h = [(0x1000, \<lparr>l_size = 8, l_align = 8\<rparr>)] \<and> bump_used (bump h) \<le> bump_capacity (bump h)"
proof -
  let ?l = "\<lparr>l_size = 8, l_align = 8\<rparr>" and ?a = "\<lparr>b_start = 0x1000, b_end = 0x1100, b_next = 0x1000\<rparr>"
  let ?h1 = "(heap_new ?a)\<lparr>contexts := (\<lambda>_. Idle)(0 := Retry ?l)\<rparr>"
  let ?h2 = "(heap_new ?a)\<lparr>contexts := (\<lambda>_. Idle)(0 := Loaded ?l 0x1000)\<rparr>"
  let ?h3 = "(heap_new ?a)\<lparr>bump := ?a\<lparr>b_next := 0x1008\<rparr>, contexts := (\<lambda>_. Idle)(0 := Idle), blocks := [(0x1000, ?l)]\<rparr>"
  have a: "bump_init bump_new 0x1000 0x100 = Ok ?a"
    by (simp add: bump_init_def bump_new_def checked_add_def)
  have "heap_step (heap_new ?a) ?h1"
    using heap_step.call [where h = "heap_new ?a" and i = 0 and l = ?l] by (simp add: heap_new_def layout_ok_def is_power_of_two_def)
  moreover have "heap_step ?h1 ?h2"
    using heap_step.load [where h = ?h1 and i = 0 and l = ?l] by (simp add: heap_new_def)
  moreover have "heap_step ?h2 ?h3"
    using heap_step.exchange [where h = ?h2 and i = 0 and l = ?l and p = "0x1000" and e = "0x1008"]
    by (simp add: heap_new_def alloc_attempt_def checked_add_def)
  ultimately have steps: "heap_step\<^sup>*\<^sup>* (heap_new ?a) ?h3"
    by (meson rtranclp.rtrancl_into_rtrancl r_into_rtranclp)
  then have "bump_used (bump ?h3) \<le> bump_capacity (bump ?h3)"
    using heap_blocks_disjoint [OF a steps] by blast
  with a steps show ?thesis
    by (intro exI [of _ ?a] exI [of _ ?h3]) simp
qed

text \<open>
  A zeroed allocation that succeeds clears exactly the bytes of its block, all of which lie at
  or above the old \<open>next\<close>: no byte of an earlier block changes.
\<close>

lemma alloc_zeroed_clears:
  assumes "layout_ok l" "alloc_zeroed spurious a l mem = Some (Ok (p, a', mem'))" "\<not> spurious m" "p \<noteq> 0"
  shows "unat (b_next a) \<le> unat p \<and> unat p + unat (l_size l) = unat (b_next a') \<and>
    (\<forall>x. mem' x = (if unat p \<le> unat x \<and> unat x < unat (b_next a') then 0 else mem x))"
proof (cases "alloc_attempt (b_end a) l (b_next a)")
  case None
  with assms show ?thesis
    by (simp add: alloc_zeroed_def alloc_run [of l spurious m, OF assms(1,3)])
next
  case (Some r)
  obtain q e where r: "r = (q, e)"
    by fastforce
  note block = alloc_attempt_block [OF assms(1) Some [unfolded r]]
  have "p = q" "a' = a\<lparr>b_next := e\<rparr>" "mem' = write_zero_bytes p (l_size l) mem"
    using assms(2,4) by (auto simp: alloc_zeroed_def alloc_run [of l spurious m, OF assms(1,3)] Some r)
  with block show ?thesis
    by (simp add: write_zero_bytes_def)
qed

end
