(* ===== verification/Memory.thy ===== *)
theory Memory
  imports Allocator
begin

text \<open>
  Physical frames and the kernel heap's pages (\<open>kernel/src/memory.rs\<close>). The memory map, the frame
  and page types and the page-table mapper belong to other crates and are parameters: \<open>usable\<close> is
  the region kind \<open>MemoryRegionKind::Usable\<close>, \<open>frame_of\<close> is \<open>PhysAddr::new\<close> followed by
  \<open>PhysFrame::containing_address\<close> (it panics on an address that is not physical), \<open>page_of\<close> is
  \<open>Page::containing_address\<close>, \<open>pages\<close> is \<open>Page::range_inclusive\<close>, \<open>map_to\<close> is
  \<open>Mapper::map_to\<close>. For \<open>memory::init\<close>, \<open>virt_add\<close> is the addition of an offset to a
  \<open>VirtAddr\<close> (\<open>None\<close> where it panics) and \<open>offset_page_table\<close> is \<open>OffsetPageTable::new\<close>, given the address of
  the level 4 table. The flush of the translation cache after \<open>map_to\<close> has no effect on the tables and is left out.
\<close>

section \<open>Definitions\<close>

definition HEAP_START :: usize where "HEAP_START = 0x555500000000"
definition HEAP_SIZE :: usize where "HEAP_SIZE = 2 * 1024 * 1024"

definition FRAME_SIZE :: u64 where "FRAME_SIZE = 4096"

text \<open>\<open>cr3\<close> is the physical address of the active level 4 table, which \<open>Cr3::read\<close> returns.\<close>

definition active_level_4_table :: "(u64 \<Rightarrow> u64 \<Rightarrow> u64 option) \<Rightarrow> u64 \<Rightarrow> u64 \<Rightarrow> u64 option" where
  "active_level_4_table virt_add cr3 physical_memory_offset = virt_add physical_memory_offset cr3"

definition memory_init :: "(u64 \<Rightarrow> u64 \<Rightarrow> u64 option) \<Rightarrow> (u64 \<Rightarrow> u64 \<Rightarrow> 'm) \<Rightarrow> u64 \<Rightarrow> u64 \<Rightarrow> 'm option" where
  "memory_init virt_add offset_page_table cr3 physical_memory_offset =
     Option.bind (active_level_4_table virt_add cr3 physical_memory_offset) (\<lambda>level_4_table.
     Some (offset_page_table level_4_table physical_memory_offset))"

record 'k region =
  rg_start :: u64
  rg_end :: u64
  rg_kind :: 'k

record 'k frame_allocator =
  memory_regions :: "'k region list"
  next_frame :: usize

definition frame_allocator_init :: "'k region list \<Rightarrow> 'k frame_allocator" where
  "frame_allocator_init regions = \<lparr>memory_regions = regions, next_frame = 0\<rparr>"

definition align_up :: "u64 \<Rightarrow> u64 \<Rightarrow> u64 may_panic" where
  "align_up value alignment =
     obind (add_ov value alignment) (\<lambda>sum.
     obind (sub_ov sum 1) (\<lambda>top.
     obind (sub_ov alignment 1) (\<lambda>mask. Ok (top AND NOT mask))))"

text \<open>\<open>(start..end).step_by(n)\<close>.\<close>

definition step_by :: "u64 \<Rightarrow> u64 \<Rightarrow> u64 \<Rightarrow> u64 list" where
  "step_by start end n =
     map (\<lambda>i. start + of_nat (i * unat n)) [0..<(unat end - unat start + unat n - 1) div unat n]"

text \<open>
  The iterator \<open>usable_frames\<close> is lazy: an item is computed when it is reached. It is the list of
  its items, where \<open>None\<close> is an item whose computation panics.
\<close>

definition region_items :: "(u64 \<Rightarrow> 'f option) \<Rightarrow> 'k region \<Rightarrow> 'f option list" where
  "region_items frame_of region =
     (case align_up (rg_start region) FRAME_SIZE of
        Ok start \<Rightarrow> map frame_of (step_by start (rg_end region AND NOT (FRAME_SIZE - 1)) FRAME_SIZE)
      | _ \<Rightarrow> [None])"

definition usable_frames :: "'k \<Rightarrow> (u64 \<Rightarrow> 'f option) \<Rightarrow> 'k frame_allocator \<Rightarrow> 'f option list" where
  "usable_frames usable frame_of fa =
     concat (map (region_items frame_of) (filter (\<lambda>region. rg_kind region = usable) (memory_regions fa)))"

text \<open>\<open>Iterator::nth\<close> and \<open>count\<close>.\<close>

fun iter_nth :: "'f option list \<Rightarrow> nat \<Rightarrow> 'f option may_panic" where
  "iter_nth [] n = Ok None"
| "iter_nth (None # items) n = Panic"
| "iter_nth (Some f # items) 0 = Ok (Some f)"
| "iter_nth (Some f # items) (Suc n) = iter_nth items n"

definition iter_count :: "'f option list \<Rightarrow> nat may_panic" where
  "iter_count items = (if list_ex (\<lambda>i. i = None) items then Panic else Ok (length items))"

definition usable_frame_count :: "'k \<Rightarrow> (u64 \<Rightarrow> 'f option) \<Rightarrow> 'k frame_allocator \<Rightarrow> nat may_panic" where
  "usable_frame_count usable frame_of fa = iter_count (usable_frames usable frame_of fa)"

definition allocated_frames :: "'k frame_allocator \<Rightarrow> usize" where
  "allocated_frames fa = next_frame fa"

definition allocate_frame ::
    "'k \<Rightarrow> (u64 \<Rightarrow> 'f option) \<Rightarrow> 'k frame_allocator \<Rightarrow> ('f option \<times> 'k frame_allocator) may_panic" where
  "allocate_frame usable frame_of fa =
     obind (iter_nth (usable_frames usable frame_of fa) (unat (next_frame fa))) (\<lambda>frame.
     obind (add_ov (next_frame fa) 1) (\<lambda>n. Ok (frame, fa\<lparr>next_frame := n\<rparr>)))"

text \<open>
  \<open>init_heap\<close>. \<open>map_to\<close> works on the mapper's state and on the frame allocator it is lent; \<open>exhausted\<close>
  is \<open>MapToError::FrameAllocationFailed\<close>.
\<close>

datatype page_flag = PRESENT | WRITABLE | NO_EXECUTE

fun map_pages ::
    "('s \<Rightarrow> ('f option \<times> 's) may_panic) \<Rightarrow>
     ('p \<Rightarrow> 'f \<Rightarrow> page_flag set \<Rightarrow> 'm \<times> 's \<Rightarrow> ('e, 'm \<times> 's) outcome) \<Rightarrow> 'e \<Rightarrow>
     'p list \<Rightarrow> 'm \<times> 's \<Rightarrow> ('e, 'm \<times> 's) outcome" where
  "map_pages allocate map_to exhausted [] (m, fa) = Ok (m, fa)"
| "map_pages allocate map_to exhausted (page # rest) (m, fa) =
     obind (expect_ok (allocate fa)) (\<lambda>(frame, fa').
     obind (ok_or frame exhausted) (\<lambda>frame.
     obind (map_to page frame {PRESENT, WRITABLE, NO_EXECUTE} (m, fa')) (\<lambda>s.
     map_pages allocate map_to exhausted rest s)))"

definition init_heap ::
    "'k \<Rightarrow> (u64 \<Rightarrow> 'f option) \<Rightarrow> (u64 \<Rightarrow> 'p) \<Rightarrow> ('p \<Rightarrow> 'p \<Rightarrow> 'p list) \<Rightarrow>
     ('p \<Rightarrow> 'f \<Rightarrow> page_flag set \<Rightarrow> 'm \<times> 'k frame_allocator \<Rightarrow> ('e, 'm \<times> 'k frame_allocator) outcome) \<Rightarrow> 'e \<Rightarrow>
     'm \<times> 'k frame_allocator \<Rightarrow> bump \<Rightarrow> ('e, ('m \<times> 'k frame_allocator) \<times> bump) outcome" where
  "init_heap usable frame_of page_of pages map_to exhausted s a =
     obind (sub_ov HEAP_SIZE 1) (\<lambda>extent.
     obind (add_ov HEAP_START extent) (\<lambda>heap_end.
     obind (map_pages (allocate_frame usable frame_of) map_to exhausted
              (pages (page_of HEAP_START) (page_of heap_end)) s) (\<lambda>s'.
     obind (expect_ok (bump_init a HEAP_START HEAP_SIZE)) (\<lambda>a'.
     Ok (s', a')))))"

section \<open>The usable frames\<close>

lemma align_up_frame:
  "align_up v FRAME_SIZE = (if unat v + 4096 < 2 ^ 64 then Ok (of_nat (align_up_to 4096 (unat v))) else Panic)"
proof (cases "unat v + 4096 < 2 ^ 64")
  case False
  then show ?thesis
    by (simp add: align_up_def FRAME_SIZE_def add_ov_def checked_add_def)
next
  case True
  then have sum: "unat (v + 4096) = unat v + 4096"
    by (simp add: unat_word_ariths)
  define top where "top = v + 4096 - 1"
  have top: "unat top = unat v + 4095"
    using unat_sub [of 1 "v + 4096"] sum by (simp add: word_le_nat_alt top_def)
  have mask: "(4095 :: u64) = mask 12"
    by (simp add: mask_eq_exp_minus_1)
  have "unat (top AND NOT 4095) = align_up_to 4096 (unat v)"
    unfolding mask by (simp add: unat_and_not_mask top align_up_to_def minus_mod_eq_div_mult)
  moreover have "align_up_to 4096 (unat v) < 2 ^ 64"
    using align_up_to_bounds [of 4096 "unat v"] True by linarith
  ultimately have "top AND NOT 4095 = of_nat (align_up_to 4096 (unat v))"
    by (simp add: word_unat_eq_iff unat_of_nat_small)
  moreover have "add_ov v 4096 = (Ok (v + 4096) :: u64 may_panic)" "sub_ov (v + 4096) 1 = (Ok top :: u64 may_panic)"
    "sub_ov 4096 1 = (Ok 4095 :: u64 may_panic)"
    using sum top by (simp_all add: ov_Ok_iff)
  ultimately show ?thesis
    using True by (simp add: align_up_def FRAME_SIZE_def)
qed

text \<open>The first address of the frames of a region, in order.\<close>

definition region_addresses :: "'k region \<Rightarrow> nat list" where
  "region_addresses r =
     map (\<lambda>i. 4096 * i) [align_up_to 4096 (unat (rg_start r)) div 4096..<unat (rg_end r) div 4096]"

definition region_ok :: "'k region \<Rightarrow> bool" where
  "region_ok r \<longleftrightarrow> unat (rg_start r) + 4096 < 2 ^ 64 \<and> unat (rg_end r) \<le> 2 ^ 52"

lemma in_region_addresses:
  "a \<in> set (region_addresses r) \<longleftrightarrow> 4096 dvd a \<and> unat (rg_start r) \<le> a \<and> a + 4096 \<le> unat (rg_end r)"
proof -
  have up: "align_up_to 4096 n \<le> 4096 * i \<longleftrightarrow> n \<le> 4096 * i" for n i
    using align_up_to_bounds [of 4096 n] by (auto simp: align_up_to_def)
  have "align_up_to 4096 n div 4096 \<le> i \<longleftrightarrow> n \<le> 4096 * i" for n i
    using up [of n i] by (auto simp: align_up_to_def)
  moreover have "i < n div 4096 \<longleftrightarrow> 4096 * i + 4096 \<le> n" for i n :: nat
    by auto
  ultimately show ?thesis
    by (auto simp: region_addresses_def dvd_def)
qed

lemma step_by_frames:
  assumes "region_ok r"
  shows "step_by (of_nat (align_up_to 4096 (unat (rg_start r)))) (rg_end r AND NOT (FRAME_SIZE - 1)) FRAME_SIZE
    = map of_nat (region_addresses r)"
proof -
  define sn en where "sn = align_up_to 4096 (unat (rg_start r)) div 4096" and "en = unat (rg_end r) div 4096"
  have up: "align_up_to 4096 (unat (rg_start r)) = 4096 * sn" and sn: "4096 * sn < 2 ^ 64"
    using align_up_to_bounds [of 4096 "unat (rg_start r)"] assms by (auto simp: region_ok_def sn_def)
  have "(FRAME_SIZE - 1 :: u64) = mask 12"
    by (simp add: FRAME_SIZE_def mask_eq_exp_minus_1)
  then have e: "unat (rg_end r AND NOT (FRAME_SIZE - 1)) = 4096 * en"
    by (simp add: unat_and_not_mask minus_mod_eq_mult_div en_def)
  have count: "(4096 * en - 4096 * sn + 4096 - 1) div 4096 = en - sn"
    by (simp add: diff_mult_distrib2 [symmetric])
  have upt: "[sn..<en] = map (\<lambda>i. i + sn) [0..<en - sn]"
    by (cases "sn \<le> en") (simp_all add: map_add_upt)
  have "unat (of_nat (4096 * sn) :: u64) = 4096 * sn" "unat FRAME_SIZE = 4096"
    using sn by (simp_all add: unat_of_nat_small FRAME_SIZE_def del: of_nat_mult)
  then have "step_by (of_nat (4096 * sn)) (rg_end r AND NOT (FRAME_SIZE - 1)) FRAME_SIZE =
    map (\<lambda>i. of_nat (4096 * sn) + of_nat (i * 4096)) [0..<en - sn]"
    by (simp only: step_by_def e count)
  also have "\<dots> = map of_nat (map (\<lambda>i. 4096 * i) [sn..<en])"
    unfolding upt by (simp add: comp_def algebra_simps)
  finally show ?thesis
    by (simp add: up region_addresses_def flip: sn_def en_def)
qed

definition frame_addresses :: "'k \<Rightarrow> 'k frame_allocator \<Rightarrow> nat list" where
  "frame_addresses usable fa =
     concat (map region_addresses (filter (\<lambda>r. rg_kind r = usable) (memory_regions fa)))"

text \<open>
  What the code relies on: addresses below \<open>2 ^ 52\<close> are physical, the memory map describes such
  addresses, and its regions do not overlap.
\<close>

definition physical :: "(u64 \<Rightarrow> 'f option) \<Rightarrow> (nat \<Rightarrow> 'f) \<Rightarrow> bool" where
  "physical frame_of frame \<longleftrightarrow> (\<forall>a. unat a < 2 ^ 52 \<longrightarrow> frame_of a = Some (frame (unat a)))"

definition memory_map_ok :: "'k region list \<Rightarrow> bool" where
  "memory_map_ok regions \<longleftrightarrow> list_all region_ok regions \<and>
     sorted_wrt (\<lambda>r r'. rg_end r \<le> rg_start r' \<or> rg_end r' \<le> rg_start r) regions"

lemma region_items_eq:
  assumes "physical frame_of frame" "region_ok r"
  shows "region_items frame_of r = map (\<lambda>a. Some (frame a)) (region_addresses r)"
proof -
  have "frame_of (of_nat a) = Some (frame a)" if "a \<in> set (region_addresses r)" for a
  proof -
    have "a < 2 ^ 52"
      using that assms(2) by (auto simp: in_region_addresses region_ok_def)
    then show ?thesis
      using assms(1) by (simp add: physical_def unat_of_nat_small)
  qed
  with assms(2) show ?thesis
    by (simp add: region_items_def align_up_frame step_by_frames) (simp add: region_ok_def)
qed

lemma usable_frames_eq:
  assumes "physical frame_of frame" "memory_map_ok (memory_regions fa)"
  shows "usable_frames usable frame_of fa = map (\<lambda>a. Some (frame a)) (frame_addresses usable fa)"
proof -
  let ?rs = "filter (\<lambda>r. rg_kind r = usable) (memory_regions fa)"
  have "region_ok r" if "r \<in> set ?rs" for r
    using that assms(2) by (auto simp: memory_map_ok_def list_all_iff)
  then have "map (region_items frame_of) ?rs = map (\<lambda>r. map (\<lambda>a. Some (frame a)) (region_addresses r)) ?rs"
    using region_items_eq [OF assms(1)] by (intro map_cong) auto
  then show ?thesis
    by (simp only: usable_frames_def frame_addresses_def map_concat map_map comp_def)
qed

lemma distinct_concat_wrt:
  "(\<And>x. x \<in> set xs \<Longrightarrow> distinct (f x)) \<Longrightarrow> sorted_wrt (\<lambda>x y. set (f x) \<inter> set (f y) = {}) xs \<Longrightarrow>
   distinct (concat (map f xs))"
  by (induction xs) auto

lemma frame_addresses_distinct:
  assumes "memory_map_ok (memory_regions fa)"
  shows "distinct (frame_addresses usable fa)"
  unfolding frame_addresses_def
proof (rule distinct_concat_wrt)
  fix r :: "'a region"
  show "distinct (region_addresses r)"
    by (simp add: region_addresses_def distinct_map inj_on_def)
next
  have "sorted_wrt (\<lambda>r r'. rg_end r \<le> rg_start r' \<or> rg_end r' \<le> rg_start r)
      (filter (\<lambda>r. rg_kind r = usable) (memory_regions fa))"
    using assms by (simp add: memory_map_ok_def sorted_wrt_filter)
  then show "sorted_wrt (\<lambda>r r'. set (region_addresses r) \<inter> set (region_addresses r') = {})
      (filter (\<lambda>r. rg_kind r = usable) (memory_regions fa))"
    by (rule sorted_wrt_mono_rel [rotated]) (auto simp: in_region_addresses word_le_nat_alt)
qed

lemma iter_nth_eq: "iter_nth (map Some fs) n = Ok (if n < length fs then Some (fs ! n) else None)"
proof (induction fs arbitrary: n)
  case Nil
  then show ?case by simp
next
  case (Cons f fs)
  then show ?case by (cases n) auto
qed

section \<open>Frame allocators\<close>

text \<open>
  The contract of a \<open>FrameAllocator\<close>: a frame is never handed out twice. The client is the mapping
  loop, whose \<open>map_to\<close> may itself draw frames for page tables.
\<close>

definition draws :: "('s \<Rightarrow> ('f option \<times> 's) may_panic) \<Rightarrow> 's \<Rightarrow> 's \<Rightarrow> bool" where
  "draws allocate s s' \<longleftrightarrow> (\<exists>f. allocate s = Ok (f, s'))"

text \<open>What \<open>map_to\<close> documents: it maps the page to the frame, and takes page-table frames from the allocator.\<close>

definition maps_pages ::
    "('s \<Rightarrow> ('f option \<times> 's) may_panic) \<Rightarrow> ('m \<Rightarrow> ('p \<times> 'f \<times> page_flag set) list) \<Rightarrow>
     ('p \<Rightarrow> 'f \<Rightarrow> page_flag set \<Rightarrow> 'm \<times> 's \<Rightarrow> ('e, 'm \<times> 's) outcome) \<Rightarrow> bool" where
  "maps_pages allocate mappings map_to \<longleftrightarrow>
     (\<forall>p f fl m s m' s'. map_to p f fl (m, s) = Ok (m', s') \<longrightarrow>
        (draws allocate)\<^sup>*\<^sup>* s s' \<and> mappings m' = mappings m @ [(p, f, fl)])"

locale frame_source =
  fixes allocate :: "'s \<Rightarrow> ('f option \<times> 's) may_panic"
    and handed_out :: "'s \<Rightarrow> 'f list"
    and invar :: "'s \<Rightarrow> bool"
  assumes fresh: "invar s \<Longrightarrow> allocate s = Ok (Some f, s') \<Longrightarrow>
      invar s' \<and> handed_out s' = handed_out s @ [f] \<and> f \<notin> set (handed_out s)"
    and none_left: "invar s \<Longrightarrow> allocate s = Ok (None, s') \<Longrightarrow> invar s' \<and> handed_out s' = handed_out s"
begin

lemma draws_kept:
  "(draws allocate)\<^sup>*\<^sup>* s s' \<Longrightarrow> invar s \<Longrightarrow> distinct (handed_out s) \<Longrightarrow>
   invar s' \<and> distinct (handed_out s') \<and> (\<exists>fs. handed_out s' = handed_out s @ fs)"
proof (induction rule: rtranclp_induct)
  case base
  then show ?case by simp
next
  case (step t u)
  then obtain f where f: "allocate t = Ok (f, u)"
    by (auto simp: draws_def)
  have t: "invar t" "distinct (handed_out t)" "\<exists>fs. handed_out t = handed_out s @ fs"
    using step by auto
  show ?case
  proof (cases f)
    case None
    with none_left [OF t(1)] f t show ?thesis by simp
  next
    case (Some x)
    with fresh [OF t(1)] f t show ?thesis by auto
  qed
qed

lemma map_pages_frames:
  assumes law: "maps_pages allocate mappings map_to"
  shows "map_pages allocate map_to exhausted ps (m, s) = Ok (m', s') \<Longrightarrow> invar s \<Longrightarrow> distinct (handed_out s) \<Longrightarrow>
    invar s' \<and> distinct (handed_out s') \<and> (\<exists>more. handed_out s' = handed_out s @ more) \<and>
    (\<exists>fs. length fs = length ps \<and> distinct fs \<and> set fs \<subseteq> set (handed_out s') \<and> set fs \<inter> set (handed_out s) = {} \<and>
       mappings m' = mappings m @ map (\<lambda>(p, f). (p, f, {PRESENT, WRITABLE, NO_EXECUTE})) (zip ps fs))"
proof (induction ps arbitrary: m s)
  case Nil
  then show ?case by simp
next
  case (Cons p ps)
  from Cons.prems(1) obtain f s1 m2 s2 where al: "allocate s = Ok (Some f, s1)"
    and mt: "map_to p f {PRESENT, WRITABLE, NO_EXECUTE} (m, s1) = Ok (m2, s2)"
    and rest: "map_pages allocate map_to exhausted ps (m2, s2) = Ok (m', s')"
    by (auto simp: obind_Ok_iff expect_ok_def split: outcome.splits)
  note s1 = fresh [OF Cons.prems(2) al]
  have "(draws allocate)\<^sup>*\<^sup>* s1 s2" and m2: "mappings m2 = mappings m @ [(p, f, {PRESENT, WRITABLE, NO_EXECUTE})]"
    using law mt unfolding maps_pages_def by blast+
  then have s2: "invar s2" "distinct (handed_out s2)" "\<exists>more. handed_out s2 = handed_out s1 @ more"
    using draws_kept [of s1 s2] s1 Cons.prems(3) by auto
  from Cons.IH [OF rest s2(1,2)] obtain fs where fs: "length fs = length ps" "distinct fs" "set fs \<subseteq> set (handed_out s')"
    "set fs \<inter> set (handed_out s2) = {}" "invar s'" "distinct (handed_out s')" "\<exists>more. handed_out s' = handed_out s2 @ more"
    "mappings m' = mappings m2 @ map (\<lambda>(p, f). (p, f, {PRESENT, WRITABLE, NO_EXECUTE})) (zip ps fs)"
    by blast
  have f: "f \<in> set (handed_out s2)" "set (handed_out s) \<subseteq> set (handed_out s2)" "\<exists>more. handed_out s' = handed_out s @ more"
    using s1 s2(3) fs(7) by auto
  have "length (f # fs) = length (p # ps) \<and> distinct (f # fs) \<and> set (f # fs) \<subseteq> set (handed_out s') \<and>
    set (f # fs) \<inter> set (handed_out s) = {} \<and>
    mappings m' = mappings m @ map (\<lambda>(p, f). (p, f, {PRESENT, WRITABLE, NO_EXECUTE})) (zip (p # ps) (f # fs))"
    using fs f s1 m2 by auto
  with fs f show ?case
    by blast
qed

end

text \<open>The boot-information allocator hands out its usable frames in order.\<close>

definition frames_ok :: "'k \<Rightarrow> (u64 \<Rightarrow> 'f option) \<Rightarrow> 'f list \<Rightarrow> 'k frame_allocator \<Rightarrow> bool" where
  "frames_ok usable frame_of fs fa \<longleftrightarrow> usable_frames usable frame_of fa = map Some fs \<and> distinct fs"

definition frames_given :: "'k \<Rightarrow> (u64 \<Rightarrow> 'f option) \<Rightarrow> 'k frame_allocator \<Rightarrow> 'f list" where
  "frames_given usable frame_of fa = map the (take (unat (next_frame fa)) (usable_frames usable frame_of fa))"

lemma allocate_frame_eq:
  assumes "usable_frames usable frame_of fa = map Some fs" "allocate_frame usable frame_of fa = Ok (r, fa')"
  shows "r = (if unat (next_frame fa) < length fs then Some (fs ! unat (next_frame fa)) else None)"
    and "memory_regions fa' = memory_regions fa" "unat (next_frame fa') = unat (next_frame fa) + 1"
  using assms by (auto simp: allocate_frame_def obind_Ok_iff iter_nth_eq ov_Ok_iff)

lemma frames_given_eq:
  "usable_frames usable frame_of fa = map Some fs \<Longrightarrow> frames_given usable frame_of fa = take (unat (next_frame fa)) fs"
  by (simp add: frames_given_def take_map comp_def)

interpretation boot_frames: frame_source
  "allocate_frame usable frame_of" "frames_given usable frame_of" "frames_ok usable frame_of fs"
  for usable :: 'k and frame_of :: "u64 \<Rightarrow> 'f option" and fs :: "'f list"
proof
  fix s s' :: "'k frame_allocator" and f :: 'f
  assume ok: "frames_ok usable frame_of fs s" and al: "allocate_frame usable frame_of s = Ok (Some f, s')"
  then have fs: "usable_frames usable frame_of s = map Some fs" "distinct fs"
    by (auto simp: frames_ok_def)
  note eq = allocate_frame_eq [OF fs(1) al]
  have same: "usable_frames usable frame_of s' = map Some fs"
    using fs(1) eq(2) by (simp add: usable_frames_def)
  have n: "unat (next_frame s) < length fs" "f = fs ! unat (next_frame s)"
    using eq(1) by (auto split: if_splits)
  then have "f \<notin> set (take (unat (next_frame s)) fs)"
    using fs(2) by (auto simp: in_set_conv_nth nth_eq_iff_index_eq)
  with n show "frames_ok usable frame_of fs s' \<and> frames_given usable frame_of s' = frames_given usable frame_of s @ [f] \<and>
      f \<notin> set (frames_given usable frame_of s)"
    using fs(2) same eq(3) by (simp add: frames_ok_def frames_given_eq [OF fs(1)] frames_given_eq [OF same] take_Suc_conv_app_nth)
next
  fix s s' :: "'k frame_allocator"
  assume ok: "frames_ok usable frame_of fs s" and al: "allocate_frame usable frame_of s = Ok (None, s')"
  then have fs: "usable_frames usable frame_of s = map Some fs" "distinct fs"
    by (auto simp: frames_ok_def)
  note eq = allocate_frame_eq [OF fs(1) al]
  have same: "usable_frames usable frame_of s' = map Some fs" and "length fs \<le> unat (next_frame s)"
    using fs(1) eq(1,2) by (auto simp: usable_frames_def split: if_splits)
  then show "frames_ok usable frame_of fs s' \<and> frames_given usable frame_of s' = frames_given usable frame_of s"
    using fs(2) eq(3) by (simp add: frames_ok_def frames_given_eq [OF fs(1)] frames_given_eq [OF same])
qed

section \<open>Sequences of allocations\<close>

fun allocate_many :: "('s \<Rightarrow> ('f option \<times> 's) may_panic) \<Rightarrow> nat \<Rightarrow> 's \<Rightarrow> ('f option list \<times> 's) may_panic" where
  "allocate_many allocate 0 s = Ok ([], s)"
| "allocate_many allocate (Suc n) s =
     obind (allocate s) (\<lambda>(f, s'). obind (allocate_many allocate n s') (\<lambda>(fs, s''). Ok (f # fs, s'')))"

lemma allocate_many_eq:
  assumes "usable_frames usable frame_of fa = map Some fs" "unat (next_frame fa) + n < 2 ^ 64"
  shows "allocate_many (allocate_frame usable frame_of) n fa =
    Ok (map (\<lambda>i. if i < length fs then Some (fs ! i) else None) [unat (next_frame fa)..<unat (next_frame fa) + n],
        fa\<lparr>next_frame := next_frame fa + of_nat n\<rparr>)"
  using assms
proof (induction n arbitrary: fa)
  case 0
  then show ?case by simp
next
  case (Suc n)
  let ?fa = "fa\<lparr>next_frame := next_frame fa + 1\<rparr>"
  have inc: "unat (next_frame fa + 1) = unat (next_frame fa) + 1"
    using Suc.prems(2) by (simp add: unat_word_ariths)
  have "allocate_frame usable frame_of fa =
    Ok (if unat (next_frame fa) < length fs then Some (fs ! unat (next_frame fa)) else None, ?fa)"
    using Suc.prems(2) by (simp add: allocate_frame_def Suc.prems(1) iter_nth_eq) (simp add: add_ov_def checked_add_def)
  moreover have "usable_frames usable frame_of ?fa = map Some fs"
    using Suc.prems(1) by (simp add: usable_frames_def)
  ultimately show ?case
    using Suc.IH [of ?fa] Suc.prems(2) inc by (simp add: upt_conv_Cons algebra_simps del: upt_Suc)
qed

section \<open>A demonstration memory map\<close>

definition demo_physical :: "u64 \<Rightarrow> nat option" where
  "demo_physical a = (if unat a < 2 ^ 52 then Some (unat a) else None)"

text \<open>Two regions: 3 MiB of usable memory and, above it, reserved memory.\<close>

definition demo_regions :: "bool region list" where
  "demo_regions = [\<lparr>rg_start = 0x100001, rg_end = 0x400fff, rg_kind = True\<rparr>,
     \<lparr>rg_start = 0x400fff, rg_end = 0x800000, rg_kind = False\<rparr>]"

lemma demo_memory: "physical demo_physical (\<lambda>a. a)" "memory_map_ok demo_regions"
  by (simp_all add: physical_def demo_physical_def memory_map_ok_def demo_regions_def region_ok_def)

lemma demo_addresses:
  "frame_addresses True (frame_allocator_init demo_regions) = map (\<lambda>i. 4096 * i) [257..<1024]"
  by (simp add: frame_addresses_def frame_allocator_init_def demo_regions_def region_addresses_def align_up_to_def
      del: upt_rec_numeral)

text \<open>A mapper whose state is the list of its mappings, and which draws no frames.\<close>

definition demo_map_to ::
    "nat \<Rightarrow> nat \<Rightarrow> page_flag set \<Rightarrow> (nat \<times> nat \<times> page_flag set) list \<times> 's \<Rightarrow>
     (unit, (nat \<times> nat \<times> page_flag set) list \<times> 's) outcome" where
  "demo_map_to p f fl = (\<lambda>(m, s). Ok (m @ [(p, f, fl)], s))"

lemma frame_allocator_init_next: "next_frame (frame_allocator_init rs) = 0"
  by (simp add: frame_allocator_init_def)

definition demo_pages :: "nat \<Rightarrow> nat \<Rightarrow> nat list" where
  "demo_pages p q = [p..<q + 1]"

lemma demo_pages_length: "length (demo_pages p q) = q + 1 - p"
  by (auto simp: demo_pages_def)

lemma demo_maps_pages: "maps_pages allocate (\<lambda>m. m) demo_map_to"
  by (auto simp: maps_pages_def demo_map_to_def)

lemma demo_map_pages:
  assumes "usable_frames usable frame_of fa = map Some fs" "unat (next_frame fa) + length ps \<le> length fs" "length fs < 2 ^ 64"
  shows "\<exists>r. map_pages (allocate_frame usable frame_of) demo_map_to () ps (m, fa) = Ok r"
  using assms
proof (induction ps arbitrary: m fa)
  case Nil
  then show ?case by simp
next
  case (Cons p ps)
  let ?fa = "fa\<lparr>next_frame := next_frame fa + 1\<rparr>"
  have inc: "unat (next_frame fa + 1) = unat (next_frame fa) + 1"
    using Cons.prems by (simp add: unat_word_ariths)
  have "allocate_frame usable frame_of fa = Ok (Some (fs ! unat (next_frame fa)), ?fa)"
    using Cons.prems by (simp add: allocate_frame_def iter_nth_eq) (simp add: add_ov_def checked_add_def)
  moreover have "usable_frames usable frame_of ?fa = map Some fs"
    using Cons.prems(1) by (simp add: usable_frames_def)
  ultimately show ?case
    using Cons.IH [of ?fa] Cons.prems(2,3) inc by (simp add: demo_map_to_def)
qed

lemma demo_heap_pages: "unat HEAP_START div 4096 = 0x555500000" "unat (HEAP_START + 0x1fffff) div 4096 = 0x5555001ff"
  by (simp_all add: HEAP_START_def)

lemma demo_init_heap:
  obtains m fa a where "init_heap True demo_physical (\<lambda>x. unat x div 4096) demo_pages demo_map_to ()
    ([], frame_allocator_init demo_regions) bump_new = Ok ((m, fa), a)"
proof -
  let ?fa = "frame_allocator_init demo_regions" and ?ps = "demo_pages 0x555500000 0x5555001ff"
  have map: "memory_map_ok (memory_regions ?fa)"
    using demo_memory by (simp add: frame_allocator_init_def)
  have "usable_frames True demo_physical ?fa = map Some (frame_addresses True ?fa)"
    using usable_frames_eq [OF demo_memory(1) map] by simp
  then obtain m fa where mp: "map_pages (allocate_frame True demo_physical) demo_map_to () ?ps ([], ?fa) = Ok (m, fa)"
    using demo_map_pages [of True demo_physical ?fa "frame_addresses True ?fa" ?ps "[]"]
    by (auto simp: demo_addresses frame_allocator_init_next demo_pages_length)
  obtain a where a: "bump_init bump_new HEAP_START HEAP_SIZE = Ok a"
    by (simp add: bump_init_def bump_new_def HEAP_START_def HEAP_SIZE_def checked_add_def)
  have extent: "sub_ov HEAP_SIZE 1 = (Ok 0x1fffff :: (unit, usize) outcome)"
    "add_ov HEAP_START 0x1fffff = (Ok (HEAP_START + 0x1fffff) :: (unit, usize) outcome)"
    by (simp_all add: ov_Ok_iff HEAP_SIZE_def HEAP_START_def)
  show thesis
    by (rule that [of m fa a]) (simp add: init_heap_def extent demo_heap_pages mp a)
qed

lemma init_heap_frames:
  assumes "physical frame_of frame" "inj_on frame {a. 4096 dvd a}" "memory_map_ok (memory_regions fa)"
    and "maps_pages (allocate_frame usable frame_of) mappings map_to"
    and "init_heap usable frame_of page_of pages map_to exhausted (m, fa) bump_new = Ok ((m', fa'), a)"
  obtains fs where "length fs = length (pages (page_of HEAP_START) (page_of (HEAP_START + 0x1fffff)))" "distinct fs"
    "set fs \<subseteq> set (frames_given usable frame_of fa')" "set fs \<inter> set (frames_given usable frame_of fa) = {}"
    "mappings m' = mappings m @ map (\<lambda>(p, f). (p, f, {PRESENT, WRITABLE, NO_EXECUTE}))
       (zip (pages (page_of HEAP_START) (page_of (HEAP_START + 0x1fffff))) fs)"
    "frames_ok usable frame_of (map frame (frame_addresses usable fa)) fa'" "bump_init bump_new HEAP_START HEAP_SIZE = Ok a"
proof -
  let ?ps = "pages (page_of HEAP_START) (page_of (HEAP_START + 0x1fffff))"
  have frames: "usable_frames usable frame_of fa = map Some (map frame (frame_addresses usable fa))"
    using usable_frames_eq [OF assms(1,3)] by (simp add: comp_def)
  have "distinct (map frame (frame_addresses usable fa))"
    using frame_addresses_distinct [OF assms(3)] assms(2)
    by (auto simp: distinct_map frame_addresses_def in_region_addresses intro: inj_on_subset)
  with frames have ok: "frames_ok usable frame_of (map frame (frame_addresses usable fa)) fa"
    and given: "distinct (frames_given usable frame_of fa)"
    by (simp_all add: frames_ok_def frames_given_eq [OF frames])
  have "sub_ov HEAP_SIZE 1 = (Ok 0x1fffff :: ('e, usize) outcome)" "add_ov HEAP_START 0x1fffff = (Ok (HEAP_START + 0x1fffff) :: ('e, usize) outcome)"
    by (simp_all add: ov_Ok_iff HEAP_SIZE_def HEAP_START_def)
  with assms(5) have run: "map_pages (allocate_frame usable frame_of) map_to exhausted ?ps (m, fa) = Ok (m', fa')"
    and a: "bump_init bump_new HEAP_START HEAP_SIZE = Ok a"
    by (auto simp: init_heap_def obind_Ok_iff expect_ok_def split: outcome.splits)
  from boot_frames.map_pages_frames [OF assms(4) run ok given] show thesis
    using that a by blast
qed

lemma usable_frame_count_eq: "usable_frames usable frame_of fa = map Some fs \<Longrightarrow> usable_frame_count usable frame_of fa = Ok (length fs)"
  by (auto simp: usable_frame_count_def iter_count_def list_ex_iff)

section \<open>Properties\<close>

text \<open>
  C39. On a memory map of physical, non-overlapping regions the usable frames are, each exactly
  once, the 4096-byte aligned frames that lie entirely inside a region marked usable; enumerating
  and counting them does not panic.
\<close>

theorem usable_frames_exact:
  assumes "physical frame_of frame" "memory_map_ok (memory_regions fa)"
  shows "\<exists>as. usable_frames usable frame_of fa = map (\<lambda>a. Some (frame a)) as \<and> distinct as \<and>
    usable_frame_count usable frame_of fa = Ok (length as) \<and>
    (\<forall>a. a \<in> set as \<longleftrightarrow> 4096 dvd a \<and>
       (\<exists>r \<in> set (memory_regions fa). rg_kind r = usable \<and> unat (rg_start r) \<le> a \<and> a + 4096 \<le> unat (rg_end r)))"
proof (intro exI conjI)
  show "usable_frames usable frame_of fa = map (\<lambda>a. Some (frame a)) (frame_addresses usable fa)"
    by (rule usable_frames_eq [OF assms])
  then show "usable_frame_count usable frame_of fa = Ok (length (frame_addresses usable fa))"
    by (auto simp: usable_frame_count_def iter_count_def list_ex_iff)
  show "distinct (frame_addresses usable fa)"
    by (rule frame_addresses_distinct [OF assms(2)])
  show "\<forall>a. a \<in> set (frame_addresses usable fa) \<longleftrightarrow> 4096 dvd a \<and>
       (\<exists>r \<in> set (memory_regions fa). rg_kind r = usable \<and> unat (rg_start r) \<le> a \<and> a + 4096 \<le> unat (rg_end r))"
    by (auto simp: frame_addresses_def in_region_addresses)
qed

text \<open>Witness of C39: the demonstration memory map has 767 usable frames.\<close>

theorem usable_frames_exact_witness:
  "physical demo_physical (\<lambda>a. a) \<and> memory_map_ok demo_regions \<and>
   usable_frame_count True demo_physical (frame_allocator_init demo_regions) = Ok 767"
proof -
  let ?fa = "frame_allocator_init demo_regions"
  have map: "memory_map_ok (memory_regions ?fa)"
    using demo_memory by (simp add: frame_allocator_init_def)
  obtain as where as: "usable_frames True demo_physical ?fa = map (\<lambda>a. Some a) as"
    "usable_frame_count True demo_physical ?fa = Ok (length as)"
    using usable_frames_exact [OF demo_memory(1) map, of True] by auto
  moreover have "length as = 767"
  proof -
    have "map (\<lambda>a. Some a) as = map (\<lambda>a. Some a) (frame_addresses True ?fa)"
      using as(1) usable_frames_eq [OF demo_memory(1) map, of True] by simp
    then have "length as = length (frame_addresses True ?fa)"
      by (rule map_eq_imp_length_eq)
    then show ?thesis
      by (simp add: demo_addresses)
  qed
  ultimately show ?thesis
    using demo_memory by simp
qed

text \<open>
  C40. From the start, \<open>n\<close> calls of \<open>allocate_frame\<close> return the first \<open>n\<close> usable frames in order and
  then \<open>None\<close>, without a panic. The counter behind \<open>allocated_frames\<close> counts the calls, those that
  returned no frame included.
\<close>

theorem allocate_frames_in_order:
  assumes "physical frame_of frame" "memory_map_ok regions" "n < 2 ^ 64"
  shows "allocate_many (allocate_frame usable frame_of) n (frame_allocator_init regions) =
    Ok (map (\<lambda>i. if i < length (frame_addresses usable (frame_allocator_init regions))
                 then Some (frame (frame_addresses usable (frame_allocator_init regions) ! i)) else None) [0..<n],
        \<lparr>memory_regions = regions, next_frame = of_nat n\<rparr>)"
proof -
  let ?fa = "frame_allocator_init regions"
  have "usable_frames usable frame_of ?fa = map Some (map frame (frame_addresses usable ?fa))"
    using usable_frames_eq [OF assms(1), of ?fa usable] assms(2) by (simp add: frame_allocator_init_def comp_def)
  then have "allocate_many (allocate_frame usable frame_of) n ?fa =
    Ok (map (\<lambda>i. if i < length (map frame (frame_addresses usable ?fa)) then Some (map frame (frame_addresses usable ?fa) ! i) else None)
          [unat (next_frame ?fa)..<unat (next_frame ?fa) + n], ?fa\<lparr>next_frame := next_frame ?fa + of_nat n\<rparr>)"
    using assms(3) by (intro allocate_many_eq) (simp_all add: frame_allocator_init_def)
  moreover have "next_frame ?fa = 0" "?fa\<lparr>next_frame := of_nat n\<rparr> = \<lparr>memory_regions = regions, next_frame = of_nat n\<rparr>"
    by (simp_all add: frame_allocator_init_def)
  ultimately show ?thesis
    by (auto cong: map_cong)
qed

text \<open>Witness of C40: the first two frames of the demonstration map.\<close>

theorem allocate_frames_in_order_witness:
  "allocate_many (allocate_frame True demo_physical) 2 (frame_allocator_init demo_regions) =
     Ok ([Some 0x101000, Some 0x102000], \<lparr>memory_regions = demo_regions, next_frame = 2\<rparr>)"
  using allocate_frames_in_order [OF demo_memory, of 2 True]
  by (simp add: demo_addresses upt_rec del: upt_rec_numeral)

text \<open>
  C19. When \<open>init_heap\<close> succeeds, every page of the heap range is mapped, writable and not
  executable, to a frame of its own that lies in usable memory and had not been handed out before
  (page-table frames included); and the global allocator owns exactly the 2 MiB from \<open>HEAP_START\<close>,
  none of it used.
\<close>

theorem init_heap_maps:
  assumes "physical frame_of frame" "inj_on frame {a. 4096 dvd a}" "memory_map_ok (memory_regions fa)"
    and "maps_pages (allocate_frame usable frame_of) mappings map_to"
    and "init_heap usable frame_of page_of pages map_to exhausted (m, fa) bump_new = Ok ((m', fa'), a)"
  shows "\<exists>fs. mappings m' = mappings m @ map (\<lambda>(p, f). (p, f, {PRESENT, WRITABLE, NO_EXECUTE}))
        (zip (pages (page_of HEAP_START) (page_of (HEAP_START + 0x1fffff))) fs) \<and>
      length fs = length (pages (page_of HEAP_START) (page_of (HEAP_START + 0x1fffff))) \<and> distinct fs \<and>
      (\<forall>f \<in> set fs. f \<notin> set (frames_given usable frame_of fa) \<and> (\<exists>x \<in> set (frame_addresses usable fa). f = frame x)) \<and>
      b_start a = HEAP_START \<and> bump_capacity a = HEAP_SIZE \<and> bump_used a = 0"
proof -
  let ?ps = "pages (page_of HEAP_START) (page_of (HEAP_START + 0x1fffff))"
  obtain fs where fs: "length fs = length ?ps" "distinct fs"
    "set fs \<subseteq> set (frames_given usable frame_of fa')" "set fs \<inter> set (frames_given usable frame_of fa) = {}"
    "mappings m' = mappings m @ map (\<lambda>(p, f). (p, f, {PRESENT, WRITABLE, NO_EXECUTE})) (zip ?ps fs)"
    and ok': "frames_ok usable frame_of (map frame (frame_addresses usable fa)) fa'"
    and a: "bump_init bump_new HEAP_START HEAP_SIZE = Ok a"
    by (rule init_heap_frames [OF assms])
  have "frames_given usable frame_of fa' = take (unat (next_frame fa')) (map frame (frame_addresses usable fa))"
    using ok' by (simp only: frames_ok_def frames_given_eq)
  then have "set fs \<subseteq> set (map frame (frame_addresses usable fa))"
    using fs(3) set_take_subset by (metis subset_trans)
  moreover have "b_start a = HEAP_START \<and> bump_capacity a = HEAP_SIZE \<and> bump_used a = 0"
    using bump_init_Ok [OF a] by (simp add: bump_capacity_def bump_used_def word_unat_eq_iff)
  ultimately show ?thesis
    using fs by (intro exI [of _ fs]) auto
qed

text \<open>Witness of C19: the demonstration map and mapper, with pages numbered from 0.\<close>

theorem init_heap_maps_witness:
  "\<exists>m fa a. init_heap True demo_physical (\<lambda>x. unat x div 4096) demo_pages demo_map_to ()
       ([], frame_allocator_init demo_regions) bump_new = Ok ((m, fa), a) \<and> length m = 512 \<and> bump_capacity a = HEAP_SIZE"
proof -
  have map: "memory_map_ok (memory_regions (frame_allocator_init demo_regions))"
    using demo_memory by (simp add: frame_allocator_init_def)
  obtain m fa a where run: "init_heap True demo_physical (\<lambda>x. unat x div 4096) demo_pages demo_map_to ()
       ([], frame_allocator_init demo_regions) bump_new = Ok ((m, fa), a)"
    by (rule demo_init_heap)
  from init_heap_maps [OF demo_memory(1) _ map demo_maps_pages this] have "length m = 512" "bump_capacity a = HEAP_SIZE"
    by (auto simp: demo_heap_pages demo_pages_length)
  with run show ?thesis
    by blast
qed

end
