(* ===== verification/Text.thy ===== *)
theory Text
  imports Prelude
begin

text \<open>
  Rust text: a \<open>str\<close> is its list of Unicode scalar values, and \<open>from_utf8\<close> and \<open>encode_utf8\<close>
  relate it to bytes. Also the whitespace functions and the number formats the kernel uses
  (\<open>{}\<close>, \<open>{:>7}\<close>, \<open>{:02x}\<close>).
\<close>

section \<open>UTF-8\<close>

type_synonym str = "nat list"

definition scalar :: "nat \<Rightarrow> bool" where
  "scalar c \<longleftrightarrow> c < 0xd800 \<or> 0xe000 \<le> c \<and> c < 0x110000"

definition encode_char :: "nat \<Rightarrow> u8 list" where
  "encode_char c =
     (if c < 0x80 then [of_nat c]
      else if c < 0x800 then [of_nat (0xc0 + c div 64), of_nat (0x80 + c mod 64)]
      else if c < 0x10000 then
        [of_nat (0xe0 + c div 64 div 64), of_nat (0x80 + c div 64 mod 64), of_nat (0x80 + c mod 64)]
      else
        [of_nat (0xf0 + c div 64 div 64 div 64), of_nat (0x80 + c div 64 div 64 mod 64),
         of_nat (0x80 + c div 64 mod 64), of_nat (0x80 + c mod 64)])"

definition encode_utf8 :: "str \<Rightarrow> u8 list" where
  "encode_utf8 t = concat (map encode_char t)"

text \<open>
  One character: the first byte gives the number of continuation bytes; the range of the second
  byte excludes overlong forms, surrogates and values above \<open>0x10ffff\<close>.
\<close>

definition continuation :: "u8 \<Rightarrow> bool" where
  "continuation b \<longleftrightarrow> 0x80 \<le> unat b \<and> unat b \<le> 0xbf"

definition second_byte :: "nat \<Rightarrow> u8 \<Rightarrow> bool" where
  "second_byte n b \<longleftrightarrow>
     (if n = 0xe0 then 0xa0 else if n = 0xf0 then 0x90 else 0x80) \<le> unat b \<and>
     unat b \<le> (if n = 0xed then 0x9f else if n = 0xf4 then 0x8f else 0xbf)"

definition decode_char :: "u8 \<Rightarrow> u8 list \<Rightarrow> (nat \<times> u8 list) option" where
  "decode_char b bs =
     (let n = unat b in
      if n < 0x80 then Some (n, bs)
      else if 0xc2 \<le> n \<and> n \<le> 0xdf then
        (case bs of b1 # rest \<Rightarrow>
           if continuation b1 then Some ((n - 0xc0) * 64 + (unat b1 - 0x80), rest) else None
         | _ \<Rightarrow> None)
      else if 0xe0 \<le> n \<and> n \<le> 0xef then
        (case bs of b1 # b2 # rest \<Rightarrow>
           if second_byte n b1 \<and> continuation b2
           then Some (((n - 0xe0) * 64 + (unat b1 - 0x80)) * 64 + (unat b2 - 0x80), rest) else None
         | _ \<Rightarrow> None)
      else if 0xf0 \<le> n \<and> n \<le> 0xf4 then
        (case bs of b1 # b2 # b3 # rest \<Rightarrow>
           if second_byte n b1 \<and> continuation b2 \<and> continuation b3
           then Some ((((n - 0xf0) * 64 + (unat b1 - 0x80)) * 64 + (unat b2 - 0x80)) * 64 + (unat b3 - 0x80), rest)
           else None
         | _ \<Rightarrow> None)
      else None)"

lemma decode_char_shrinks: "decode_char b bs = Some (c, rest) \<Longrightarrow> length rest \<le> length bs"
  by (auto simp: decode_char_def Let_def split: if_splits list.splits)

function from_utf8 :: "u8 list \<Rightarrow> str option" where
  "from_utf8 [] = Some []"
| "from_utf8 (b # bs) =
     (case decode_char b bs of None \<Rightarrow> None | Some (c, rest) \<Rightarrow> map_option ((#) c) (from_utf8 rest))"
  by pat_completeness auto
termination
  by (relation "measure length") (auto dest: decode_char_shrinks simp: less_Suc_eq_le)

section \<open>Whitespace\<close>

definition is_whitespace :: "nat \<Rightarrow> bool" where
  "is_whitespace c \<longleftrightarrow> 9 \<le> c \<and> c \<le> 13 \<or> 0x2000 \<le> c \<and> c \<le> 0x200a \<or>
     c \<in> {0x20, 0x85, 0xa0, 0x1680, 0x2028, 0x2029, 0x202f, 0x205f, 0x3000}"

definition is_ascii_whitespace :: "u8 \<Rightarrow> bool" where
  "is_ascii_whitespace b \<longleftrightarrow> b \<in> {0x09, 0x0a, 0x0c, 0x0d, 0x20}"

definition is_ascii_graphic :: "u8 \<Rightarrow> bool" where
  "is_ascii_graphic b \<longleftrightarrow> 0x21 \<le> b \<and> b \<le> 0x7e"

definition trim_start :: "str \<Rightarrow> str" where
  "trim_start t = dropWhile is_whitespace t"

definition trim :: "str \<Rightarrow> str" where
  "trim t = rev (dropWhile is_whitespace (rev (dropWhile is_whitespace t)))"

fun split_by :: "('a \<Rightarrow> bool) \<Rightarrow> 'a list \<Rightarrow> 'a list list" where
  "split_by sep [] = [[]]"
| "split_by sep (c # cs) =
     (if sep c then [] # split_by sep cs
      else case split_by sep cs of [] \<Rightarrow> [[c]] | w # ws \<Rightarrow> (c # w) # ws)"

definition split_whitespace :: "str \<Rightarrow> str list" where
  "split_whitespace t = filter (\<lambda>w. w \<noteq> []) (split_by is_whitespace t)"

section \<open>Formatting\<close>

text \<open>An ASCII literal of the source.\<close>

definition lit :: "string \<Rightarrow> str" where
  "lit s = map of_char s"

fun decimal :: "nat \<Rightarrow> str" where
  "decimal n = (if n < 10 then [0x30 + n] else decimal (n div 10) @ [0x30 + n mod 10])"

declare decimal.simps [simp del]

definition pad_left :: "nat \<Rightarrow> str \<Rightarrow> str" where
  "pad_left w t = replicate (w - length t) 0x20 @ t"

definition hex_digit :: "nat \<Rightarrow> nat" where
  "hex_digit d = (if d < 10 then 0x30 + d else 0x61 + (d - 10))"

definition hex2 :: "u8 \<Rightarrow> str" where
  "hex2 b = [hex_digit (unat b div 16), hex_digit (unat b mod 16)]"

text \<open>\<open>{:#x}\<close>.\<close>

fun hex_digits :: "nat \<Rightarrow> str" where
  "hex_digits n = (if n < 16 then [hex_digit n] else hex_digits (n div 16) @ [hex_digit (n mod 16)])"

declare hex_digits.simps [simp del]

definition hexadecimal :: "nat \<Rightarrow> str" where
  "hexadecimal n = lit ''0x'' @ hex_digits n"

section \<open>UTF-8 round trip\<close>

lemma digits64:
  "m < 64 \<Longrightarrow> (q * 64 + m) div 64 = q" "m < 64 \<Longrightarrow> (q * 64 + m) mod 64 = m" for q m :: nat
  by simp_all

text \<open>The three multi-byte forms, by the payload of their bytes.\<close>

lemma encode_char_2:
  assumes "2 \<le> q" "q < 32" "m < 64"
  shows "encode_char (q * 64 + m) = [of_nat (0xc0 + q), of_nat (0x80 + m)]" "scalar (q * 64 + m)"
  using assms by (simp_all add: encode_char_def scalar_def del: of_nat_add)

lemma encode_char_3:
  assumes "q < 16" "m1 < 64" "m2 < 64" "q = 0 \<longrightarrow> 32 \<le> m1" "q = 13 \<longrightarrow> m1 < 32"
  shows "encode_char ((q * 64 + m1) * 64 + m2) = [of_nat (0xe0 + q), of_nat (0x80 + m1), of_nat (0x80 + m2)]"
    "scalar ((q * 64 + m1) * 64 + m2)"
proof -
  define c where "c = (q * 64 + m1) * 64 + m2"
  have "0x800 \<le> c"
    using assms(4) by (cases "q = 0") (simp_all add: c_def)
  moreover have "c < 0x10000"
    using assms(1-3) by (simp add: c_def)
  moreover have "c < 0xd800 \<or> 0xe000 \<le> c"
    using assms(2,3,5) by (cases q "13 :: nat" rule: linorder_cases) (simp_all add: c_def)
  moreover have "c div 64 = q * 64 + m1" "c mod 64 = m2" "(q * 64 + m1) div 64 = q" "(q * 64 + m1) mod 64 = m1"
    using assms(2,3) by (simp_all only: c_def digits64)
  ultimately have "encode_char c = [of_nat (0xe0 + q), of_nat (0x80 + m1), of_nat (0x80 + m2)] \<and> scalar c"
    by (simp add: encode_char_def scalar_def del: of_nat_add)
  then show "encode_char ((q * 64 + m1) * 64 + m2) = [of_nat (0xe0 + q), of_nat (0x80 + m1), of_nat (0x80 + m2)]"
    "scalar ((q * 64 + m1) * 64 + m2)"
    by (simp_all add: c_def)
qed

lemma encode_char_4:
  assumes "q < 5" "m1 < 64" "m2 < 64" "m3 < 64" "q = 0 \<longrightarrow> 16 \<le> m1" "q = 4 \<longrightarrow> m1 < 16"
  shows "encode_char (((q * 64 + m1) * 64 + m2) * 64 + m3) =
      [of_nat (0xf0 + q), of_nat (0x80 + m1), of_nat (0x80 + m2), of_nat (0x80 + m3)]"
    "scalar (((q * 64 + m1) * 64 + m2) * 64 + m3)"
proof -
  define c where "c = ((q * 64 + m1) * 64 + m2) * 64 + m3"
  have "0x10000 \<le> c"
    using assms(5) by (cases "q = 0") (simp_all add: c_def)
  moreover have "c < 0x110000"
    using assms(1-4,6) by (cases "q = 4") (simp_all add: c_def)
  moreover have d: "c div 64 = (q * 64 + m1) * 64 + m2" "c mod 64 = m3"
    using assms by (simp_all only: c_def digits64)
  moreover have "((q * 64 + m1) * 64 + m2) div 64 = q * 64 + m1" "((q * 64 + m1) * 64 + m2) mod 64 = m2"
    "(q * 64 + m1) div 64 = q" "(q * 64 + m1) mod 64 = m1"
    using assms by (simp_all only: digits64)
  ultimately have "encode_char c = [of_nat (0xf0 + q), of_nat (0x80 + m1), of_nat (0x80 + m2), of_nat (0x80 + m3)] \<and> scalar c"
    by (simp add: encode_char_def scalar_def del: of_nat_add)
  then show "encode_char (((q * 64 + m1) * 64 + m2) * 64 + m3) =
      [of_nat (0xf0 + q), of_nat (0x80 + m1), of_nat (0x80 + m2), of_nat (0x80 + m3)]"
    "scalar (((q * 64 + m1) * 64 + m2) * 64 + m3)"
    by (simp_all add: c_def)
qed

lemma byte_of_nat: "n < 256 \<Longrightarrow> unat (of_nat n :: u8) = n"
  by (simp add: unat_of_nat_small)

lemma byte_split: "k \<le> unat (b :: u8) \<Longrightarrow> \<exists>m. unat b = k + m \<and> b = of_nat (k + m)"
  by (rule exI [of _ "unat b - k"]) simp

lemma split64:
  fixes x :: nat
  obtains q m where "x = q * 64 + m" "m < 64"
  using that [of "x div 64" "x mod 64"] by simp

lemma decode_char_sound:
  assumes "decode_char b bs = Some (c, rest)"
  shows "scalar c \<and> b # bs = encode_char c @ rest"
proof -
  consider (1) "unat b < 0x80" | (2) "0xc2 \<le> unat b" "unat b \<le> 0xdf" | (3) "0xe0 \<le> unat b" "unat b \<le> 0xef"
    | (4) "0xf0 \<le> unat b" "unat b \<le> 0xf4"
    using assms by (auto simp: decode_char_def Let_def split: if_splits)
  then show ?thesis
  proof cases
    case 1
    with assms show ?thesis
      by (auto simp: decode_char_def Let_def scalar_def encode_char_def)
  next
    case 2
    then obtain b1 where bs: "bs = b1 # rest" "continuation b1" "c = (unat b - 0xc0) * 64 + (unat b1 - 0x80)"
      using assms by (auto simp: decode_char_def Let_def split: list.splits if_splits)
    then obtain q m where q: "unat b = 0xc0 + q" "b = of_nat (0xc0 + q)" and m: "unat b1 = 0x80 + m" "b1 = of_nat (0x80 + m)"
      using 2 byte_split [of "0xc0" b] byte_split [of "0x80" b1] by (auto simp: continuation_def simp del: of_nat_add)
    have c: "c = q * 64 + m" "2 \<le> q" "q < 32" "m < 64"
      using 2 bs q(1) m(1) by (simp_all add: continuation_def)
    show ?thesis
      unfolding c(1) using encode_char_2 [OF c(2-4)] by (simp only: bs(1) q(2) m(2) append.simps)
  next
    case 3
    then obtain b1 b2 where bs: "bs = b1 # b2 # rest" "second_byte (unat b) b1" "continuation b2"
      "c = ((unat b - 0xe0) * 64 + (unat b1 - 0x80)) * 64 + (unat b2 - 0x80)"
      using assms by (auto simp: decode_char_def Let_def split: list.splits if_splits)
    then have "0x80 \<le> unat b1" "0x80 \<le> unat b2"
      by (auto simp: second_byte_def continuation_def split: if_splits)
    with 3 obtain q m1 m2 where q: "unat b = 0xe0 + q" "b = of_nat (0xe0 + q)" and m1: "unat b1 = 0x80 + m1" "b1 = of_nat (0x80 + m1)"
      and m2: "unat b2 = 0x80 + m2" "b2 = of_nat (0x80 + m2)"
      using byte_split [of "0xe0" b] byte_split [of "0x80" b1] byte_split [of "0x80" b2] by blast
    have c: "c = (q * 64 + m1) * 64 + m2" "q < 16" "m1 < 64" "m2 < 64" "q = 0 \<longrightarrow> 32 \<le> m1" "q = 13 \<longrightarrow> m1 < 32"
      using 3 bs(2-4) q(1) m1(1) m2(1) by (auto simp: continuation_def second_byte_def split: if_splits)
    show ?thesis
      unfolding c(1) using encode_char_3 [OF c(2-6)] by (simp only: bs(1) q(2) m1(2) m2(2) append.simps)
  next
    case 4
    then obtain b1 b2 b3 where bs: "bs = b1 # b2 # b3 # rest" "second_byte (unat b) b1" "continuation b2" "continuation b3"
      "c = (((unat b - 0xf0) * 64 + (unat b1 - 0x80)) * 64 + (unat b2 - 0x80)) * 64 + (unat b3 - 0x80)"
      using assms by (auto simp: decode_char_def Let_def split: list.splits if_splits)
    then have "0x80 \<le> unat b1" "0x80 \<le> unat b2" "0x80 \<le> unat b3"
      by (auto simp: second_byte_def continuation_def split: if_splits)
    with 4 obtain q m1 m2 m3 where q: "unat b = 0xf0 + q" "b = of_nat (0xf0 + q)"
      and m: "unat b1 = 0x80 + m1" "unat b2 = 0x80 + m2" "unat b3 = 0x80 + m3"
      and bytes: "b1 = of_nat (0x80 + m1)" "b2 = of_nat (0x80 + m2)" "b3 = of_nat (0x80 + m3)"
      using byte_split [of "0xf0" b] byte_split [of "0x80" b1] byte_split [of "0x80" b2] byte_split [of "0x80" b3] by blast
    have c: "c = ((q * 64 + m1) * 64 + m2) * 64 + m3" "q < 5" "m1 < 64" "m2 < 64" "m3 < 64"
      "q = 0 \<longrightarrow> 16 \<le> m1" "q = 4 \<longrightarrow> m1 < 16"
      using 4 bs(2-5) q(1) m by (auto simp: continuation_def second_byte_def split: if_splits)
    show ?thesis
      unfolding c(1) using encode_char_4 [OF c(2-7)] by (simp only: bs(1) q(2) bytes append.simps)
  qed
qed

lemma decode_encode_char:
  assumes "scalar c"
  obtains b bs where "encode_char c = b # bs" "\<And>rest. decode_char b (bs @ rest) = Some (c, rest)"
proof -
  obtain x m3 where x: "c = x * 64 + m3" "m3 < 64"
    by (rule split64)
  obtain y m2 where y: "x = y * 64 + m2" "m2 < 64"
    by (rule split64)
  obtain q m1 where q: "y = q * 64 + m1" "m1 < 64"
    by (rule split64)
  note bytes = decode_char_def byte_of_nat continuation_def second_byte_def Let_def
  consider (1) "c < 0x80" | (2) "2 \<le> x" "x < 32" | (3) "y < 16" "y = 0 \<longrightarrow> 32 \<le> m2" "y = 13 \<longrightarrow> m2 < 32"
    | (4) "q < 5" "q = 0 \<longrightarrow> 16 \<le> m1" "q = 4 \<longrightarrow> m1 < 16"
    using assms x y q by (fastforce simp: scalar_def)
  then show thesis
  proof cases
    case 1
    then show ?thesis
      by (intro that [of "of_nat c" "[]"]) (auto simp: encode_char_def bytes)
  next
    case 2
    from encode_char_2(1) [OF this x(2)] show ?thesis
      using 2 x(2) by (intro that [of "of_nat (0xc0 + x)" "[of_nat (0x80 + m3)]"]) (auto simp: x(1) bytes simp del: of_nat_add)
  next
    case 3
    from encode_char_3(1) [OF 3(1) y(2) x(2) 3(2,3)] show ?thesis
      using 3 x(2) y(2) by (intro that [of "of_nat (0xe0 + y)" "[of_nat (0x80 + m2), of_nat (0x80 + m3)]"])
        (auto simp: x(1) y(1) bytes simp del: of_nat_add)
  next
    case 4
    from encode_char_4(1) [OF 4(1) q(2) y(2) x(2) 4(2,3)] show ?thesis
      using 4 x(2) y(2) q(2) by (intro that [of "of_nat (0xf0 + q)" "[of_nat (0x80 + m1), of_nat (0x80 + m2), of_nat (0x80 + m3)]"])
        (auto simp: x(1) y(1) q(1) bytes simp del: of_nat_add)
  qed
qed

text \<open>\<open>from_utf8\<close> accepts exactly the encodings of lists of scalar values, and inverts the encoding.\<close>

lemma from_utf8_encode: "list_all scalar t \<Longrightarrow> from_utf8 (encode_utf8 t) = Some t"
proof (induction t)
  case Nil
  then show ?case by (simp add: encode_utf8_def)
next
  case (Cons c t)
  then obtain b bs where c: "encode_char c = b # bs" "\<And>rest. decode_char b (bs @ rest) = Some (c, rest)"
    by (auto elim: decode_encode_char)
  with Cons show ?case
    by (simp add: encode_utf8_def)
qed

lemma from_utf8_iff: "from_utf8 bs = Some t \<longleftrightarrow> list_all scalar t \<and> encode_utf8 t = bs"
proof
  show "from_utf8 bs = Some t \<Longrightarrow> list_all scalar t \<and> encode_utf8 t = bs"
  proof (induction bs arbitrary: t rule: from_utf8.induct)
    case 1
    then show ?case by (simp add: encode_utf8_def)
  next
    case (2 b bs)
    then obtain c rest u where "decode_char b bs = Some (c, rest)" "from_utf8 rest = Some u" "t = c # u"
      by (auto split: option.splits)
    with 2 decode_char_sound show ?case
      by (auto simp: encode_utf8_def)
  qed
qed (auto simp: from_utf8_encode)

lemma from_utf8_ascii: "list_all (\<lambda>b. b < 0x80) bs \<Longrightarrow> from_utf8 bs = Some (map unat bs)"
  by (induction bs) (auto simp: decode_char_def word_less_nat_alt)

lemma encode_ascii: "list_all (\<lambda>c. c < 0x80) t \<Longrightarrow> encode_utf8 t = map of_nat t"
  by (induction t) (auto simp: encode_utf8_def encode_char_def)

section \<open>Words\<close>

lemma split_by_not_Nil [simp]: "split_by sep t \<noteq> []"
  by (cases t) (auto split: list.splits)

lemma split_by_no_sep: "list_all (\<lambda>c. \<not> sep c) t \<Longrightarrow> split_by sep t = [t]"
  by (induction t) auto

lemma split_by_append:
  "sep s \<Longrightarrow> split_by sep (t @ s # u) = split_by sep t @ split_by sep u"
  by (induction t) (auto split: list.splits)

lemma in_split_by: "w \<in> set (split_by sep t) \<Longrightarrow> list_all (\<lambda>c. \<not> sep c) w"
  by (induction t arbitrary: w) (fastforce split: list.splits if_splits)+

lemma split_by_subset: "w \<in> set (split_by sep t) \<Longrightarrow> set w \<subseteq> set t"
  by (induction t arbitrary: w) (fastforce split: list.splits if_splits)+

end
