(* ===== verification/Serial.thy ===== *)
theory Serial
  imports Ports Text
begin

text \<open>
  The serial console (\<open>kernel/src/serial.rs\<close>) over a bus that holds the 16550 UART. The lock
  \<open>SERIAL_LOCK\<close> only serialises callers on the single core and is not part of the state.
\<close>

section \<open>Definitions\<close>

definition COM1 :: u16 where "COM1 = 0x3f8"

definition serial_init :: "'h bus \<Rightarrow> ('h, unit) state" where
  "serial_init b = do {
     out8 b (COM1 + 1) 0x00;
     out8 b (COM1 + 3) 0x80;
     out8 b COM1 0x01;
     out8 b (COM1 + 1) 0x00;
     out8 b (COM1 + 3) 0x03;
     out8 b (COM1 + 2) 0xc7;
     out8 b (COM1 + 4) 0x0b
   }"

definition transmitter_ready :: "u8 \<Rightarrow> bool" where
  "transmitter_ready status \<longleftrightarrow> status AND 0x20 \<noteq> 0"

definition write_byte :: "'h bus \<Rightarrow> u8 \<Rightarrow> ('h, unit) state" where
  "write_byte b byte = do {
     ready \<leftarrow> poll8 b 100000 (COM1 + 5) transmitter_ready;
     if ready then out8 b COM1 byte else ret ()
   }"

fun serial_write_str :: "'h bus \<Rightarrow> u8 list \<Rightarrow> ('h, unit) state" where
  "serial_write_str b [] = ret ()"
| "serial_write_str b (byte # rest) = do {
     (if byte = 0x0a then write_byte b 0x0d else ret ());
     write_byte b byte;
     serial_write_str b rest
   }"

text \<open>\<open>serial::print\<close>: the formatted text goes to \<open>write_str\<close>, piece after piece.\<close>

definition serial_print :: "'h bus \<Rightarrow> str \<Rightarrow> ('h, unit) state" where
  "serial_print b t = serial_write_str b (encode_utf8 t)"

section \<open>Lemmas\<close>

text \<open>The bytes meant for the line: every newline is preceded by a carriage return.\<close>

definition crlf :: "u8 list \<Rightarrow> u8 list" where
  "crlf bytes = concat (map (\<lambda>byte. if byte = 0x0a then [0x0d, 0x0a] else [byte]) bytes)"

text \<open>
  The accesses for one byte: either the status was polled until the transmitter was ready, and
  then the byte was written; or the transmitter was never ready in 100000 polls and nothing was
  written.
\<close>

definition transmitted :: "u8 \<Rightarrow> io list \<Rightarrow> bool" where
  "transmitted byte evs \<longleftrightarrow>
     (\<exists>polls. polled 100000 (COM1 + 5) transmitter_ready True polls \<and> evs = polls @ [Out8 COM1 byte]) \<or>
     polled 100000 (COM1 + 5) transmitter_ready False evs"

lemma write_byte_spec: "io_spec (write_byte (logged b) byte) (\<lambda>_ evs. transmitted byte evs)"
  unfolding write_byte_def
proof (rule io_bind [OF poll8_spec])
  fix ready evs
  assume p: "polled 100000 (COM1 + 5) transmitter_ready ready evs"
  show "io_spec (if ready then out8 (logged b) COM1 byte else ret ()) (\<lambda>_ evs'. transmitted byte (evs @ evs'))"
    using p by (cases ready) (auto simp: transmitted_def intro: io_rules)
qed

definition transmissions :: "u8 list \<Rightarrow> io list \<Rightarrow> bool" where
  "transmissions bytes evs \<longleftrightarrow> (\<exists>parts. evs = concat parts \<and> list_all2 transmitted bytes parts)"

lemma transmissions_Nil: "transmissions [] []"
  by (auto simp: transmissions_def)

lemma transmissions_Cons: "transmitted byte evs \<Longrightarrow> transmissions bytes evs' \<Longrightarrow> transmissions (byte # bytes) (evs @ evs')"
  unfolding transmissions_def by (metis concat.simps(2) list_all2_Cons)

lemma serial_write_str_spec: "io_spec (serial_write_str (logged b) bytes) (\<lambda>_ evs. transmissions (crlf bytes) evs)"
proof (induction bytes)
  case Nil
  show ?case
    by (simp add: io_return crlf_def transmissions_Nil)
next
  case (Cons byte bytes)
  have rest: "io_spec (State_Monad.bind (write_byte (logged b) byte) (\<lambda>_. serial_write_str (logged b) bytes))
      (\<lambda>_ evs. transmissions (byte # crlf bytes) evs)"
    by (rule io_bind [OF write_byte_spec]) (auto intro: io_weaken [OF Cons.IH] transmissions_Cons)
  show ?case
  proof (cases "byte = 0x0a")
    case True
    have "io_spec (State_Monad.bind (write_byte (logged b) 0x0d)
        (\<lambda>_. State_Monad.bind (write_byte (logged b) byte) (\<lambda>_. serial_write_str (logged b) bytes)))
      (\<lambda>_ evs. transmissions (0x0d # byte # crlf bytes) evs)"
      by (rule io_bind [OF write_byte_spec]) (auto intro: io_weaken [OF rest] transmissions_Cons)
    with True show ?thesis
      by (simp add: crlf_def)
  next
    case False
    have "io_spec (State_Monad.bind (ret ()) (\<lambda>_. State_Monad.bind (write_byte (logged b) byte) (\<lambda>_. serial_write_str (logged b) bytes)))
      (\<lambda>_ evs. transmissions (byte # crlf bytes) evs)"
      by (rule io_bind [where P = "\<lambda>_ evs. evs = []"]) (auto intro: io_return io_weaken [OF rest])
    with False show ?thesis
      by (simp add: crlf_def)
  qed
qed

section \<open>Properties\<close>

text \<open>
  C30. Printing to the serial line, whatever the UART answers, transmits the UTF-8 bytes of the text
  in order, each newline as a carriage return and a newline. Every byte is written once, directly after a status read
  that showed the transmitter ready, or is given up after exactly 100000 status reads none of which
  did; no other port access happens, so printing always ends.
\<close>

theorem serial_print_transmits:
  "io_spec (serial_print (logged b) t) (\<lambda>_ evs. transmissions (crlf (encode_utf8 t)) evs)"
  unfolding serial_print_def by (rule serial_write_str_spec)

end
