(* ===== verification/Framebuffer.thy ===== *)
theory Framebuffer
  imports Text
begin

text \<open>
  The framebuffer console (\<open>kernel/src/framebuffer.rs\<close>). The frame buffer's description comes from
  the boot information and the glyphs from the font crate; both are parameters, the font as a record
  of the two functions the code calls. \<open>WRITER\<close> is the argument and result of the entry points; its
  lock only serialises callers on the single core.
\<close>

section \<open>Definitions\<close>

definition FONT_HEIGHT :: nat where "FONT_HEIGHT = 16"
definition LETTER_SPACING :: nat where "LETTER_SPACING = 1"
definition LINE_SPACING :: nat where "LINE_SPACING = 2"
definition BORDER :: nat where "BORDER = 8"
definition CURSOR_WIDTH :: nat where "CURSOR_WIDTH = 2"

type_synonym rgb = "u8 \<times> u8 \<times> u8"

definition FOREGROUND :: rgb where "FOREGROUND = (0xe6, 0xed, 0xf3)"
definition BACKGROUND :: rgb where "BACKGROUND = (0x0a, 0x10, 0x20)"

datatype pixel_format = Rgb | Bgr | U8 | OtherFormat

record frame_info =
  fi_width :: nat
  fi_height :: nat
  fi_stride :: nat
  bytes_per_pixel :: nat
  pixel_format :: pixel_format

record raster =
  raster_width :: nat
  raster_rows :: "u8 list list"

record font =
  get_raster :: "nat \<Rightarrow> raster option"
  get_raster_width :: nat

record fb_writer =
  buffer :: "u8 list"
  info :: frame_info
  column :: nat
  row :: nat
  cursor_visible :: bool

definition writer_new :: "u8 list \<Rightarrow> frame_info \<Rightarrow> fb_writer" where
  "writer_new buf i = \<lparr>buffer = buf, info = i, column = BORDER, row = BORDER, cursor_visible = False\<rparr>"

definition blend_channel :: "u8 \<Rightarrow> u8 \<Rightarrow> u8 \<Rightarrow> u8 may_panic" where
  "blend_channel background foreground intensity =
     (let alpha = ucast intensity :: u16 in
      obind (sub_ov 255 alpha) (\<lambda>inverse.
      obind (mul_ov (ucast background) inverse) (\<lambda>x.
      obind (mul_ov (ucast foreground) alpha) (\<lambda>y.
      obind (add_ov x y) (\<lambda>sum. Ok (ucast (sum div 255)))))))"

definition blend :: "rgb \<Rightarrow> rgb \<Rightarrow> u8 \<Rightarrow> rgb may_panic" where
  "blend background foreground intensity =
     (case (background, foreground) of ((b0, b1, b2), (f0, f1, f2)) \<Rightarrow>
      obind (blend_channel b0 f0 intensity) (\<lambda>c0.
      obind (blend_channel b1 f1 intensity) (\<lambda>c1.
      obind (blend_channel b2 f2 intensity) (\<lambda>c2. Ok (c0, c1, c2)))))"

definition pixel_bytes :: "pixel_format \<Rightarrow> rgb \<Rightarrow> u8 list may_panic" where
  "pixel_bytes fmt rgb =
     (case rgb of (r, g, b) \<Rightarrow>
      case fmt of
        Rgb \<Rightarrow> Ok [r, g, b]
      | Bgr \<Rightarrow> Ok [b, g, r]
      | U8 \<Rightarrow>
          obind (add_ov (ucast r :: u16) (ucast g)) (\<lambda>rg.
          obind (add_ov rg (ucast b)) (\<lambda>rgb.
          let gray = ucast (rgb div 3) in Ok [gray, gray, gray]))
      | OtherFormat \<Rightarrow> Ok [b, g, r])"

definition pixel_offset :: "frame_info \<Rightarrow> nat \<Rightarrow> nat \<Rightarrow> nat may_panic" where
  "pixel_offset i x y =
     obind (umul y (fi_stride i)) (\<lambda>line.
     obind (uadd line x) (\<lambda>p. umul p (bytes_per_pixel i)))"

definition write_pixel :: "fb_writer \<Rightarrow> nat \<Rightarrow> nat \<Rightarrow> rgb \<Rightarrow> fb_writer may_panic" where
  "write_pixel w x y rgb =
     (if x \<ge> fi_width (info w) \<or> y \<ge> fi_height (info w) then Ok w else
      obind (pixel_offset (info w) x y) (\<lambda>offset.
      obind (pixel_bytes (pixel_format (info w)) rgb) (\<lambda>color.
      let count = min (bytes_per_pixel (info w)) 3 in
      obind (uadd offset count) (\<lambda>end.
      obind (subslice color 0 count) (\<lambda>source.
      obind (copy_to (buffer w) offset end source) (\<lambda>buf.
      if bytes_per_pixel (info w) > 3
      then obind (uadd offset 3) (\<lambda>i. obind (set_idx buf i 0) (\<lambda>buf. Ok (w\<lparr>buffer := buf\<rparr>)))
      else Ok (w\<lparr>buffer := buf\<rparr>)))))))"

definition invert_pixel :: "fb_writer \<Rightarrow> nat \<Rightarrow> nat \<Rightarrow> fb_writer may_panic" where
  "invert_pixel w x y =
     (if x \<ge> fi_width (info w) \<or> y \<ge> fi_height (info w) then Ok w else
      obind (pixel_offset (info w) x y) (\<lambda>offset.
      obind (uadd offset (min (bytes_per_pixel (info w)) 3)) (\<lambda>end.
      obind (subslice (buffer w) offset end) (\<lambda>bytes.
      obind (copy_to (buffer w) offset end (map NOT bytes)) (\<lambda>buf. Ok (w\<lparr>buffer := buf\<rparr>))))))"

text \<open>\<open>for y in ys { for x in xs { body } }\<close>\<close>

definition for_pixels ::
    "nat list \<Rightarrow> nat list \<Rightarrow> (nat \<Rightarrow> nat \<Rightarrow> fb_writer \<Rightarrow> fb_writer may_panic) \<Rightarrow> fb_writer \<Rightarrow> fb_writer may_panic" where
  "for_pixels xs ys body = for_each (\<lambda>y. for_each (\<lambda>x. body x y) xs) ys"

definition clear :: "fb_writer \<Rightarrow> fb_writer may_panic" where
  "clear w =
     obind (for_pixels [0..<fi_width (info w)] [0..<fi_height (info w)] (\<lambda>x y v. write_pixel v x y BACKGROUND) w)
       (\<lambda>w. Ok (w\<lparr>column := BORDER, row := BORDER, cursor_visible := False\<rparr>))"

definition scroll :: "fb_writer \<Rightarrow> fb_writer may_panic" where
  "scroll w =
     (let pixel_rows = FONT_HEIGHT + LINE_SPACING in
      obind (umul pixel_rows (fi_stride (info w))) (\<lambda>pixels.
      obind (umul pixels (bytes_per_pixel (info w))) (\<lambda>byte_rows.
      obind (copy_within (buffer w) byte_rows (length (buffer w)) 0) (\<lambda>buf.
      let first_clear_row = fi_height (info w) - pixel_rows in
      obind (for_pixels [0..<fi_width (info w)] [first_clear_row..<fi_height (info w)]
               (\<lambda>x y v. write_pixel v x y BACKGROUND) (w\<lparr>buffer := buf\<rparr>)) (\<lambda>w.
      Ok (w\<lparr>row := row w - pixel_rows\<rparr>))))))"

definition new_line :: "fb_writer \<Rightarrow> fb_writer may_panic" where
  "new_line w =
     obind (uadd (row w) (FONT_HEIGHT + LINE_SPACING)) (\<lambda>r.
     obind (uadd r FONT_HEIGHT) (\<lambda>s.
     obind (uadd s BORDER) (\<lambda>bottom.
     let w = w\<lparr>column := BORDER, row := r\<rparr> in
     if bottom > fi_height (info w) then scroll w else Ok w)))"

definition draw_raster :: "u8 list list \<Rightarrow> fb_writer \<Rightarrow> fb_writer may_panic" where
  "draw_raster rows w =
     for_each (\<lambda>(y, line). for_each (\<lambda>(x, intensity) w.
         obind (blend BACKGROUND FOREGROUND intensity) (\<lambda>color.
         obind (uadd (column w) x) (\<lambda>px.
         obind (uadd (row w) y) (\<lambda>py. write_pixel w px py color)))) (enumerate 0 line)) (enumerate 0 rows) w"

definition write_character :: "font \<Rightarrow> fb_writer \<Rightarrow> nat \<Rightarrow> fb_writer may_panic" where
  "write_character f w character =
     (if character = 0x0a then new_line w else
      obind (or_panic (case get_raster f character of None \<Rightarrow> get_raster f 0x3f | Some r \<Rightarrow> Some r)) (\<lambda>raster.
      obind (uadd (raster_width raster) LETTER_SPACING) (\<lambda>advance.
      obind (uadd (column w) advance) (\<lambda>right.
      obind (uadd right BORDER) (\<lambda>edge.
      obind (if edge > fi_width (info w) then new_line w else Ok w) (\<lambda>w.
      obind (draw_raster (raster_rows raster) w) (\<lambda>w.
      obind (uadd (column w) advance) (\<lambda>c. Ok (w\<lparr>column := c\<rparr>)))))))))"

definition backspace :: "font \<Rightarrow> fb_writer \<Rightarrow> fb_writer may_panic" where
  "backspace f w =
     obind (uadd (get_raster_width f) LETTER_SPACING) (\<lambda>advance.
     if column w \<le> BORDER then Ok w else
     let w = w\<lparr>column := max (column w - advance) BORDER\<rparr> in
     obind (uadd (row w) FONT_HEIGHT) (\<lambda>bottom.
     obind (uadd (column w) advance) (\<lambda>right.
     for_pixels [column w..<min right (fi_width (info w))] [row w..<min bottom (fi_height (info w))]
       (\<lambda>x y v. write_pixel v x y BACKGROUND) w)))"

definition toggle_cursor :: "fb_writer \<Rightarrow> fb_writer may_panic" where
  "toggle_cursor w =
     obind (uadd (row w) FONT_HEIGHT) (\<lambda>bottom.
     obind (uadd (column w) CURSOR_WIDTH) (\<lambda>right.
     for_pixels [column w..<min right (fi_width (info w))] [row w..<min bottom (fi_height (info w))]
       (\<lambda>x y v. invert_pixel v x y) w))"

definition writer_show_cursor :: "fb_writer \<Rightarrow> fb_writer may_panic" where
  "writer_show_cursor w =
     (if \<not> cursor_visible w then obind (toggle_cursor w) (\<lambda>w. Ok (w\<lparr>cursor_visible := True\<rparr>)) else Ok w)"

definition hide_cursor :: "fb_writer \<Rightarrow> fb_writer may_panic" where
  "hide_cursor w =
     (if cursor_visible w then obind (toggle_cursor w) (\<lambda>w. Ok (w\<lparr>cursor_visible := False\<rparr>)) else Ok w)"

definition write_char :: "font \<Rightarrow> nat \<Rightarrow> fb_writer \<Rightarrow> fb_writer may_panic" where
  "write_char f character w =
     (if character = 0x0d then Ok (w\<lparr>column := BORDER\<rparr>)
      else if character = 0x08 then backspace f w
      else if character = 0x09 then for_each (\<lambda>_ w. write_character f w 0x20) [0..<4] w
      else if character < 0x80 then write_character f w character
      else write_character f w 0x3f)"

definition writer_write_str :: "font \<Rightarrow> fb_writer \<Rightarrow> str \<Rightarrow> fb_writer may_panic" where
  "writer_write_str f w text = for_each (write_char f) text w"

text \<open>
  The entry points. \<open>panic_print\<close> takes the lock only if it is free: \<open>locked\<close> says that the panic
  interrupted a holder of the lock.
\<close>

definition with_writer :: "(fb_writer \<Rightarrow> fb_writer may_panic) \<Rightarrow> fb_writer option \<Rightarrow> fb_writer option may_panic" where
  "with_writer act WRITER = (case WRITER of None \<Rightarrow> Ok None | Some w \<Rightarrow> obind (act w) (\<lambda>w. Ok (Some w)))"

definition framebuffer_init :: "u8 list \<Rightarrow> frame_info \<Rightarrow> fb_writer option" where
  "framebuffer_init buf i = Some (writer_new buf i)"

definition framebuffer_clear :: "fb_writer option \<Rightarrow> fb_writer option may_panic" where
  "framebuffer_clear = with_writer clear"

definition framebuffer_print :: "font \<Rightarrow> str \<Rightarrow> fb_writer option \<Rightarrow> fb_writer option may_panic" where
  "framebuffer_print f text = with_writer (\<lambda>w. obind (hide_cursor w) (\<lambda>w. writer_write_str f w text))"

definition framebuffer_show_cursor :: "fb_writer option \<Rightarrow> fb_writer option may_panic" where
  "framebuffer_show_cursor = with_writer writer_show_cursor"

definition panic_print :: "font \<Rightarrow> bool \<Rightarrow> str \<Rightarrow> fb_writer option \<Rightarrow> fb_writer option may_panic" where
  "panic_print f locked text WRITER = (if locked then Ok WRITER else framebuffer_print f text WRITER)"

end
