(* ===== verification/Framebuffer_Correct.thy ===== *)
theory Framebuffer_Correct
  imports Framebuffer
begin

text \<open>
  What the framebuffer console shows. The colour bytes of the visible pixels form a picture; the
  screen of a writer is its picture without the cursor, and its text position. The console is
  shown to implement the operations \<open>spec_\<dots>\<close> on screens without ever panicking.
\<close>

section \<open>Colours\<close>

definition mix_channel :: "u8 \<Rightarrow> u8 \<Rightarrow> u8 \<Rightarrow> u8" where
  "mix_channel b f i = of_nat ((unat b * (255 - unat i) + unat f * unat i) div 255)"

definition mix :: "u8 \<Rightarrow> rgb" where
  "mix i = (case (BACKGROUND, FOREGROUND) of ((b0, b1, b2), (f0, f1, f2)) \<Rightarrow>
     (mix_channel b0 f0 i, mix_channel b1 f1 i, mix_channel b2 f2 i))"

lemma mix_sum_bound: "(unat (b :: u8) * (255 - unat (i :: u8)) + unat (f :: u8) * unat i) \<le> 255 * max (unat b) (unat f)"
proof -
  have i: "unat i \<le> 255"
    using unat_bounds(1) [of i] by simp
  have "unat b * (255 - unat i) + unat f * unat i \<le> max (unat b) (unat f) * (255 - unat i) + max (unat b) (unat f) * unat i"
    by (intro add_mono mult_right_mono) simp_all
  also have "\<dots> = 255 * max (unat b) (unat f)"
    using i by (simp flip: distrib_left)
  finally show ?thesis .
qed

lemma blend_channel_eq: "blend_channel b f i = Ok (mix_channel b f i)"
proof -
  have i: "unat i \<le> 255" and f: "unat f \<le> 255" and b: "unat b \<le> 255"
    using unat_bounds(1) [of i] unat_bounds(1) [of f] unat_bounds(1) [of b] by simp_all
  define inv where "inv = (255 :: u16) - ucast i"
  have inv: "sub_ov (255 :: u16) (ucast i) = (Ok inv :: u16 may_panic)" "unat inv = 255 - unat i"
    using i by (simp_all add: inv_def sub_ov_def checked_sub_def word_le_nat_alt unat_sub)
  define x where "x = ucast b * inv"
  define y where "y = ucast f * (ucast i :: u16)"
  have "unat b * unat inv \<le> 255 * 255" "unat f * unat i \<le> 255 * 255"
    using inv(2) i f b by (intro mult_mono; simp)+
  then have x: "mul_ov (ucast b) inv = (Ok x :: u16 may_panic)" "unat x = unat b * (255 - unat i)"
    and y: "mul_ov (ucast f) (ucast i) = (Ok y :: u16 may_panic)" "unat y = unat f * unat i"
    by (simp_all add: x_def y_def mul_ov_def checked_mul_def unat_word_ariths inv(2))
  have "unat x + unat y \<le> 255 * 255"
    using mix_sum_bound [of b i f] b f by (simp add: x(2) y(2))
  then have s: "add_ov x y = (Ok (x + y) :: u16 may_panic)" "unat (x + y) = unat x + unat y"
    by (simp_all add: add_ov_def checked_add_def unat_word_ariths)
  have "ucast ((x + y) div 255) = (of_nat (unat ((x + y) div 255)) :: u8)"
    by simp
  then show ?thesis
    by (simp add: blend_channel_def inv x y s mix_channel_def unat_div)
qed

lemma blend_eq: "blend BACKGROUND FOREGROUND i = Ok (mix i)"
  by (simp add: blend_def mix_def BACKGROUND_def FOREGROUND_def blend_channel_eq)

lemma mix_channel_bounds: "min (unat b) (unat f) \<le> unat (mix_channel b f i)" "unat (mix_channel b f i) \<le> max (unat b) (unat f)"
proof -
  have i: "unat i \<le> 255"
    using unat_bounds(1) [of i] by simp
  have "min (unat b) (unat f) * (255 - unat i) + min (unat b) (unat f) * unat i \<le> unat b * (255 - unat i) + unat f * unat i"
    by (intro add_mono mult_right_mono) simp_all
  then have "255 * min (unat b) (unat f) \<le> unat b * (255 - unat i) + unat f * unat i"
    using i by (simp flip: distrib_left)
  then have lo: "min (unat b) (unat f) \<le> (unat b * (255 - unat i) + unat f * unat i) div 255"
    by (simp add: less_eq_div_iff_mult_less_eq mult.commute)
  have hi: "(unat b * (255 - unat i) + unat f * unat i) div 255 \<le> max (unat b) (unat f)"
    using div_le_mono [OF mix_sum_bound, of b i f 255] by simp
  then have "(unat b * (255 - unat i) + unat f * unat i) div 255 < 2 ^ LENGTH(8)"
    using unat_bounds(1) [of b] unat_bounds(1) [of f] by simp
  with hi show "min (unat b) (unat f) \<le> unat (mix_channel b f i)" "unat (mix_channel b f i) \<le> max (unat b) (unat f)"
    using lo by (simp_all add: mix_channel_def unat_of_nat_small)
qed

lemma mix_channel_ends: "mix_channel b f 0 = b" "mix_channel b f 255 = f"
  by (simp_all add: mix_channel_def)

definition colour :: "frame_info \<Rightarrow> rgb \<Rightarrow> u8 list" where
  "colour i rgb = (case rgb of (r, g, b) \<Rightarrow>
     let gray = of_nat ((unat r + unat g + unat b) div 3) in
     take (min (bytes_per_pixel i) 3)
       (case pixel_format i of Rgb \<Rightarrow> [r, g, b] | U8 \<Rightarrow> [gray, gray, gray] | _ \<Rightarrow> [b, g, r]))"

lemma pixel_bytes_eq:
  "\<exists>bytes. pixel_bytes (pixel_format i) rgb = Ok bytes \<and> length bytes = 3 \<and> take (min (bytes_per_pixel i) 3) bytes = colour i rgb"
proof -
  obtain r g b where rgb: "rgb = (r, g, b)"
    by (cases rgb)
  define s where "s = ucast r + ucast g + (ucast b :: u16)"
  have "unat r < 256" "unat g < 256" "unat b < 256"
    using unat_bounds(1) [of r] unat_bounds(1) [of g] unat_bounds(1) [of b] by simp_all
  then have gray: "add_ov (ucast r :: u16) (ucast g) = (Ok (ucast r + ucast g) :: u16 may_panic)"
    "add_ov (ucast r + ucast g) (ucast b :: u16) = (Ok s :: u16 may_panic)" "unat s = unat r + unat g + unat b"
    by (simp_all add: s_def add_ov_def checked_add_def unat_word_ariths)
  have "(ucast (s div 3) :: u8) = of_nat (unat (s div 3))"
    by simp
  then show ?thesis
    by (cases "pixel_format i") (simp_all add: rgb pixel_bytes_def gray colour_def unat_div Let_def del: of_nat_unat)
qed

section \<open>Pictures\<close>

text \<open>The geometry the boot information promises, and the picture: the colour bytes of each visible pixel.\<close>

definition geometry_ok :: "frame_info \<Rightarrow> nat \<Rightarrow> bool" where
  "geometry_ok i len \<longleftrightarrow> 1 \<le> fi_width i \<and> fi_width i \<le> fi_stride i \<and> 1 \<le> bytes_per_pixel i \<and> 32 \<le> fi_height i \<and>
     fi_height i * fi_stride i * bytes_per_pixel i \<le> len \<and> len < 2 ^ 63"

type_synonym picture = "nat \<Rightarrow> nat \<Rightarrow> u8 list"

definition pixel_at :: "frame_info \<Rightarrow> u8 list \<Rightarrow> nat \<Rightarrow> nat \<Rightarrow> u8 list" where
  "pixel_at i buf x y =
     take (min (bytes_per_pixel i) 3) (drop ((y * fi_stride i + x) * bytes_per_pixel i) buf)"

definition visible :: "frame_info \<Rightarrow> nat \<Rightarrow> nat \<Rightarrow> bool" where
  "visible i x y \<longleftrightarrow> x < fi_width i \<and> y < fi_height i"

definition picture_of :: "frame_info \<Rightarrow> u8 list \<Rightarrow> picture" where
  "picture_of i buf = (\<lambda>x y. if visible i x y then pixel_at i buf x y else [])"

abbreviation pic :: "fb_writer \<Rightarrow> picture" where
  "pic w \<equiv> picture_of (info w) (buffer w)"

definition paint :: "frame_info \<Rightarrow> (u8 list \<Rightarrow> u8 list) \<Rightarrow> nat \<Rightarrow> nat \<Rightarrow> picture \<Rightarrow> picture" where
  "paint i f x y p = (\<lambda>x' y'. if x' = x \<and> y' = y \<and> visible i x y then f (p x y) else p x' y')"

lemma pixel_range:
  assumes "geometry_ok i len" "visible i x y"
  shows "(y * fi_stride i + x) * bytes_per_pixel i + bytes_per_pixel i \<le> len"
    "y * fi_stride i < 2 ^ 63" "y * fi_stride i + x < 2 ^ 63" "(y * fi_stride i + x) * bytes_per_pixel i < 2 ^ 63"
proof -
  have g: "fi_width i \<le> fi_stride i" "1 \<le> bytes_per_pixel i" "fi_height i * fi_stride i * bytes_per_pixel i \<le> len" "len < 2 ^ 63"
    using assms(1) by (auto simp: geometry_ok_def)
  have "y * fi_stride i + x + 1 \<le> (y + 1) * fi_stride i"
    using assms(2) g(1) by (simp add: visible_def)
  also have "\<dots> \<le> fi_height i * fi_stride i"
    using assms(2) by (intro mult_right_mono) (auto simp: visible_def)
  finally have "(y * fi_stride i + x + 1) * bytes_per_pixel i \<le> fi_height i * fi_stride i * bytes_per_pixel i"
    by (rule mult_right_mono) simp
  then show r: "(y * fi_stride i + x) * bytes_per_pixel i + bytes_per_pixel i \<le> len"
    using g(3) by simp
  then show o: "(y * fi_stride i + x) * bytes_per_pixel i < 2 ^ 63"
    using g by linarith
  have "y * fi_stride i + x \<le> (y * fi_stride i + x) * bytes_per_pixel i"
    using g(2) by simp
  with o show "y * fi_stride i + x < 2 ^ 63" "y * fi_stride i < 2 ^ 63"
    by linarith+
qed

text \<open>Two visible pixels that differ have disjoint bytes.\<close>

lemma pixel_disjoint:
  assumes "geometry_ok i len" "visible i x y" "visible i x' y'" "(x, y) \<noteq> (x', y')"
  shows "(y * fi_stride i + x) * bytes_per_pixel i + bytes_per_pixel i \<le> (y' * fi_stride i + x') * bytes_per_pixel i \<or>
         (y' * fi_stride i + x') * bytes_per_pixel i + bytes_per_pixel i \<le> (y * fi_stride i + x) * bytes_per_pixel i"
proof -
  have "y * fi_stride i + x \<noteq> y' * fi_stride i + x'"
    using assms mult_add_unique [of x "fi_stride i" x' y y'] by (auto simp: visible_def geometry_ok_def)
  then consider "y * fi_stride i + x + 1 \<le> y' * fi_stride i + x'" | "y' * fi_stride i + x' + 1 \<le> y * fi_stride i + x"
    by linarith
  then show ?thesis
  proof cases
    case 1
    from mult_right_mono [OF this, of "bytes_per_pixel i"] show ?thesis
      by simp
  next
    case 2
    from mult_right_mono [OF this, of "bytes_per_pixel i"] show ?thesis
      by simp
  qed
qed

text \<open>
  A drawing step changes only the buffer: \<open>drawn w m p\<close> says that \<open>m\<close> is \<open>w\<close> with a buffer that
  shows the picture \<open>p\<close>.
\<close>

definition drawn :: "fb_writer \<Rightarrow> fb_writer may_panic \<Rightarrow> picture \<Rightarrow> bool" where
  "drawn w m p \<longleftrightarrow> (\<exists>buf. m = Ok (w\<lparr>buffer := buf\<rparr>) \<and> length buf = length (buffer w) \<and> pic (w\<lparr>buffer := buf\<rparr>) = p)"

text \<open>Replacing the colour bytes of one pixel, and bytes of the same pixel after them.\<close>

lemma pixel_patch:
  fixes off :: nat
  assumes g: "geometry_ok (info w) (length (buffer w))" and v: "visible (info w) x y"
    and off: "off = (y * fi_stride (info w) + x) * bytes_per_pixel (info w)"
    and new: "length bytes = bytes_per_pixel (info w)"
  shows "pic (w\<lparr>buffer := take off (buffer w) @ bytes @ drop (off + bytes_per_pixel (info w)) (buffer w)\<rparr>) =
     paint (info w) (\<lambda>_. take (min (bytes_per_pixel (info w)) 3) bytes) x y (pic w)"
proof (intro ext)
  fix x' y'
  let ?i = "info w" and ?bpp = "bytes_per_pixel (info w)"
  let ?buf = "take off (buffer w) @ bytes @ drop (off + ?bpp) (buffer w)"
  define off' where "off' = (y' * fi_stride ?i + x') * ?bpp"
  have len: "off + ?bpp \<le> length (buffer w)"
    using pixel_range(1) [OF g v] by (simp add: off)
  show "pic (w\<lparr>buffer := ?buf\<rparr>) x' y' = paint ?i (\<lambda>_. take (min ?bpp 3) bytes) x y (pic w) x' y'"
  proof (cases "visible ?i x' y' \<and> (x', y') \<noteq> (x, y)")
    case True
    then consider (before) "off' + ?bpp \<le> off" | (after) "off + ?bpp \<le> off'"
      using pixel_disjoint [OF g v, of x' y'] by (auto simp: off off'_def)
    then have "take (min ?bpp 3) (drop off' ?buf) = take (min ?bpp 3) (drop off' (buffer w))"
    proof cases
      case before
      then have "drop off' ?buf = take (off - off') (drop off' (buffer w)) @ bytes @ drop (off + ?bpp) (buffer w)"
        using len by (simp add: drop_take)
      moreover have "min ?bpp 3 \<le> off - off'" "off - off' \<le> length (drop off' (buffer w))"
        using before len by auto
      ultimately show ?thesis
        by (simp add: min_absorb2)
    next
      case after
      then have "drop off' ?buf = drop off' (buffer w)"
        using len new by (simp add: le_add_diff_inverse)
      then show ?thesis by simp
    qed
    with True show ?thesis
      by (auto simp: picture_of_def paint_def pixel_at_def off'_def)
  next
    case False
    have here: "take (min ?bpp 3) (drop off ?buf) = take (min ?bpp 3) bytes"
      using len new by simp
    show ?thesis
    proof (cases "visible ?i x' y'")
      case True
      with False here v show ?thesis
        by (simp add: picture_of_def paint_def pixel_at_def off [symmetric])
    next
      case False
      with v show ?thesis
        by (auto simp: picture_of_def paint_def)
    qed
  qed
qed

lemma splice:
  assumes "off + m \<le> length xs" "length src = n" "n \<le> m"
  shows "length (take off xs @ src @ drop (off + n) xs) = length xs"
    "take off (take off xs @ src @ drop (off + n) xs) = take off xs"
    "drop (off + m) (take off xs @ src @ drop (off + n) xs) = drop (off + m) xs"
    "take n (drop off (take off xs @ src @ drop (off + n) xs)) = src"
  using assms by (simp_all add: add.commute)

lemma pixel_replaced:
  assumes g: "geometry_ok (info w) (length (buffer w))" and v: "visible (info w) x y"
    and off: "off = (y * fi_stride (info w) + x) * bytes_per_pixel (info w)"
    and same: "length buf = length (buffer w)" "take off buf = take off (buffer w)"
      "drop (off + bytes_per_pixel (info w)) buf = drop (off + bytes_per_pixel (info w)) (buffer w)"
    and colour: "take (min (bytes_per_pixel (info w)) 3) (drop off buf) = f (pixel_at (info w) (buffer w) x y)"
  shows "drawn w (Ok (w\<lparr>buffer := buf\<rparr>)) (paint (info w) f x y (pic w))"
proof -
  let ?bpp = "bytes_per_pixel (info w)"
  have len: "off + ?bpp \<le> length buf"
    using pixel_range(1) [OF g v] same(1) by (simp add: off)
  have "buf = take off buf @ take ?bpp (drop off buf) @ drop (off + ?bpp) buf"
    by (metis append_take_drop_id drop_drop add.commute)
  then have buf: "buf = take off (buffer w) @ take ?bpp (drop off buf) @ drop (off + ?bpp) (buffer w)"
    using same by simp
  have "pic (w\<lparr>buffer := buf\<rparr>) = paint (info w) (\<lambda>_. take (min ?bpp 3) (take ?bpp (drop off buf))) x y (pic w)"
    using pixel_patch [OF g v off, of "take ?bpp (drop off buf)"] len buf by simp
  also have "take (min ?bpp 3) (take ?bpp (drop off buf)) = f (pixel_at (info w) (buffer w) x y)"
    using colour by simp
  also have "paint (info w) (\<lambda>_. f (pixel_at (info w) (buffer w) x y)) x y (pic w) = paint (info w) f x y (pic w)"
    using v by (auto simp: paint_def picture_of_def fun_eq_iff)
  finally show ?thesis
    using same(1) by (auto simp: drawn_def)
qed

lemma pixel_offset_Ok:
  assumes "geometry_ok i len" "visible i x y"
  shows "pixel_offset i x y = Ok ((y * fi_stride i + x) * bytes_per_pixel i)"
  using pixel_range [OF assms] by (simp add: pixel_offset_def)

lemma drawn_outside: "\<not> visible (info w) x y \<Longrightarrow> drawn w (Ok w) (paint (info w) f x y (pic w))"
  by (auto simp: drawn_def paint_def intro!: exI [of _ "buffer w"])

lemma write_pixel_drawn:
  assumes g: "geometry_ok (info w) (length (buffer w))"
  shows "drawn w (write_pixel w x y c) (paint (info w) (\<lambda>_. colour (info w) c) x y (pic w))"
proof (cases "visible (info w) x y")
  case False
  then show ?thesis
    using drawn_outside [OF False] by (auto simp: write_pixel_def visible_def)
next
  case True
  let ?bpp = "bytes_per_pixel (info w)"
  define off where "off = (y * fi_stride (info w) + x) * ?bpp"
  define n where "n = min ?bpp 3"
  obtain bytes where bytes: "pixel_bytes (pixel_format (info w)) c = Ok bytes" "length bytes = 3" "take n bytes = colour (info w) c"
    using pixel_bytes_eq unfolding n_def by blast
  define buf where "buf = take off (buffer w) @ take n bytes @ drop (off + n) (buffer w)"
  have range: "off + ?bpp \<le> length (buffer w)" "length (buffer w) < 2 ^ 63" "n \<le> ?bpp" "n \<le> 3"
    using pixel_range(1) [OF g True] g by (auto simp: off_def geometry_ok_def n_def)
  have "length (take n bytes) = n"
    using range bytes(2) by simp
  note splice = splice [OF range(1) this range(3), folded buf_def]
  have len: "length buf = length (buffer w)" and front: "take off buf = take off (buffer w)"
    and rear: "drop (off + ?bpp) buf = drop (off + ?bpp) (buffer w)" and here: "take n (drop off buf) = colour (info w) c"
    using splice bytes(3) by simp_all
  have vis: "\<not> (x \<ge> fi_width (info w) \<or> y \<ge> fi_height (info w))"
    using True by (auto simp: visible_def)
  note run = write_pixel_def vis pixel_offset_Ok [OF g True] off_def [symmetric] n_def [symmetric] bytes(1) Let_def
  show ?thesis
  proof (cases "?bpp > 3")
    case False
    then have "write_pixel w x y c = Ok (w\<lparr>buffer := buf\<rparr>)"
      using range bytes(2) by (simp add: run buf_def)
    then show ?thesis
      using pixel_replaced [OF g True off_def len front rear] here by (simp add: n_def)
  next
    case bpp: True
    then have "write_pixel w x y c = Ok (w\<lparr>buffer := buf[off + 3 := 0]\<rparr>)"
      using range bytes(2) len by (simp add: run buf_def)
    moreover have "n = 3"
      using bpp by (simp add: n_def)
    ultimately show ?thesis
      using pixel_replaced [OF g True off_def, of "buf[off + 3 := 0]"] len front rear here bpp
      by (simp add: n_def [symmetric] drop_update_swap)
  qed
qed

lemma invert_pixel_drawn:
  assumes g: "geometry_ok (info w) (length (buffer w))"
  shows "drawn w (invert_pixel w x y) (paint (info w) (map NOT) x y (pic w))"
proof (cases "visible (info w) x y")
  case False
  then show ?thesis
    using drawn_outside [OF False] by (auto simp: invert_pixel_def visible_def)
next
  case True
  let ?bpp = "bytes_per_pixel (info w)"
  define off where "off = (y * fi_stride (info w) + x) * ?bpp"
  define n where "n = min ?bpp 3"
  define bytes where "bytes = map NOT (take n (drop off (buffer w)))"
  define buf where "buf = take off (buffer w) @ bytes @ drop (off + n) (buffer w)"
  have range: "off + ?bpp \<le> length (buffer w)" "length (buffer w) < 2 ^ 63" "n \<le> ?bpp" "n \<le> 3"
    using pixel_range(1) [OF g True] g by (auto simp: off_def geometry_ok_def n_def)
  then have bytes: "length bytes = n"
    by (simp add: bytes_def)
  have vis: "\<not> (x \<ge> fi_width (info w) \<or> y \<ge> fi_height (info w))"
    using True by (auto simp: visible_def)
  have "invert_pixel w x y = Ok (w\<lparr>buffer := buf\<rparr>)"
    using range by (simp add: invert_pixel_def vis pixel_offset_Ok [OF g True] off_def [symmetric] n_def [symmetric] buf_def bytes_def)
  moreover note splice = splice [OF range(1) bytes range(3), folded buf_def]
  have "take n (drop off buf) = map NOT (pixel_at (info w) (buffer w) x y)"
    unfolding splice(4) by (simp add: bytes_def pixel_at_def off_def n_def)
  ultimately show ?thesis
    using pixel_replaced [OF g True off_def splice(1-3)] by (simp add: n_def)
qed

section \<open>Drawing loops\<close>

lemma drawn_for_each:
  assumes "\<And>x buf. x \<in> set xs \<Longrightarrow> length buf = length (buffer w) \<Longrightarrow>
      drawn (w\<lparr>buffer := buf\<rparr>) (body x (w\<lparr>buffer := buf\<rparr>)) (g x (pic (w\<lparr>buffer := buf\<rparr>)))"
  shows "drawn w (for_each body xs w) (fold g xs (pic w))"
  using assms
proof (induction xs arbitrary: w)
  case Nil
  show ?case
    by (auto simp: drawn_def intro!: exI [of _ "buffer w"])
next
  case (Cons x xs)
  obtain buf where buf: "body x w = Ok (w\<lparr>buffer := buf\<rparr>)" "length buf = length (buffer w)" "pic (w\<lparr>buffer := buf\<rparr>) = g x (pic w)"
    using Cons.prems [of x "buffer w"] by (auto simp: drawn_def)
  have "drawn (w\<lparr>buffer := buf\<rparr>) (for_each body xs (w\<lparr>buffer := buf\<rparr>)) (fold g xs (g x (pic w)))"
    using Cons.IH [of "w\<lparr>buffer := buf\<rparr>"] Cons.prems buf by simp
  then show ?case
    using buf by (auto simp: drawn_def)
qed

text \<open>A rectangle of pixels, each changed by \<open>f\<close>.\<close>

definition paint_rect :: "frame_info \<Rightarrow> (u8 list \<Rightarrow> u8 list) \<Rightarrow> nat set \<Rightarrow> nat set \<Rightarrow> picture \<Rightarrow> picture" where
  "paint_rect i f X Y p = (\<lambda>x y. if x \<in> X \<and> y \<in> Y \<and> visible i x y then f (p x y) else p x y)"

lemma fold_paint_row:
  "distinct xs \<Longrightarrow> fold (\<lambda>x. paint i f x y) xs = paint_rect i f (set xs) {y}"
  by (induction xs) (auto simp: paint_rect_def paint_def fun_eq_iff)

lemma fold_paint_rect:
  "distinct ys \<Longrightarrow> fold (\<lambda>y. paint_rect i f X {y}) ys p = paint_rect i f X (set ys) p"
  by (induction ys arbitrary: p) (auto simp: paint_rect_def fun_eq_iff)

lemma for_pixels_drawn:
  assumes body: "\<And>x y v. geometry_ok (info v) (length (buffer v)) \<Longrightarrow> drawn v (body x y v) (paint (info v) (f (info v)) x y (pic v))"
    and "geometry_ok (info w) (length (buffer w))" "distinct xs" "distinct ys"
  shows "drawn w (for_pixels xs ys body w) (paint_rect (info w) (f (info w)) (set xs) (set ys) (pic w))"
proof -
  have "drawn w (for_pixels xs ys body w) (fold (\<lambda>y. fold (\<lambda>x. paint (info w) (f (info w)) x y) xs) ys (pic w))"
    unfolding for_pixels_def
  proof (rule drawn_for_each)
    fix y and buf :: "u8 list"
    assume "length buf = length (buffer w)"
    then show "drawn (w\<lparr>buffer := buf\<rparr>) (for_each (\<lambda>x. body x y) xs (w\<lparr>buffer := buf\<rparr>))
        (fold (\<lambda>x. paint (info w) (f (info w)) x y) xs (pic (w\<lparr>buffer := buf\<rparr>)))"
      using body [of "w\<lparr>buffer := b\<rparr>" for b] assms(2) by (intro drawn_for_each) force
  qed
  then show ?thesis
    using assms(3,4) by (simp add: fold_paint_row fold_paint_rect)
qed

lemmas fill_drawn = for_pixels_drawn [where f = "\<lambda>i _. colour i c" for c, OF write_pixel_drawn]
lemmas invert_drawn = for_pixels_drawn [where f = "\<lambda>i. map NOT", OF invert_pixel_drawn]

section \<open>Screens\<close>

text \<open>
  The assumptions on the font crate: it has a glyph for the question mark, and every glyph is 16
  rows of the same, sensible, width.
\<close>

definition font_ok :: "font \<Rightarrow> bool" where
  "font_ok f \<longleftrightarrow> get_raster f 0x3f \<noteq> None \<and> get_raster_width f < 2 ^ 32 \<and>
     (\<forall>c r. get_raster f c = Some r \<longrightarrow> raster_width r = get_raster_width f \<and> length (raster_rows r) = FONT_HEIGHT \<and>
        (\<forall>line \<in> set (raster_rows r). length line = get_raster_width f))"

definition advance :: "font \<Rightarrow> nat" where
  "advance f = get_raster_width f + LETTER_SPACING"

text \<open>
  The invariant of the writer: the text position is inside the border, one text row fits below it,
  and it runs past the right edge only when not even one glyph fits a row.
\<close>

definition position_ok :: "font \<Rightarrow> frame_info \<Rightarrow> nat \<Rightarrow> nat \<Rightarrow> bool" where
  "position_ok f i c r \<longleftrightarrow> BORDER \<le> c \<and> c \<le> max (fi_width i) (BORDER + advance f) \<and> r + FONT_HEIGHT + BORDER \<le> fi_height i"

definition writer_ok :: "font \<Rightarrow> fb_writer \<Rightarrow> bool" where
  "writer_ok f w \<longleftrightarrow> geometry_ok (info w) (length (buffer w)) \<and> position_ok f (info w) (column w) (row w)"

text \<open>The cursor inverts a rectangle; the content of the screen is the picture without it.\<close>

definition cursor_rect :: "frame_info \<Rightarrow> nat \<Rightarrow> nat \<Rightarrow> picture \<Rightarrow> picture" where
  "cursor_rect i c r = paint_rect i (map NOT) {c..<c + CURSOR_WIDTH} {r..<r + FONT_HEIGHT}"

record screen =
  content :: picture
  s_column :: nat
  s_row :: nat

definition screen_of :: "fb_writer \<Rightarrow> screen" where
  "screen_of w = \<lparr>content = (if cursor_visible w then cursor_rect (info w) (column w) (row w) (pic w) else pic w),
     s_column = column w, s_row = row w\<rparr>"

subsection \<open>The operations on screens\<close>

definition blank :: "frame_info \<Rightarrow> nat set \<Rightarrow> nat set \<Rightarrow> picture \<Rightarrow> picture" where
  "blank i = paint_rect i (\<lambda>_. colour i BACKGROUND)"

definition spec_clear :: "frame_info \<Rightarrow> screen" where
  "spec_clear i = \<lparr>content = (\<lambda>x y. if visible i x y then colour i BACKGROUND else []), s_column = BORDER, s_row = BORDER\<rparr>"

text \<open>One text row up: 18 pixel rows disappear at the top and appear, blank, at the bottom.\<close>

definition scrolled :: "frame_info \<Rightarrow> picture \<Rightarrow> picture" where
  "scrolled i p = (\<lambda>x y. if y + 18 < fi_height i then p x (y + 18)
     else if visible i x y then colour i BACKGROUND else [])"

definition spec_new_line :: "frame_info \<Rightarrow> screen \<Rightarrow> screen" where
  "spec_new_line i s =
     (if s_row s + 18 + FONT_HEIGHT + BORDER > fi_height i
      then s\<lparr>content := scrolled i (content s), s_column := BORDER\<rparr>
      else s\<lparr>s_column := BORDER, s_row := s_row s + 18\<rparr>)"

definition glyph :: "font \<Rightarrow> nat \<Rightarrow> u8 list list" where
  "glyph f c = raster_rows (the (case get_raster f c of None \<Rightarrow> get_raster f 0x3f | Some r \<Rightarrow> Some r))"

definition paint_glyph :: "frame_info \<Rightarrow> u8 list list \<Rightarrow> nat \<Rightarrow> nat \<Rightarrow> picture \<Rightarrow> picture" where
  "paint_glyph i rows c r p = (\<lambda>x y.
     if c \<le> x \<and> r \<le> y \<and> y < r + length rows \<and> x < c + length (rows ! (y - r)) \<and> visible i x y
     then colour i (mix (rows ! (y - r) ! (x - c))) else p x y)"

definition spec_glyph :: "font \<Rightarrow> frame_info \<Rightarrow> nat \<Rightarrow> screen \<Rightarrow> screen" where
  "spec_glyph f i c s =
     (if c = 0x0a then spec_new_line i s else
      let s = (if s_column s + advance f + BORDER > fi_width i then spec_new_line i s else s) in
      s\<lparr>content := paint_glyph i (glyph f c) (s_column s) (s_row s) (content s), s_column := s_column s + advance f\<rparr>)"

definition spec_backspace :: "font \<Rightarrow> frame_info \<Rightarrow> screen \<Rightarrow> screen" where
  "spec_backspace f i s =
     (if s_column s \<le> BORDER then s else
      let c = max (s_column s - advance f) BORDER in
      s\<lparr>content := blank i {c..<c + advance f} {s_row s..<s_row s + FONT_HEIGHT} (content s), s_column := c\<rparr>)"

definition spec_char :: "font \<Rightarrow> frame_info \<Rightarrow> nat \<Rightarrow> screen \<Rightarrow> screen" where
  "spec_char f i c s =
     (if c = 0x0d then s\<lparr>s_column := BORDER\<rparr>
      else if c = 0x08 then spec_backspace f i s
      else if c = 0x09 then (spec_glyph f i 0x20 ^^ 4) s
      else if c < 0x80 then spec_glyph f i c s
      else spec_glyph f i 0x3f s)"

definition spec_print :: "font \<Rightarrow> frame_info \<Rightarrow> str \<Rightarrow> screen \<Rightarrow> screen" where
  "spec_print f i t s = fold (spec_char f i) t s"

subsection \<open>The writer implements them\<close>

text \<open>\<open>acts f w m s\<close>: the operation returns a well-formed writer that shows \<open>s\<close>, without the cursor.\<close>

definition acts :: "font \<Rightarrow> fb_writer \<Rightarrow> fb_writer may_panic \<Rightarrow> screen \<Rightarrow> bool" where
  "acts f w m s \<longleftrightarrow> (\<exists>w'. m = Ok w' \<and> writer_ok f w' \<and> info w' = info w \<and> \<not> cursor_visible w' \<and> screen_of w' = s)"

lemma geometry_bounds:
  assumes "geometry_ok i len"
  shows "fi_width i < 2 ^ 63" "fi_height i < 2 ^ 63" "18 * fi_stride i * bytes_per_pixel i \<le> len" "18 * fi_stride i < 2 ^ 64"
proof -
  let ?s = "fi_stride i" and ?b = "bytes_per_pixel i"
  have g: "fi_width i \<le> ?s" "1 \<le> fi_width i" "1 \<le> ?b" "32 \<le> fi_height i" "fi_height i * ?s * ?b \<le> len" "len < 2 ^ 63"
    using assms by (auto simp: geometry_ok_def)
  have "18 * ?s * ?b \<le> fi_height i * ?s * ?b"
    using g(4) by (intro mult_right_mono) auto
  with g(5) show a: "18 * ?s * ?b \<le> len"
    by linarith
  have "?s \<le> ?s * ?b"
    using g(3) by simp
  then have "18 * ?s \<le> 18 * ?s * ?b"
    by simp
  with a have "18 * ?s \<le> len"
    by linarith
  with g(1,6) show "18 * ?s < 2 ^ 64" "fi_width i < 2 ^ 63"
    by simp_all
  have "1 * 1 \<le> ?s * ?b"
    using g(1-3) by (intro mult_le_mono) auto
  from mult_left_mono [OF this, of "fi_height i"] have "fi_height i \<le> fi_height i * ?s * ?b"
    by (simp add: mult.assoc)
  with g(5,6) show "fi_height i < 2 ^ 63"
    by linarith
qed

text \<open>Moving the buffer up by 18 pixel rows.\<close>

lemma shifted_pic:
  assumes g: "geometry_ok (info w) (length (buffer w))" and y: "y + 18 < fi_height (info w)"
    and br: "br = 18 * fi_stride (info w) * bytes_per_pixel (info w)"
  shows "pic (w\<lparr>buffer := drop br (buffer w) @ rest\<rparr>) x y = pic w x (y + 18)"
proof (cases "x < fi_width (info w)")
  case False
  then show ?thesis
    by (simp add: picture_of_def visible_def)
next
  case True
  let ?off = "(y * fi_stride (info w) + x) * bytes_per_pixel (info w)"
  let ?n = "min (bytes_per_pixel (info w)) 3"
  have v: "visible (info w) x (y + 18)" "visible (info w) x y"
    using True y by (simp_all add: visible_def)
  have off: "((y + 18) * fi_stride (info w) + x) * bytes_per_pixel (info w) = br + ?off"
    by (simp add: br algebra_simps)
  then have "br + ?off + bytes_per_pixel (info w) \<le> length (buffer w)"
    using pixel_range(1) [OF g v(1)] by simp
  then have "take ?n (drop ?off (drop br (buffer w) @ rest)) = take ?n (drop (br + ?off) (buffer w))"
    by (simp add: add.commute)
  with v off show ?thesis
    by (simp add: picture_of_def pixel_at_def)
qed

lemma scroll_drawn:
  assumes g: "geometry_ok (info w) (length (buffer w))"
  shows "\<exists>buf. scroll w = Ok (w\<lparr>buffer := buf, row := row w - 18\<rparr>) \<and> length buf = length (buffer w) \<and>
    pic (w\<lparr>buffer := buf\<rparr>) = scrolled (info w) (pic w)"
proof -
  let ?i = "info w"
  define br where "br = 18 * fi_stride ?i * bytes_per_pixel ?i"
  define v where "v = w\<lparr>buffer := drop br (buffer w) @ drop (length (buffer w) - br) (buffer w)\<rparr>"
  have br: "br \<le> length (buffer w)" "18 * fi_stride ?i < 2 ^ 64" "length (buffer w) < 2 ^ 63"
    using geometry_bounds(3,4) [OF g] g by (simp_all add: br_def geometry_ok_def)
  then have v: "info v = ?i" "length (buffer v) = length (buffer w)"
    by (simp_all add: v_def)
  have "drawn v (for_pixels [0..<fi_width ?i] [fi_height ?i - 18..<fi_height ?i] (\<lambda>x y v. write_pixel v x y BACKGROUND) v)
      (paint_rect ?i (\<lambda>_. colour ?i BACKGROUND) {0..<fi_width ?i} {fi_height ?i - 18..<fi_height ?i} (pic v))"
    using fill_drawn [of v "[0..<fi_width ?i]" "[fi_height ?i - 18..<fi_height ?i]" BACKGROUND] g v by simp
  then obtain buf where buf: "for_pixels [0..<fi_width ?i] [fi_height ?i - 18..<fi_height ?i] (\<lambda>x y v. write_pixel v x y BACKGROUND) v
        = Ok (v\<lparr>buffer := buf\<rparr>)" "length buf = length (buffer w)"
      "pic (v\<lparr>buffer := buf\<rparr>) = paint_rect ?i (\<lambda>_. colour ?i BACKGROUND) {0..<fi_width ?i} {fi_height ?i - 18..<fi_height ?i} (pic v)"
    using v by (auto simp: drawn_def)
  have "scroll w = Ok (w\<lparr>buffer := buf, row := row w - 18\<rparr>)"
    using br buf(1) by (simp add: scroll_def FONT_HEIGHT_def LINE_SPACING_def br_def [symmetric] Let_def v_def)
  moreover have "paint_rect ?i (\<lambda>_. colour ?i BACKGROUND) {0..<fi_width ?i} {fi_height ?i - 18..<fi_height ?i} (pic v) x y
      = scrolled ?i (pic w) x y" for x y
  proof (cases "y + 18 < fi_height ?i")
    case True
    then show ?thesis
      using shifted_pic [OF g True br_def] by (auto simp: scrolled_def paint_rect_def v_def)
  next
    case False
    then show ?thesis
      using v(1) by (auto simp: scrolled_def paint_rect_def visible_def picture_of_def)
  qed
  ultimately show ?thesis
    using buf(2,3) by (auto simp: v_def fun_eq_iff)
qed

lemma screen_hidden: "\<not> cursor_visible w \<Longrightarrow> screen_of w = \<lparr>content = pic w, s_column = column w, s_row = row w\<rparr>"
  by (simp add: screen_of_def)

lemma screen_position [simp]: "s_column (screen_of w) = column w" "s_row (screen_of w) = row w"
  by (simp_all add: screen_of_def)

lemma new_line_acts:
  assumes ok: "writer_ok f w" and hid: "\<not> cursor_visible w"
  shows "acts f w (new_line w) (spec_new_line (info w) (screen_of w))"
proof -
  let ?v = "w\<lparr>column := BORDER, row := row w + 18\<rparr>"
  have g: "geometry_ok (info w) (length (buffer w))" and pos: "position_ok f (info w) (column w) (row w)"
    using ok by (auto simp: writer_ok_def)
  have r: "row w + 24 \<le> fi_height (info w)" "fi_height (info w) < 2 ^ 63" "32 \<le> fi_height (info w)"
    using pos geometry_bounds(2) [OF g] g by (auto simp: position_ok_def FONT_HEIGHT_def BORDER_def geometry_ok_def)
  have nl: "new_line w = (if row w + 42 > fi_height (info w) then scroll ?v else Ok ?v)"
    using r by (simp add: new_line_def FONT_HEIGHT_def LINE_SPACING_def BORDER_def Let_def)
  obtain buf where buf: "scroll ?v = Ok (?v\<lparr>buffer := buf, row := row w\<rparr>)" "length buf = length (buffer w)"
      "pic (?v\<lparr>buffer := buf\<rparr>) = scrolled (info w) (pic w)"
    using scroll_drawn [of ?v] g by auto
  show ?thesis
  proof (cases "row w + 42 > fi_height (info w)")
    case True
    have "pic (w\<lparr>buffer := buf, column := BORDER, row := row w\<rparr>) = scrolled (info w) (pic w)"
      using buf(3) by simp
    with True show ?thesis
      using g hid pos buf(1,2) nl
      by (auto simp: acts_def writer_ok_def position_ok_def screen_hidden spec_new_line_def FONT_HEIGHT_def BORDER_def)
  next
    case False
    with g hid nl show ?thesis
      by (auto simp: acts_def writer_ok_def position_ok_def screen_hidden spec_new_line_def FONT_HEIGHT_def BORDER_def)
  qed
qed

text \<open>Drawing a glyph.\<close>

lemma fold_paint_line:
  "fold (\<lambda>(x, v). paint i (\<lambda>_. colour i (mix v)) (c + x) y) (enumerate n line) p =
     (\<lambda>x' y'. if y' = y \<and> c + n \<le> x' \<and> x' < c + n + length line \<and> visible i x' y'
              then colour i (mix (line ! (x' - c - n))) else p x' y')"
proof (induction line arbitrary: n p)
  case (Cons v line)
  show ?case
    by (simp only: enumerate_simps fold_simps prod.case Cons.IH)
      (auto simp: paint_def fun_eq_iff nth_Cons')
qed (auto simp: fun_eq_iff)

lemma fold_paint_lines:
  "fold (\<lambda>(y, line). fold (\<lambda>(x, v). paint i (\<lambda>_. colour i (mix v)) (c + x) (r + y)) (enumerate 0 line)) (enumerate n rows) p =
     (\<lambda>x' y'. if c \<le> x' \<and> r + n \<le> y' \<and> y' < r + n + length rows \<and> x' < c + length (rows ! (y' - r - n)) \<and> visible i x' y'
              then colour i (mix (rows ! (y' - r - n) ! (x' - c))) else p x' y')"
proof (induction rows arbitrary: n p)
  case (Cons line rows)
  show ?case
    by (simp only: enumerate_simps fold_simps prod.case Cons.IH, simp only: fold_paint_line)
      (auto simp: fun_eq_iff nth_Cons')
qed (auto simp: fun_eq_iff)

lemma draw_raster_drawn:
  assumes g: "geometry_ok (info w) (length (buffer w))"
    and small: "column w + m < 2 ^ 64" "row w + length rows < 2 ^ 64" "\<And>line. line \<in> set rows \<Longrightarrow> length line \<le> m"
  shows "drawn w (draw_raster rows w) (paint_glyph (info w) rows (column w) (row w) (pic w))"
proof -
  let ?i = "info w"
  have "drawn w (draw_raster rows w)
     (fold (\<lambda>(y, line). fold (\<lambda>(x, v). paint ?i (\<lambda>_. colour ?i (mix v)) (column w + x) (row w + y)) (enumerate 0 line)) (enumerate 0 rows) (pic w))"
    unfolding draw_raster_def
  proof (rule drawn_for_each)
    fix e and buf :: "u8 list"
    assume e: "e \<in> set (enumerate 0 rows)" and len: "length buf = length (buffer w)"
    obtain y line where e': "e = (y, line)" "y < length rows" "line \<in> set rows"
      using e that [of "fst e" "snd e"] by (auto simp: in_set_enumerate_eq dest: nth_mem)
    let ?v = "w\<lparr>buffer := buf\<rparr>"
    have "drawn ?v (for_each (\<lambda>(x, intensity) w. obind (blend BACKGROUND FOREGROUND intensity) (\<lambda>color. obind (uadd (column w) x) (\<lambda>px.
         obind (uadd (row w) y) (\<lambda>py. write_pixel w px py color)))) (enumerate 0 line) ?v)
       (fold (\<lambda>(x, v). paint ?i (\<lambda>_. colour ?i (mix v)) (column w + x) (row w + y)) (enumerate 0 line) (pic ?v))"
    proof (rule drawn_for_each)
      fix d and buf' :: "u8 list"
      assume d: "d \<in> set (enumerate 0 line)" and len': "length buf' = length (buffer ?v)"
      obtain x v where d': "d = (x, v)" "x < length line"
        using d that [of "fst d" "snd d"] by (auto simp: in_set_enumerate_eq)
      have "x < m" "column w + x < 2 ^ 64" "row w + y < 2 ^ 64"
        using d'(2) e'(2) small(1,2) small(3) [OF e'(3)] by simp_all
      then show "drawn (?v\<lparr>buffer := buf'\<rparr>) ((\<lambda>(x, intensity) w. obind (blend BACKGROUND FOREGROUND intensity) (\<lambda>color.
            obind (uadd (column w) x) (\<lambda>px. obind (uadd (row w) y) (\<lambda>py. write_pixel w px py color)))) d (?v\<lparr>buffer := buf'\<rparr>))
          ((\<lambda>(x, v). paint ?i (\<lambda>_. colour ?i (mix v)) (column w + x) (row w + y)) d (pic (?v\<lparr>buffer := buf'\<rparr>)))"
        using write_pixel_drawn [of "w\<lparr>buffer := buf'\<rparr>"] g len len' by (simp add: d'(1) blend_eq)
    qed
    then show "drawn ?v ((\<lambda>(y, line). for_each (\<lambda>(x, intensity) w. obind (blend BACKGROUND FOREGROUND intensity) (\<lambda>color.
            obind (uadd (column w) x) (\<lambda>px. obind (uadd (row w) y) (\<lambda>py. write_pixel w px py color)))) (enumerate 0 line)) e ?v)
       ((\<lambda>(y, line). fold (\<lambda>(x, v). paint ?i (\<lambda>_. colour ?i (mix v)) (column w + x) (row w + y)) (enumerate 0 line)) e (pic ?v))"
      by (simp add: e'(1))
  qed
  then show ?thesis
    by (simp add: fold_paint_lines paint_glyph_def cong: if_cong)
qed

lemma drawn_acts:
  assumes "drawn w m p" "writer_ok f w" "\<not> cursor_visible w"
  shows "acts f w m ((screen_of w)\<lparr>content := p\<rparr>)"
  using assms by (auto simp: drawn_def acts_def writer_ok_def screen_hidden)

text \<open>The positions stay far below the machine's limit.\<close>

lemma position_bounds:
  assumes "font_ok f" "writer_ok f w"
  shows "column w + advance f + BORDER < 2 ^ 64" "row w + FONT_HEIGHT < 2 ^ 64" "column w + CURSOR_WIDTH < 2 ^ 64"
    "get_raster_width f + LETTER_SPACING < 2 ^ 64" "BORDER + advance f + advance f < 2 ^ 64"
proof -
  have g: "fi_width (info w) < 2 ^ 63" "fi_height (info w) < 2 ^ 63"
    using geometry_bounds(1,2) assms(2) by (auto simp: writer_ok_def)
  have p: "column w \<le> max (fi_width (info w)) (BORDER + advance f)" "row w + FONT_HEIGHT \<le> fi_height (info w)"
    using assms(2) by (auto simp: writer_ok_def position_ok_def)
  have "get_raster_width f < 2 ^ 32"
    using assms(1) by (auto simp: font_ok_def)
  with g p show "column w + advance f + BORDER < 2 ^ 64" "row w + FONT_HEIGHT < 2 ^ 64" "column w + CURSOR_WIDTH < 2 ^ 64"
    "get_raster_width f + LETTER_SPACING < 2 ^ 64" "BORDER + advance f + advance f < 2 ^ 64"
    by (simp_all add: advance_def BORDER_def LETTER_SPACING_def CURSOR_WIDTH_def max_def split: if_splits)
qed

lemma font_glyph:
  assumes "font_ok f"
  obtains r where "(case get_raster f c of None \<Rightarrow> get_raster f 0x3f | Some r \<Rightarrow> Some r) = Some r"
    "raster_rows r = glyph f c" "raster_width r = get_raster_width f" "length (glyph f c) = FONT_HEIGHT"
    "\<And>line. line \<in> set (glyph f c) \<Longrightarrow> length line = get_raster_width f"
proof -
  obtain r where r: "(case get_raster f c of None \<Rightarrow> get_raster f 0x3f | Some r \<Rightarrow> Some r) = Some r"
    using assms by (cases "get_raster f c") (auto simp: font_ok_def)
  then have "get_raster f c = Some r \<or> get_raster f 0x3f = Some r"
    by (auto split: option.splits)
  with assms have "raster_width r = get_raster_width f" "length (raster_rows r) = FONT_HEIGHT"
    "\<And>line. line \<in> set (raster_rows r) \<Longrightarrow> length line = get_raster_width f"
    by (auto simp: font_ok_def)
  then show thesis
    using r by (intro that [of r]) (simp_all add: glyph_def)
qed

lemma glyph_acts:
  assumes f: "font_ok f" and ok: "writer_ok f w" and hid: "\<not> cursor_visible w"
    and fits: "column w + advance f \<le> max (fi_width (info w)) (BORDER + advance f)"
  shows "acts f w (obind (draw_raster (glyph f c) w) (\<lambda>w. obind (uadd (column w) (advance f)) (\<lambda>c. Ok (w\<lparr>column := c\<rparr>))))
     ((screen_of w)\<lparr>content := paint_glyph (info w) (glyph f c) (column w) (row w) (content (screen_of w)),
        s_column := column w + advance f\<rparr>)"
proof -
  obtain r where r: "length (glyph f c) = FONT_HEIGHT" "\<And>line. line \<in> set (glyph f c) \<Longrightarrow> length line = get_raster_width f"
    using font_glyph [OF f, of c] by metis
  note bounds = position_bounds [OF f ok]
  have "drawn w (draw_raster (glyph f c) w) (paint_glyph (info w) (glyph f c) (column w) (row w) (pic w))"
    using ok r bounds(1,2) by (intro draw_raster_drawn [where m = "get_raster_width f"]) (auto simp: writer_ok_def advance_def)
  then obtain buf where buf: "draw_raster (glyph f c) w = Ok (w\<lparr>buffer := buf\<rparr>)" "length buf = length (buffer w)"
      "picture_of (info w) buf = paint_glyph (info w) (glyph f c) (column w) (row w) (pic w)"
    by (auto simp: drawn_def)
  with ok hid bounds(1) fits show ?thesis
    by (simp add: acts_def writer_ok_def position_ok_def screen_hidden)
qed

lemma write_character_acts:
  assumes f: "font_ok f" and ok: "writer_ok f w" and hid: "\<not> cursor_visible w"
  shows "acts f w (write_character f w c) (spec_glyph f (info w) c (screen_of w))"
proof (cases "c = 0x0a")
  case True
  then show ?thesis
    using new_line_acts [OF ok hid] by (simp add: write_character_def spec_glyph_def)
next
  case False
  obtain r where r: "(case get_raster f c of None \<Rightarrow> get_raster f 0x3f | Some r \<Rightarrow> Some r) = Some r"
    "raster_rows r = glyph f c" "raster_width r = get_raster_width f"
    using font_glyph [OF f, of c] by metis
  note bounds = position_bounds [OF f ok]
  let ?wraps = "column w + advance f + BORDER > fi_width (info w)"
  let ?s = "if ?wraps then spec_new_line (info w) (screen_of w) else screen_of w"
  have "acts f w (if ?wraps then new_line w else Ok w) ?s"
    using new_line_acts [OF ok hid] ok hid by (auto simp: acts_def)
  then obtain v where v: "(if ?wraps then new_line w else Ok w) = Ok v" "writer_ok f v" "info v = info w" "\<not> cursor_visible v"
      "screen_of v = ?s"
    by (auto simp: acts_def)
  have "column v + advance f \<le> max (fi_width (info v)) (BORDER + advance f)"
  proof (cases ?wraps)
    case True
    have "s_column (screen_of v) = BORDER"
      using True by (simp add: v(5) spec_new_line_def)
    then show ?thesis by simp
  next
    case False
    with v(1) show ?thesis by simp
  qed
  note glyph = glyph_acts [OF f v(2,4) this, of c]
  have "write_character f w c = obind (draw_raster (glyph f c) v) (\<lambda>w. obind (uadd (column w) (advance f)) (\<lambda>c. Ok (w\<lparr>column := c\<rparr>)))"
    using False r bounds(1,4) v(1) by (simp add: write_character_def advance_def)
  moreover have "spec_glyph f (info w) c (screen_of w) = (screen_of v)\<lparr>content := paint_glyph (info v) (glyph f c) (column v) (row v)
      (content (screen_of v)), s_column := column v + advance f\<rparr>"
    using False v(3) unfolding spec_glyph_def Let_def screen_position v(5) [symmetric] by simp
  ultimately show ?thesis
    using glyph v(3) by (simp add: acts_def)
qed

lemma paint_rect_clip:
  "paint_rect i f {c..<min c' (fi_width i)} {r..<min r' (fi_height i)} = paint_rect i f {c..<c'} {r..<r'}"
  by (auto simp: paint_rect_def visible_def fun_eq_iff)

lemma backspace_acts:
  assumes f: "font_ok f" and ok: "writer_ok f w" and hid: "\<not> cursor_visible w"
  shows "acts f w (backspace f w) (spec_backspace f (info w) (screen_of w))"
proof (cases "column w \<le> BORDER")
  case True
  then show ?thesis
    using position_bounds(4) [OF f ok] ok hid by (simp add: backspace_def spec_backspace_def acts_def)
next
  case False
  let ?c = "max (column w - advance f) BORDER"
  let ?v = "w\<lparr>column := ?c\<rparr>"
  have v: "writer_ok f ?v" "\<not> cursor_visible ?v"
    using ok hid by (auto simp: writer_ok_def position_ok_def max_def)
  note bounds = position_bounds [OF f ok] position_bounds [OF f v(1)]
  have "drawn ?v (for_pixels [?c..<min (?c + advance f) (fi_width (info w))] [row w..<min (row w + FONT_HEIGHT) (fi_height (info w))]
      (\<lambda>x y v. write_pixel v x y BACKGROUND) ?v) (blank (info w) {?c..<?c + advance f} {row w..<row w + FONT_HEIGHT} (pic w))"
    using fill_drawn [of ?v "[?c..<min (?c + advance f) (fi_width (info w))]"
        "[row w..<min (row w + FONT_HEIGHT) (fi_height (info w))]" BACKGROUND] v(1)
    by (simp add: writer_ok_def blank_def paint_rect_clip)
  from drawn_acts [OF this v] show ?thesis
    using False bounds hid
    by (simp add: backspace_def spec_backspace_def advance_def [symmetric] Let_def acts_def screen_hidden)
qed

lemma toggle_cursor_drawn:
  assumes f: "font_ok f" and ok: "writer_ok f w"
  shows "drawn w (toggle_cursor w) (cursor_rect (info w) (column w) (row w) (pic w))"
  using invert_drawn [of w "[column w..<min (column w + CURSOR_WIDTH) (fi_width (info w))]"
      "[row w..<min (row w + FONT_HEIGHT) (fi_height (info w))]"] ok position_bounds [OF f ok]
  by (simp add: toggle_cursor_def writer_ok_def cursor_rect_def paint_rect_clip)

lemma cursor_rect_twice: "cursor_rect i c r (cursor_rect i c r p) = p"
  by (auto simp: cursor_rect_def paint_rect_def fun_eq_iff comp_def)

lemma hide_cursor_acts:
  assumes f: "font_ok f" and ok: "writer_ok f w"
  shows "acts f w (hide_cursor w) (screen_of w)"
proof (cases "cursor_visible w")
  case True
  then obtain buf where "toggle_cursor w = Ok (w\<lparr>buffer := buf\<rparr>)" "length buf = length (buffer w)"
      "picture_of (info w) buf = cursor_rect (info w) (column w) (row w) (pic w)"
    using toggle_cursor_drawn [OF f ok] by (auto simp: drawn_def)
  with True ok show ?thesis
    unfolding acts_def
    by (intro exI [of _ "w\<lparr>buffer := buf, cursor_visible := False\<rparr>"]) (auto simp: hide_cursor_def writer_ok_def screen_of_def)
qed (use ok in \<open>simp add: hide_cursor_def acts_def\<close>)

lemma show_cursor_shows:
  assumes f: "font_ok f" and ok: "writer_ok f w"
  shows "\<exists>w'. writer_show_cursor w = Ok w' \<and> writer_ok f w' \<and> info w' = info w \<and> cursor_visible w' \<and> screen_of w' = screen_of w"
proof (cases "cursor_visible w")
  case False
  then show ?thesis
    using toggle_cursor_drawn [OF f ok] ok cursor_rect_twice
    by (auto simp: writer_show_cursor_def drawn_def writer_ok_def screen_of_def)
qed (use ok in \<open>simp add: writer_show_cursor_def\<close>)

lemma clear_acts:
  assumes ok: "writer_ok f w"
  shows "acts f w (clear w) (spec_clear (info w))"
proof -
  have g: "geometry_ok (info w) (length (buffer w))"
    using ok by (simp add: writer_ok_def)
  then obtain buf where buf: "for_pixels [0..<fi_width (info w)] [0..<fi_height (info w)] (\<lambda>x y v. write_pixel v x y BACKGROUND) w
       = Ok (w\<lparr>buffer := buf\<rparr>)" "length buf = length (buffer w)"
      "picture_of (info w) buf = blank (info w) {0..<fi_width (info w)} {0..<fi_height (info w)} (pic w)"
    using fill_drawn [of w "[0..<fi_width (info w)]" "[0..<fi_height (info w)]" BACKGROUND] by (auto simp: drawn_def blank_def)
  have "blank (info w) {0..<fi_width (info w)} {0..<fi_height (info w)} (pic w) = content (spec_clear (info w))"
    by (auto simp: blank_def paint_rect_def spec_clear_def fun_eq_iff visible_def picture_of_def)
  with buf g show ?thesis
    by (auto simp: clear_def acts_def writer_ok_def position_ok_def screen_hidden spec_clear_def geometry_ok_def
        BORDER_def FONT_HEIGHT_def)
qed

lemma acts_bind:
  assumes "acts f w m s" "\<And>v. writer_ok f v \<Longrightarrow> info v = info w \<Longrightarrow> \<not> cursor_visible v \<Longrightarrow> screen_of v = s \<Longrightarrow> acts f v (k v) s'"
  shows "acts f w (obind m k) s'"
  using assms unfolding acts_def by force

lemma acts_for_each:
  assumes step: "\<And>x v. x \<in> set xs \<Longrightarrow> writer_ok f v \<Longrightarrow> info v = info w \<Longrightarrow> \<not> cursor_visible v \<Longrightarrow>
      acts f v (body x v) (g x (screen_of v))"
    and "writer_ok f w" "\<not> cursor_visible w"
  shows "acts f w (for_each body xs w) (fold g xs (screen_of w))"
  using assms
proof (induction xs arbitrary: w)
  case Nil
  then show ?case
    by (simp add: acts_def)
next
  case (Cons x xs)
  have "acts f w (body x w) (g x (screen_of w))"
    using Cons.prems by simp
  then show ?case
    unfolding for_each.simps fold_simps
  proof (rule acts_bind)
    fix v
    assume "writer_ok f v" "info v = info w" "\<not> cursor_visible v" "screen_of v = g x (screen_of w)"
    then show "acts f v (for_each body xs v) (fold g xs (g x (screen_of w)))"
      using Cons.IH [of v] Cons.prems(1) by simp
  qed
qed

lemma write_char_acts:
  assumes f: "font_ok f" and ok: "writer_ok f w" and hid: "\<not> cursor_visible w"
  shows "acts f w (write_char f c w) (spec_char f (info w) c (screen_of w))"
proof -
  have "acts f w (for_each (\<lambda>_ w. write_character f w 0x20) [0..<4] w) (fold (\<lambda>_. spec_glyph f (info w) 0x20) [0..<4] (screen_of w))"
    using write_character_acts [OF f] ok hid by (intro acts_for_each) (simp_all, metis)
  moreover have "fold (\<lambda>_. spec_glyph f (info w) 0x20) [0..<4] s = (spec_glyph f (info w) 0x20 ^^ 4) s" for s
    by (simp add: upt_rec numeral_eq_Suc)
  ultimately show ?thesis
    using backspace_acts [OF f ok hid] write_character_acts [OF f ok hid] ok hid
    by (simp add: write_char_def spec_char_def) (auto simp: acts_def writer_ok_def position_ok_def screen_hidden)
qed

lemma write_str_acts:
  assumes f: "font_ok f" and ok: "writer_ok f w" and hid: "\<not> cursor_visible w"
  shows "acts f w (writer_write_str f w t) (spec_print f (info w) t (screen_of w))"
  unfolding writer_write_str_def spec_print_def
  using write_char_acts [OF f] ok hid by (intro acts_for_each) (simp_all, metis)

lemma print_acts:
  assumes f: "font_ok f" and ok: "writer_ok f w"
  shows "acts f w (obind (hide_cursor w) (\<lambda>w. writer_write_str f w t)) (spec_print f (info w) t (screen_of w))"
  using hide_cursor_acts [OF f ok] write_str_acts [OF f] by (intro acts_bind) (assumption, metis)

section \<open>Bounds of blending\<close>

text \<open>
  Blending a glyph pixel never overflows the 16-bit arithmetic. Intensity 0 gives the
  background, 255 the foreground, and every channel of a blend lies between those of its two
  colours.
\<close>

lemma blend_between:
  "\<exists>c0 c1 c2. blend (b0, b1, b2) (f0, f1, f2) i = Ok (c0, c1, c2) \<and>
     c0 \<in> {min b0 f0..max b0 f0} \<and> c1 \<in> {min b1 f1..max b1 f1} \<and> c2 \<in> {min b2 f2..max b2 f2} \<and>
     blend (b0, b1, b2) (f0, f1, f2) 0 = Ok (b0, b1, b2) \<and> blend (b0, b1, b2) (f0, f1, f2) 255 = Ok (f0, f1, f2)"
proof -
  have "mix_channel b f i \<in> {min b f..max b f}" for b f
    using mix_channel_bounds [of b f i] by (auto simp: word_le_nat_alt min_def max_def split: if_splits)
  then show ?thesis
    by (simp add: blend_def blend_channel_eq mix_channel_ends)
qed

end
