(* ===== verification/Console.thy ===== *)
theory Console
  imports Serial Framebuffer_Correct
begin

text \<open>
  The console (\<open>kernel/src/console.rs\<close>): \<open>print!\<close> writes its text to the serial line and to the
  framebuffer. The shell and the boot code are modelled as producing console operations; this
  theory says what a sequence of operations does to the two devices.
\<close>

section \<open>Definitions\<close>

datatype console_op = Print str | SerialPrint str | ShowCursor | ClearScreen

definition console_print :: "'h bus \<Rightarrow> font \<Rightarrow> str \<Rightarrow> fb_writer option \<Rightarrow> ('h, fb_writer option may_panic) state" where
  "console_print b f t w = do { serial_print b t; ret (framebuffer_print f t w) }"

definition console_panic_print :: "font \<Rightarrow> bool \<Rightarrow> str \<Rightarrow> fb_writer option \<Rightarrow> fb_writer option may_panic" where
  "console_panic_print f locked t w = panic_print f locked t w"

text \<open>\<open>println!\<close> appends a newline to the text it formats.\<close>

definition println :: "str \<Rightarrow> console_op" where
  "println t = Print (t @ [0x0a])"

definition serial_println :: "str \<Rightarrow> console_op" where
  "serial_println t = SerialPrint (t @ [0x0a])"

fun console_step :: "'h bus \<Rightarrow> font \<Rightarrow> console_op \<Rightarrow> fb_writer option \<Rightarrow> ('h, fb_writer option may_panic) state" where
  "console_step b f (Print t) w = console_print b f t w"
| "console_step b f (SerialPrint t) w = do { serial_print b t; ret (Ok w) }"
| "console_step b f ShowCursor w = ret (framebuffer_show_cursor w)"
| "console_step b f ClearScreen w = ret (framebuffer_clear w)"

fun console_run :: "'h bus \<Rightarrow> font \<Rightarrow> console_op list \<Rightarrow> fb_writer option \<Rightarrow> ('h, fb_writer option may_panic) state" where
  "console_run b f [] w = ret (Ok w)"
| "console_run b f (op # ops) w = do {
     r \<leftarrow> console_step b f op w;
     case r of Ok w' \<Rightarrow> console_run b f ops w' | Err e \<Rightarrow> ret (Err e) | Panic \<Rightarrow> ret Panic
   }"

section \<open>What the two devices receive\<close>

fun spec_op :: "font \<Rightarrow> frame_info \<Rightarrow> console_op \<Rightarrow> screen \<Rightarrow> screen" where
  "spec_op f i (Print t) s = spec_print f i t s"
| "spec_op f i (SerialPrint t) s = s"
| "spec_op f i ShowCursor s = s"
| "spec_op f i ClearScreen s = spec_clear i"

fun serial_text :: "console_op list \<Rightarrow> str" where
  "serial_text [] = []"
| "serial_text (Print t # ops) = t @ serial_text ops"
| "serial_text (SerialPrint t # ops) = t @ serial_text ops"
| "serial_text (_ # ops) = serial_text ops"

abbreviation op_text :: "console_op \<Rightarrow> str" where
  "op_text op \<equiv> serial_text [op]"

lemma serial_text_Cons: "serial_text (op # ops) = op_text op @ serial_text ops"
  by (cases op) simp_all

lemma serial_text_append [simp]: "serial_text (xs @ ys) = serial_text xs @ serial_text ys"
  by (induction xs rule: serial_text.induct) simp_all

lemma crlf_append: "crlf (xs @ ys) = crlf xs @ crlf ys"
  by (simp add: crlf_def)

lemma encode_append: "encode_utf8 (s @ t) = encode_utf8 s @ encode_utf8 t"
  by (simp add: encode_utf8_def)

lemma transmissions_append: "transmissions xs evs \<Longrightarrow> transmissions ys evs' \<Longrightarrow> transmissions (xs @ ys) (evs @ evs')"
  unfolding transmissions_def by (metis concat_append list_all2_appendI)

text \<open>A writer is the right one for a screen.\<close>

definition shows_screen :: "font \<Rightarrow> frame_info \<Rightarrow> screen \<Rightarrow> fb_writer option may_panic \<Rightarrow> bool" where
  "shows_screen f i s r \<longleftrightarrow> (\<exists>w. r = Ok (Some w) \<and> writer_ok f w \<and> info w = i \<and> screen_of w = s)"

lemma acts_shows: "acts f w m s \<Longrightarrow> shows_screen f (info w) s (obind m (\<lambda>w. Ok (Some w)))"
  by (auto simp: acts_def shows_screen_def)

text \<open>What an operation does to the writer does not depend on the serial line.\<close>

lemma console_step_shows:
  assumes f: "font_ok f" and ok: "writer_ok f w"
  shows "shows_screen f (info w) (spec_op f (info w) op (screen_of w)) (fst (run_state (console_step b f op (Some w)) h))"
proof (cases op)
  case (Print t)
  then show ?thesis
    using acts_shows [OF print_acts [OF f ok]] by (simp add: console_print_def framebuffer_print_def with_writer_def split: prod.split)
next
  case (SerialPrint t)
  then show ?thesis
    using ok by (auto simp: shows_screen_def split: prod.split)
next
  case ShowCursor
  then show ?thesis
    using show_cursor_shows [OF f ok] by (auto simp: framebuffer_show_cursor_def with_writer_def shows_screen_def)
next
  case ClearScreen
  then show ?thesis
    using acts_shows [OF clear_acts [OF ok]] by (simp add: framebuffer_clear_def with_writer_def)
qed

lemma console_step_spec:
  assumes f: "font_ok f" and ok: "writer_ok f w"
  shows "io_spec (console_step (logged b) f op (Some w)) (\<lambda>r evs.
    shows_screen f (info w) (spec_op f (info w) op (screen_of w)) r \<and> transmissions (crlf (encode_utf8 (op_text op))) evs)"
proof (cases op)
  case (Print t)
  have "shows_screen f (info w) (spec_print f (info w) t (screen_of w)) (framebuffer_print f t (Some w))"
    using acts_shows [OF print_acts [OF f ok]] by (simp add: framebuffer_print_def with_writer_def)
  then show ?thesis
    unfolding Print console_step.simps console_print_def serial_print_def
    by (intro io_bind [OF serial_write_str_spec] io_return) simp
next
  case (SerialPrint t)
  then show ?thesis
    unfolding SerialPrint console_step.simps serial_print_def using ok
    by (intro io_bind [OF serial_write_str_spec] io_return) (auto simp: shows_screen_def)
next
  case ShowCursor
  then show ?thesis
    using show_cursor_shows [OF f ok]
    by (auto simp: framebuffer_show_cursor_def with_writer_def shows_screen_def crlf_def encode_utf8_def transmissions_Nil
        intro!: io_return)
next
  case ClearScreen
  then show ?thesis
    using acts_shows [OF clear_acts [OF ok]]
    by (auto simp: framebuffer_clear_def with_writer_def crlf_def encode_utf8_def transmissions_Nil intro!: io_return)
qed

lemma console_run_spec:
  assumes f: "font_ok f" and ok: "writer_ok f w"
  shows "io_spec (console_run (logged b) f ops (Some w)) (\<lambda>r evs.
    shows_screen f (info w) (fold (spec_op f (info w)) ops (screen_of w)) r \<and> transmissions (crlf (encode_utf8 (serial_text ops))) evs)"
  using ok
proof (induction ops arbitrary: w)
  case Nil
  then show ?case
    by (auto simp: shows_screen_def crlf_def encode_utf8_def transmissions_Nil intro!: io_return)
next
  case (Cons op ops)
  show ?case
    unfolding console_run.simps
  proof (rule io_bind [OF console_step_spec [OF f Cons.prems]], elim conjE)
    fix r evs
    assume "shows_screen f (info w) (spec_op f (info w) op (screen_of w)) r"
      and evs: "transmissions (crlf (encode_utf8 (op_text op))) evs"
    then obtain v where v: "r = Ok (Some v)" "writer_ok f v" "info v = info w" "screen_of v = spec_op f (info w) op (screen_of w)"
      by (auto simp: shows_screen_def)
    have "io_spec (console_run (logged b) f ops (Some v)) (\<lambda>r evs'.
        shows_screen f (info w) (fold (spec_op f (info w)) (op # ops) (screen_of w)) r \<and>
        transmissions (crlf (encode_utf8 (serial_text (op # ops)))) (evs @ evs'))"
      by (rule io_weaken [OF Cons.IH [OF v(2)]])
        (use evs in \<open>auto simp: v serial_text_Cons [of op ops] encode_append crlf_append intro: transmissions_append\<close>)
    then show "io_spec (case r of Ok w' \<Rightarrow> console_run (logged b) f ops w' | Err e \<Rightarrow> ret (Err e) | Panic \<Rightarrow> ret Panic)
        (\<lambda>r evs'. shows_screen f (info w) (fold (spec_op f (info w)) (op # ops) (screen_of w)) r \<and>
          transmissions (crlf (encode_utf8 (serial_text (op # ops)))) (evs @ evs'))"
      by (simp add: v(1))
  qed
qed

text \<open>Before the framebuffer is set up only the serial line receives text.\<close>

lemma console_run_none:
  "io_spec (console_run (logged b) f ops None) (\<lambda>r evs. r = Ok None \<and> transmissions (crlf (encode_utf8 (serial_text ops))) evs)"
proof (induction ops)
  case Nil
  then show ?case
    by (auto simp: crlf_def encode_utf8_def transmissions_Nil intro!: io_return)
next
  case (Cons op ops)
  have "io_spec (console_step (logged b) f op None) (\<lambda>r evs. r = Ok None \<and> transmissions (crlf (encode_utf8 (op_text op))) evs)"
    by (cases op) (auto simp: console_print_def serial_print_def framebuffer_print_def framebuffer_show_cursor_def framebuffer_clear_def
        with_writer_def crlf_def encode_utf8_def transmissions_Nil intro!: io_return io_bind [OF serial_write_str_spec, unfolded crlf_def])
  then show ?case
    unfolding console_run.simps
    by (rule io_bind) (auto simp: serial_text_Cons [of op ops] encode_append crlf_append
        intro: io_weaken [OF Cons.IH] transmissions_append)
qed

section \<open>A demonstration console\<close>

text \<open>A font with one glyph, a screen of 26 by 32 grey pixels, and a bus that answers 0xff.\<close>

definition demo_font :: font where
  "demo_font = \<lparr>get_raster = (\<lambda>c. if c = 0x3f then Some \<lparr>raster_width = 4, raster_rows = replicate 16 [0, 255, 128, 0]\<rparr> else None),
     get_raster_width = 4\<rparr>"

definition demo_writer :: fb_writer where
  "demo_writer = writer_new (replicate 832 0) \<lparr>fi_width = 26, fi_height = 32, fi_stride = 26, bytes_per_pixel = 1, pixel_format = U8\<rparr>"

definition demo_bus :: "unit bus" where
  "demo_bus = \<lparr>bus_in8 = (\<lambda>_ h. (0xff, h)), bus_out8 = (\<lambda>_ _ h. h), bus_in32 = (\<lambda>_ h. (0xffffffff, h)), bus_out32 = (\<lambda>_ _ h. h)\<rparr>"

lemma demo_console: "font_ok demo_font" "writer_ok demo_font demo_writer"
  by (auto simp: font_ok_def demo_font_def FONT_HEIGHT_def writer_ok_def demo_writer_def writer_new_def geometry_ok_def position_ok_def
      BORDER_def)

section \<open>Properties\<close>

text \<open>
  C7. With a frame buffer of the promised geometry and a font with glyphs of one size, no sequence
  of console operations panics. Afterwards the screen shows what the operations on screens prescribe:
  text drawn glyph by glyph with wrapping, tabs, backspaces and scrolling by one text row, nothing
  else touched, and the cursor not part of the content. The position stays on the screen. The
  serial line received exactly the printed text.
\<close>

theorem console_refines:
  assumes "font_ok f" "writer_ok f w"
  shows "io_spec (console_run (logged b) f ops (Some w)) (\<lambda>r evs.
    (\<exists>w'. r = Ok (Some w') \<and> writer_ok f w' \<and> info w' = info w \<and>
          screen_of w' = fold (spec_op f (info w)) ops (screen_of w)) \<and>
    transmissions (crlf (encode_utf8 (serial_text ops))) evs)"
  by (rule io_weaken [OF console_run_spec [OF assms]]) (auto simp: shows_screen_def)

text \<open>Witness of C7: a clear screen and a printed line on the demonstration console.\<close>

theorem console_refines_witness:
  "io_spec (console_run (logged demo_bus) demo_font [ClearScreen, Print [0x41, 0x0a], ShowCursor] (Some demo_writer)) (\<lambda>r evs.
    (\<exists>w'. r = Ok (Some w') \<and> column w' = BORDER \<and> row w' = BORDER) \<and> transmissions [0x41, 0x0d, 0x0a] evs)"
proof -
  let ?ops = "[ClearScreen, Print [0x41, 0x0a], ShowCursor]"
  let ?i = "info demo_writer"
  have "s_column (fold (spec_op demo_font ?i) ?ops (screen_of demo_writer)) = BORDER"
    "s_row (fold (spec_op demo_font ?i) ?ops (screen_of demo_writer)) = BORDER"
    by (simp_all add: spec_print_def spec_char_def spec_glyph_def spec_new_line_def spec_clear_def demo_writer_def writer_new_def
        advance_def demo_font_def LETTER_SPACING_def FONT_HEIGHT_def BORDER_def)
  then have pos: "column w = BORDER \<and> row w = BORDER" if "screen_of w = fold (spec_op demo_font ?i) ?ops (screen_of demo_writer)" for w
    using that screen_position [of w] by metis
  have sent: "crlf (encode_utf8 (serial_text ?ops)) = [0x41, 0x0d, 0x0a]"
    by (simp add: encode_utf8_def encode_char_def crlf_def)
  show ?thesis
    by (rule io_weaken [OF console_refines [OF demo_console]]) (use pos sent in metis)
qed

end
