(* ===== verification/Keyboard_Correct.thy ===== *)
theory Keyboard_Correct
  imports Keyboard
begin

text \<open>
  The keyboard against its specification: a stream of scancodes, interleaved with the shell taking
  events, is a bounded FIFO fed by a decoder with three flags; the characters decoded are printable
  ASCII; the controller set-up polls a bounded number of times and writes only when the controller
  is ready.
\<close>

section \<open>The scancode stream\<close>

datatype kbd_op = Scan u8 | Next

fun run_kbd :: "kbd_op list \<Rightarrow> kbd \<Rightarrow> (key_event option list \<times> kbd) may_panic" where
  "run_kbd [] k = Ok ([], k)"
| "run_kbd (Scan c # ops) k = obind (handle_scancode k c) (run_kbd ops)"
| "run_kbd (Next # ops) k =
     obind (next_event k) (\<lambda>(e, k'). obind (run_kbd ops k') (\<lambda>(es, k''). Ok (e # es, k'')))"

text \<open>The same as queue operations: \<open>shift\<close>, \<open>caps\<close> and \<open>ext\<close> are the decoder's flags.\<close>

definition enq_event :: "key_event option \<Rightarrow> key_event fifo_op list" where
  "enq_event e = (case e of None \<Rightarrow> [] | Some e \<Rightarrow> [Enq e])"

fun decode_ops :: "bool \<Rightarrow> bool \<Rightarrow> bool \<Rightarrow> kbd_op list \<Rightarrow> key_event fifo_op list" where
  "decode_ops shift caps ext [] = []"
| "decode_ops shift caps ext (Next # ops) = Deq # decode_ops shift caps ext ops"
| "decode_ops shift caps ext (Scan c # ops) =
     (if c = 0xe0 then decode_ops shift caps True ops
      else if ext then enq_event (extended_event_for_set_1 c) @ decode_ops shift caps False ops
      else if c \<in> {0x2a, 0x36} then decode_ops True caps False ops
      else if c \<in> {0xaa, 0xb6} then decode_ops False caps False ops
      else if c = 0x3a then decode_ops shift (\<not> caps) False ops
      else enq_event (ascii_for_set_1 c shift caps) @ decode_ops shift caps False ops)"

definition shift_on :: "kbd \<Rightarrow> bool" where
  "shift_on k \<longleftrightarrow> modifiers k AND SHIFT \<noteq> 0"

definition caps_on :: "kbd \<Rightarrow> bool" where
  "caps_on k \<longleftrightarrow> modifiers k AND CAPS_LOCK \<noteq> 0"

text \<open>No table has a code with the top bit set, so a key release never yields an event.\<close>

lemma table_None: "list_all (\<lambda>(c, _). P c) t \<Longrightarrow> \<not> P c \<Longrightarrow> map_of t c = None"
  by (auto simp: map_of_eq_None_iff list_all_iff)

lemma table_entry: "map_of t c = Some v \<Longrightarrow> list_all P t \<Longrightarrow> P (c, v)"
  by (auto simp: list_all_iff dest: map_of_SomeD)

lemma table_codes:
  "list_all (\<lambda>(c, _). c AND 0x80 = 0) extended_keys"
  "list_all (\<lambda>(c, _). c AND 0x80 = 0) symbol_keys"
  "list_all (\<lambda>(c, _). c AND 0x80 = 0) letter_keys"
  by (simp_all add: extended_keys_def symbol_keys_def letter_keys_def)

lemma release_no_event:
  assumes "c AND 0x80 \<noteq> 0"
  shows "extended_event_for_set_1 c = None" "ascii_for_set_1 c shift caps = None"
proof -
  have "map_of extended_keys c = None" "map_of symbol_keys c = None" "map_of letter_keys c = None"
    using assms table_codes [THEN table_None] by simp_all
  moreover have "c \<noteq> 0x0e" "c \<noteq> 0x0f" "c \<noteq> 0x1c" "c \<noteq> 0x39"
    using assms by auto
  ultimately show "extended_event_for_set_1 c = None" "ascii_for_set_1 c shift caps = None"
    by (simp_all add: extended_event_for_set_1_def ascii_for_set_1_def letter_for_set_1_def)
qed

lemma modifier_bits: "shift_on k \<longleftrightarrow> bit (modifiers k) 0" "caps_on k \<longleftrightarrow> bit (modifiers k) 1"
  using and_exp_eq_0_iff_not_bit [of "modifiers k" 0] and_exp_eq_0_iff_not_bit [of "modifiers k" 1]
  by (simp_all add: shift_on_def caps_on_def SHIFT_def CAPS_LOCK_def)

lemma modifier_updates [simp]:
  "shift_on (k\<lparr>modifiers := modifiers k OR SHIFT\<rparr>)"
  "caps_on (k\<lparr>modifiers := modifiers k OR SHIFT\<rparr>) = caps_on k"
  "\<not> shift_on (k\<lparr>modifiers := modifiers k AND NOT SHIFT\<rparr>)"
  "caps_on (k\<lparr>modifiers := modifiers k AND NOT SHIFT\<rparr>) = caps_on k"
  "shift_on (k\<lparr>modifiers := modifiers k XOR CAPS_LOCK\<rparr>) = shift_on k"
  "caps_on (k\<lparr>modifiers := modifiers k XOR CAPS_LOCK\<rparr>) \<longleftrightarrow> \<not> caps_on k"
  by (simp_all add: modifier_bits SHIFT_def CAPS_LOCK_def bit_simps)

lemma flags_queue [simp]:
  "shift_on (k\<lparr>queue := q\<rparr>) = shift_on k" "caps_on (k\<lparr>queue := q\<rparr>) = caps_on k"
  "shift_on (k\<lparr>extended_prefix := x\<rparr>) = shift_on k" "caps_on (k\<lparr>extended_prefix := x\<rparr>) = caps_on k"
  by (simp_all add: shift_on_def caps_on_def)

text \<open>What the abstract queue does with the event of one scancode.\<close>

lemma push_event_refines:
  assumes "queue_ok (queue k)"
  obtains q where "push_event k e = Ok (k\<lparr>queue := q\<rparr>)" "queue_ok q"
    "fifo_run 255 (enq_event e @ ops) (queue_contents (queue k)) = fifo_run 255 ops (queue_contents q)"
proof (cases e)
  case None
  with assms that [of "queue k"] show ?thesis
    by (simp add: push_event_def enq_event_def)
next
  case (Some x)
  with kbdq.enq_ok [OF assms, of x] that show ?thesis
    by (auto simp: push_event_def enq_event_def)
qed

lemma handle_scancode_refines:
  assumes "queue_ok (queue k)"
  obtains k' where "handle_scancode k c = Ok k'" "queue_ok (queue k')"
    "fifo_run 255 (decode_ops (shift_on k) (caps_on k) (extended_prefix k) (Scan c # ops)) (queue_contents (queue k))
     = fifo_run 255 (decode_ops (shift_on k') (caps_on k') (extended_prefix k') ops) (queue_contents (queue k'))"
proof (cases "c = 0xe0 \<or> (\<not> extended_prefix k \<and> c \<in> {0x2a, 0x36, 0xaa, 0xb6, 0x3a})")
  case True
  then show ?thesis
    using assms that by (auto simp: handle_scancode_def)
next
  case False
  let ?k = "k\<lparr>extended_prefix := False\<rparr>"
  let ?e = "if extended_prefix k then extended_event_for_set_1 c else ascii_for_set_1 c (shift_on k) (caps_on k)"
  obtain q where q: "push_event ?k ?e = Ok (?k\<lparr>queue := q\<rparr>)" "queue_ok q"
    "fifo_run 255 (enq_event ?e @ decode_ops (shift_on k) (caps_on k) False ops) (queue_contents (queue ?k)) =
     fifo_run 255 (decode_ops (shift_on k) (caps_on k) False ops) (queue_contents q)"
    using push_event_refines [of ?k] assms by auto
  have "push_event ?k e = push_event k e" if "\<not> extended_prefix k" for e
  proof -
    have "?k = k"
      using that by simp
    then show ?thesis
      by (simp only:)
  qed
  moreover have "push_event k' None = Ok k'" for k'
    by (simp add: push_event_def)
  ultimately have "handle_scancode k c = push_event ?k ?e"
    using False release_no_event [of c]
    by (auto simp: handle_scancode_def Let_def shift_on_def caps_on_def)
  with q that [of "?k\<lparr>queue := q\<rparr>"] False show ?thesis
    by (cases "extended_prefix k") auto
qed

lemma run_kbd_refines:
  "queue_ok (queue k) \<Longrightarrow>
   \<exists>k'. run_kbd ops k =
       Ok (fst (fifo_run 255 (decode_ops (shift_on k) (caps_on k) (extended_prefix k) ops) (queue_contents (queue k))), k') \<and>
     queue_ok (queue k') \<and>
     queue_contents (queue k') =
       snd (fifo_run 255 (decode_ops (shift_on k) (caps_on k) (extended_prefix k) ops) (queue_contents (queue k)))"
proof (induction ops arbitrary: k)
  case Nil
  then show ?case by simp
next
  case (Cons op ops)
  show ?case
  proof (cases op)
    case (Scan c)
    obtain k' where "handle_scancode k c = Ok k'" "queue_ok (queue k')"
      "fifo_run 255 (decode_ops (shift_on k) (caps_on k) (extended_prefix k) (Scan c # ops)) (queue_contents (queue k))
       = fifo_run 255 (decode_ops (shift_on k') (caps_on k') (extended_prefix k') ops) (queue_contents (queue k'))"
      using handle_scancode_refines [OF Cons.prems] .
    with Scan Cons.IH [of k'] show ?thesis
      by (simp del: decode_ops.simps)
  next
    case Next
    show ?thesis
    proof (cases "queue_contents (queue k)")
      case Nil
      with Next kbdq.deq_empty [OF Cons.prems] Cons.IH [OF Cons.prems] show ?thesis
        by (auto simp: next_event_def case_prod_beta Let_def)
    next
      case (Cons x xs)
      with kbdq.deq_front [OF Cons.prems] obtain q where "queue_pop (queue k) = Ok (Some x, q)" "queue_ok q" "queue_contents q = xs"
        by blast
      with Next Cons Cons.IH [of "k\<lparr>queue := q\<rparr>"] show ?thesis
        by (auto simp: next_event_def case_prod_beta Let_def)
    qed
  qed
qed

section \<open>Characters\<close>

lemma table_printable:
  "list_all (\<lambda>(_, p, s). 0x20 \<le> p \<and> p \<le> 0x7e \<and> 0x20 \<le> s \<and> s \<le> 0x7e) symbol_keys"
  "list_all (\<lambda>(_, b). 0x61 \<le> b \<and> b \<le> 0x7a) letter_keys"
  by (simp_all add: symbol_keys_def letter_keys_def)

lemma letter_case:
  "0x61 \<le> b \<Longrightarrow> b \<le> 0x7a \<Longrightarrow> 0x41 \<le> to_ascii_uppercase b \<and> to_ascii_uppercase b \<le> 0x5a"
  by (auto simp: to_ascii_uppercase_def word_le_nat_alt unat_sub)

lemma letter_event:
  assumes "letter_for_set_1 c upper = Some (Character b)"
  shows "if upper then 0x41 \<le> b \<and> b \<le> 0x5a else 0x61 \<le> b \<and> b \<le> 0x7a"
proof -
  obtain l where "map_of letter_keys c = Some l" and b: "b = (if upper then to_ascii_uppercase l else l)"
    using assms by (auto simp: letter_for_set_1_def)
  then have "0x61 \<le> l \<and> l \<le> 0x7a"
    using table_entry [OF _ table_printable(2)] by fastforce
  with b letter_case [of l] show ?thesis
    by simp
qed

section \<open>The controller set-up\<close>

text \<open>
  A write is guarded when the access just before it read the controller status with the
  input-buffer bit clear.
\<close>

definition status_ready :: "io \<Rightarrow> bool" where
  "status_ready ev = (case ev of In8 p v \<Rightarrow> p = PS2_STATUS_COMMAND \<and> v AND 0x02 = 0 | _ \<Rightarrow> False)"

definition is_write :: "io \<Rightarrow> bool" where
  "is_write ev = (case ev of Out8 _ _ \<Rightarrow> True | Out32 _ _ \<Rightarrow> True | _ \<Rightarrow> False)"

fun writes_guarded :: "bool \<Rightarrow> io list \<Rightarrow> bool" where
  "writes_guarded r [] = True"
| "writes_guarded r (ev # evs) = ((is_write ev \<longrightarrow> r) \<and> writes_guarded (status_ready ev) evs)"

definition ready_after :: "io list \<Rightarrow> bool" where
  "ready_after evs \<longleftrightarrow> evs \<noteq> [] \<and> status_ready (last evs)"

lemma writes_guarded_append:
  "writes_guarded r (xs @ ys) \<longleftrightarrow>
     writes_guarded r xs \<and> writes_guarded (if xs = [] then r else status_ready (last xs)) ys"
  by (induction xs arbitrary: r) auto

text \<open>
  \<open>progress ws r n evs\<close>: so far the accesses \<open>evs\<close> have written \<open>ws\<close>, every write guarded, in at
  most \<open>n\<close> accesses; \<open>r\<close> tells whether a write would be guarded now. \<open>from_here\<close> is a Hoare
  triple whose precondition is \<open>progress\<close>.
\<close>

definition progress :: "(u16 \<times> u8) list \<Rightarrow> bool \<Rightarrow> nat \<Rightarrow> io list \<Rightarrow> bool" where
  "progress ws r n evs \<longleftrightarrow>
     io_writes evs = ws \<and> writes_guarded False evs \<and> (r \<longrightarrow> ready_after evs) \<and> length evs \<le> n"

definition from_here ::
    "(u16 \<times> u8) list \<Rightarrow> bool \<Rightarrow> nat \<Rightarrow> ('h \<times> io list, 'a) state \<Rightarrow> ('a \<Rightarrow> io list \<Rightarrow> bool) \<Rightarrow> bool" where
  "from_here ws r n m Q \<longleftrightarrow> (\<forall>evs. progress ws r n evs \<longrightarrow> io_spec m (\<lambda>x evs'. Q x (evs @ evs')))"

lemma from_here_bind:
  assumes "io_spec m P"
    and "\<And>x evs evs'. progress ws r n evs \<Longrightarrow> P x evs' \<Longrightarrow> \<exists>ws' r' n'. progress ws' r' n' (evs @ evs') \<and> from_here ws' r' n' (f x) Q"
  shows "from_here ws r n (State_Monad.bind m f) Q"
proof -
  have "io_spec (f x) (\<lambda>y evs''. Q y (evs @ evs' @ evs''))" if "progress ws r n evs" "P x evs'" for x evs evs'
    using assms(2) [OF that] by (auto simp: from_here_def)
  then show ?thesis
    unfolding from_here_def by (intro allI impI io_bind [OF assms(1)]) simp
qed

lemma reads_progress:
  "progress ws r n evs \<Longrightarrow> evs' = map (In8 p) vs \<Longrightarrow> length vs \<le> k \<Longrightarrow> progress ws False (n + k) (evs @ evs')"
proof -
  have "io_writes (map (In8 p) vs) = []" "writes_guarded x (map (In8 p) vs)" for x
    by (induction vs arbitrary: x) (auto simp: is_write_def)
  then show "progress ws r n evs \<Longrightarrow> evs' = map (In8 p) vs \<Longrightarrow> length vs \<le> k \<Longrightarrow> progress ws False (n + k) (evs @ evs')"
    by (auto simp: progress_def writes_guarded_append)
qed

lemma from_here_poll:
  assumes "from_here ws (\<forall>v. p = PS2_STATUS_COMMAND \<and> (ready v \<longrightarrow> v AND 0x02 = 0)) (n + k) (f True) Q"
    and "from_here ws False (n + k) (f False) Q"
  shows "from_here ws r n (State_Monad.bind (poll8 (logged b) k p ready) f) Q"
proof (rule from_here_bind [OF poll8_spec])
  fix ok evs evs'
  assume pr: "progress ws r n evs" and polled: "polled k p ready ok evs'"
  then obtain vs where vs: "evs' = map (In8 p) vs" "length vs \<le> k"
    and last: "ok \<Longrightarrow> vs \<noteq> [] \<and> ready (last vs)"
    by (auto simp: polled_def split: if_splits)
  have no: "progress ws False (n + k) (evs @ evs')"
    using reads_progress [OF pr vs] .
  moreover have "progress ws (\<forall>v. p = PS2_STATUS_COMMAND \<and> (ready v \<longrightarrow> v AND 0x02 = 0)) (n + k) (evs @ evs')" if ok
    using no vs last [OF that] by (auto simp: progress_def ready_after_def status_ready_def last_map)
  ultimately show "\<exists>ws' r' n'. progress ws' r' n' (evs @ evs') \<and> from_here ws' r' n' (f ok) Q"
    using assms by (cases ok) auto
qed

lemma from_here_out:
  assumes "from_here (ws @ [(p, v)]) False (n + 1) (f ()) Q"
  shows "from_here ws True n (State_Monad.bind (out8 (logged b) p v) f) Q"
proof (rule from_here_bind [where P = "\<lambda>_ evs. evs = [Out8 p v]"])
  show "io_spec (out8 (logged b) p v) (\<lambda>_ evs. evs = [Out8 p v])"
    by (rule io_rules) simp
  fix x evs evs'
  assume "progress ws True n evs" "evs' = [Out8 p v]"
  then have "progress (ws @ [(p, v)]) False (n + 1) (evs @ evs')"
    by (auto simp: progress_def writes_guarded_append ready_after_def)
  with assms show "\<exists>ws' r' n'. progress ws' r' n' (evs @ evs') \<and> from_here ws' r' n' (f x) Q"
    by auto
qed

lemma from_here_in:
  assumes "\<And>v. from_here ws False (n + 1) (f v) Q"
  shows "from_here ws r n (State_Monad.bind (in8 (logged b) p) f) Q"
proof (rule from_here_bind [where P = "\<lambda>v evs. evs = [In8 p v]"])
  show "io_spec (in8 (logged b) p) (\<lambda>v evs. evs = [In8 p v])"
    by (rule io_rules) simp
  fix v evs evs'
  assume "progress ws r n evs" "evs' = [In8 p v]"
  then have "progress ws False (n + 1) (evs @ evs')"
    using reads_progress [of ws r n evs evs' p "[v]" 1] by simp
  with assms show "\<exists>ws' r' n'. progress ws' r' n' (evs @ evs') \<and> from_here ws' r' n' (f v) Q"
    by auto
qed

lemma from_here_ret: "(\<And>evs. progress ws r n evs \<Longrightarrow> Q x evs) \<Longrightarrow> from_here ws r n (ret x) Q"
  by (auto simp: from_here_def intro: io_return)

lemma from_here_let: "from_here ws r n (f v) Q \<Longrightarrow> from_here ws r n (let x = v in f x) Q"
  by simp

lemma from_here_if: "(c \<Longrightarrow> from_here ws r n m Q) \<Longrightarrow> (\<not> c \<Longrightarrow> from_here ws r n m' Q) \<Longrightarrow> from_here ws r n (if c then m else m') Q"
  by simp

lemma from_here_mono: "from_here ws False n m Q \<Longrightarrow> from_here ws r n m Q"
  by (auto simp: from_here_def progress_def)

lemma from_here_drain:
  assumes "from_here ws False (n + 2 * k) (f ()) Q"
  shows "from_here ws r n (State_Monad.bind (drain_loop (logged b) k) f) Q"
  using assms
proof (induction k arbitrary: n r)
  case 0
  then show ?case
    by (simp add: from_here_mono)
next
  case (Suc k)
  have later: "from_here ws False (n + 1) (f ()) Q"
    using Suc.prems by (auto simp: from_here_def progress_def)
  have "from_here ws False (n + 1) (State_Monad.bind (State_Monad.bind (in8 (logged b) PS2_DATA) (\<lambda>_. drain_loop (logged b) k)) f) Q"
    using Suc.IH [of "n + 1 + 1"] Suc.prems by (simp add: from_here_in)
  with later show ?case
    by (auto simp: read_status_def read_data_def intro!: from_here_in split: if_split)
qed

definition controller_writes :: "u8 \<Rightarrow> (u16 \<times> u8) list" where
  "controller_writes cfg = [(0x64, 0xad), (0x64, 0x20), (0x64, 0x60), (0x60, cfg), (0x64, 0xae)]"

definition controller_log :: "bool \<Rightarrow> io list \<Rightarrow> bool" where
  "controller_log ok evs \<longleftrightarrow>
     writes_guarded False evs \<and> length evs \<le> 600070 \<and>
     (\<exists>cfg. bit cfg 0 \<and> bit cfg 6 \<and> \<not> bit cfg 4 \<and>
        (if ok then io_writes evs = controller_writes cfg
         else \<exists>n < 5. io_writes evs = take n (controller_writes cfg)))"

definition configured :: "u8 \<Rightarrow> u8" where
  "configured v = (v OR 0x01 OR 0x40) AND NOT 0x10"

lemma configured_bits: "bit (configured v) 0" "bit (configured v) 6" "\<not> bit (configured v) 4"
  by (simp_all add: configured_def bit_simps)

lemma controller_log_True:
  "progress (controller_writes (configured v)) r n evs \<Longrightarrow> n \<le> 600070 \<Longrightarrow> controller_log True evs"
  using configured_bits [of v] by (auto simp: controller_log_def progress_def)

lemma controller_log_False:
  "progress ws r n evs \<Longrightarrow> n \<le> 600070 \<Longrightarrow> length ws < 5 \<Longrightarrow>
   \<exists>v. ws = take (length ws) (controller_writes (configured v)) \<Longrightarrow> controller_log False evs"
  using configured_bits by (fastforce simp: controller_log_def progress_def)

lemma from_here_ready:
  assumes "from_here ws True (n + k) m Q" and "\<And>evs. progress ws False (n + k) evs \<Longrightarrow> Q False evs"
  shows "from_here ws r n (State_Monad.bind (poll8 (logged b) k PS2_STATUS_COMMAND (\<lambda>status. status AND 0x02 = 0))
    (\<lambda>ready. if \<not> ready then ret False else m)) Q"
  using assms by (intro from_here_poll) (simp_all add: from_here_ret)

lemma from_here_full:
  assumes "from_here ws False (n + k) m Q" and "\<And>evs. progress ws False (n + k) evs \<Longrightarrow> Q False evs"
  shows "from_here ws r n (State_Monad.bind (poll8 (logged b) k PS2_STATUS_COMMAND ready)
    (\<lambda>full. if \<not> full then ret False else m)) Q"
  using assms by (intro from_here_poll) (simp_all add: from_here_ret from_here_mono)

lemma initialize_controller_log: "io_spec (initialize_controller (logged b)) controller_log"
proof -
  have "from_here [] False 0 (initialize_controller (logged b)) controller_log"
    unfolding initialize_controller_def wait_for_input_empty_def wait_for_output_full_def write_command_def
      write_data_def read_data_def drain_output_def CONTROLLER_TIMEOUT_def configured_def [symmetric] Let_def
    by (rule from_here_ready from_here_out from_here_drain from_here_full from_here_in from_here_ret controller_log_True)+
      (auto simp: controller_writes_def PS2_STATUS_COMMAND_def PS2_DATA_def elim!: controller_log_False)
  then show ?thesis
    unfolding from_here_def by (auto dest: spec [of _ "[]"] simp: progress_def ready_after_def)
qed

section \<open>Overflow of the queue\<close>

lemma push_all:
  "queue_ok q \<Longrightarrow> \<exists>q'. run_ops queue_push queue_pop (map Enq xs) q = Ok ([], q') \<and> queue_ok q' \<and>
     queue_contents q' = take 255 (queue_contents q @ xs) \<and>
     q_dropped q' = q_dropped q + of_nat (length (queue_contents q) + length xs - 255)"
proof (induction xs arbitrary: q)
  case Nil
  then show ?case
    using kbdq.contents_bound [of q] by simp
next
  case (Cons x xs)
  obtain q1 where q1: "queue_push q x = Ok q1" "queue_ok q1"
    "queue_contents q1 = (if length (queue_contents q) < 255 then queue_contents q @ [x] else queue_contents q)"
    using kbdq.enq_ok [OF Cons.prems] by blast
  have drop: "q_dropped q1 = q_dropped q + (if length (queue_contents q) < 255 then 0 else 1)"
    using q1(1) queue_push_eq [OF Cons.prems, of x] by (auto split: if_splits)
  have bound: "length (queue_contents q) \<le> 255"
    using kbdq.contents_bound [OF Cons.prems] .
  from Cons.IH [OF q1(2)] obtain q2 where
    "run_ops queue_push queue_pop (map Enq xs) q1 = Ok ([], q2)" "queue_ok q2"
    "queue_contents q2 = take 255 (queue_contents q1 @ xs)"
    "q_dropped q2 = q_dropped q1 + of_nat (length (queue_contents q1) + length xs - 255)"
    by blast
  with q1 drop bound show ?case
    by (cases "length (queue_contents q) < 255") auto
qed

section \<open>Properties\<close>

text \<open>
  C8. For every interleaving of scancodes arriving from IRQ1 and events taken by the shell, from
  power-on, nothing panics and the events taken are those of a FIFO of capacity 255 fed by the
  decoder: in order, none duplicated, and lost only when the queue is full.
\<close>

theorem keyboard_is_fifo:
  "\<exists>k. run_kbd ops kbd_new = Ok (fst (fifo_run 255 (decode_ops False False False ops) []), k) \<and>
     queue_contents (queue k) = snd (fifo_run 255 (decode_ops False False False ops) [])"
proof -
  have "shift_on kbd_new = False" "caps_on kbd_new = False" "extended_prefix kbd_new = False"
    "queue kbd_new = queue_new"
    by (simp_all add: shift_on_def caps_on_def kbd_new_def)
  with run_kbd_refines [of kbd_new ops] queue_new_ok show ?thesis
    by auto
qed

text \<open>
  C36. Pushing any events into a queue keeps the first 255 in order and counts every event beyond
  them as dropped (modulo the width of the counter); it never panics.
\<close>

theorem queue_overflow_counted:
  assumes "queue_ok q"
  shows "\<exists>q'. run_ops queue_push queue_pop (map Enq xs) q = Ok ([], q') \<and>
     queue_contents q' = take 255 (queue_contents q @ xs) \<and>
     q_dropped q' = q_dropped q + of_nat (length (queue_contents q) + length xs - 255)"
  using push_all [OF assms] by blast

text \<open>Witness of C36: 300 events into the initial queue.\<close>

theorem queue_overflow_counted_witness:
  "\<exists>q'. run_ops queue_push queue_pop (map Enq (replicate 300 Up)) queue_new = Ok ([], q') \<and>
     queue_contents q' = replicate 255 Up \<and> q_dropped q' = 45"
proof -
  have "q_dropped queue_new = 0"
    by (simp add: queue_new_def)
  with queue_overflow_counted [OF queue_new_ok(1), of "replicate 300 Up"] show ?thesis
    by (simp add: queue_new_ok(2))
qed

text \<open>
  C35. Every character event of the decoder is printable ASCII. On a letter key its case is upper
  exactly when one of Shift and Caps Lock is on; on any other key Caps Lock has no effect.
\<close>

theorem decoder_characters:
  assumes "ascii_for_set_1 c shift caps = Some (Character b)"
  shows "0x20 \<le> b \<and> b \<le> 0x7e \<and>
    (if map_of letter_keys c = None then ascii_for_set_1 c shift (\<not> caps) = Some (Character b)
     else if shift \<noteq> caps then 0x41 \<le> b \<and> b \<le> 0x5a else 0x61 \<le> b \<and> b \<le> 0x7a)"
proof (cases "map_of letter_keys c")
  case None
  then have "letter_for_set_1 c u = None" for u
    by (simp add: letter_for_set_1_def)
  with None assms table_entry [OF _ table_printable(1), of c] show ?thesis
    by (auto simp: ascii_for_set_1_def split: if_splits option.splits)
next
  case (Some l)
  have "list_all (\<lambda>(c, _). c \<notin> {0x0e, 0x0f, 0x1c, 0x39} \<and> map_of symbol_keys c = None) letter_keys"
    by (simp add: letter_keys_def symbol_keys_def)
  with Some have "c \<notin> {0x0e, 0x0f, 0x1c, 0x39} \<and> map_of symbol_keys c = None"
    using table_entry [OF Some] by fastforce
  then have "letter_for_set_1 c (shift \<noteq> caps) = Some (Character b)"
    using assms by (simp add: ascii_for_set_1_def)
  with letter_event [OF this] Some show ?thesis
    by (auto simp: word_le_nat_alt)
qed

text \<open>Witness of C35: Shift and the key \<open>a\<close>.\<close>

theorem decoder_characters_witness:
  "ascii_for_set_1 0x1e True False = Some (Character 0x41) \<and> (0x20 :: u8) \<le> 0x41 \<and> (0x41 :: u8) \<le> 0x7e"
proof -
  have "ascii_for_set_1 0x1e True False = Some (Character 0x41)"
    by (simp add: ascii_for_set_1_def symbol_keys_def letter_for_set_1_def letter_keys_def to_ascii_uppercase_def)
  with decoder_characters [OF this] show ?thesis
    by blast
qed

text \<open>
  C29. Whatever the controller answers, its set-up ends after at most 600070 port accesses; every
  write happens right after the status register showed the input buffer empty; the writes are the
  five of the set-up sequence in order, all of them when the function returns true and a proper
  prefix when it returns false; and the configuration byte written enables the keyboard interrupt
  and translation to set 1, and enables the first port's clock.
\<close>

theorem controller_setup_safe:
  "controller_log (fst (run_state (initialize_controller (logged b)) (h, [])))
     (snd (snd (run_state (initialize_controller (logged b)) (h, []))))"
  using initialize_controller_log [of b] unfolding io_spec_def by (metis append_Nil fst_conv snd_conv)

end
