(* ===== verification/Timer.thy ===== *)
theory Timer
  imports Ports
begin

text \<open>
  The interval timer (\<open>kernel/src/timer.rs\<close>): programming of the PIT, and the tick counter, an atomic
  64-bit cell whose \<open>fetch_add\<close> wraps.
\<close>

section \<open>Definitions\<close>

definition TICKS_PER_SECOND :: u64 where "TICKS_PER_SECOND = 100"
definition PIT_INPUT_HZ :: u64 where "PIT_INPUT_HZ = 1193182"
definition PIT_COMMAND :: u16 where "PIT_COMMAND = 0x43"
definition PIT_CHANNEL_0 :: u16 where "PIT_CHANNEL_0 = 0x40"

definition timer_initialize :: "'h bus \<Rightarrow> ('h, unit) state" where
  "timer_initialize b =
     (let divisor = ucast (PIT_INPUT_HZ div TICKS_PER_SECOND) :: u16 in do {
        out8 b PIT_COMMAND 0x36;
        out8 b PIT_CHANNEL_0 (ucast (divisor AND 0xff));
        out8 b PIT_CHANNEL_0 (ucast (drop_bit 8 divisor))
      })"

definition tick :: "u64 \<Rightarrow> u64" where
  "tick TICKS = TICKS + 1"

definition ticks :: "u64 \<Rightarrow> u64" where
  "ticks TICKS = TICKS"

definition uptime_seconds :: "u64 \<Rightarrow> u64" where
  "uptime_seconds TICKS = ticks TICKS div TICKS_PER_SECOND"

section \<open>Lemmas\<close>

lemma timer_initialize_log:
  "io_spec (timer_initialize (logged b)) (\<lambda>_ evs. evs = [Out8 0x43 0x36, Out8 0x40 0x9b, Out8 0x40 0x2e])"
proof -
  have bytes: "(ucast ((0x2e9b :: u16) AND 0xff) :: u8) = 0x9b" "(ucast (drop_bit 8 (0x2e9b :: u16)) :: u8) = 0x2e"
    by (simp_all add: drop_bit_eq_div)
  have "(ucast (PIT_INPUT_HZ div TICKS_PER_SECOND) :: u16) = 0x2e9b"
    by (simp add: PIT_INPUT_HZ_def TICKS_PER_SECOND_def)
  with bytes show ?thesis
    by (simp add: timer_initialize_def Let_def PIT_COMMAND_def PIT_CHANNEL_0_def) (intro io_straight io_rules, simp)
qed

lemma tick_power: "(tick ^^ n) t = t + of_nat n"
  by (induction n) (simp_all add: tick_def)

section \<open>Properties\<close>

text \<open>
  The timer is programmed in square-wave mode with the low byte of the divisor before the high
  one; the divisor is the one whose rate is closest to 100 Hz from above: it is at most a hundredth of
  the input frequency, and one more would be too slow. The rate is off by less than one part in ten thousand.
\<close>

lemma timer_programmed:
  "io_spec (timer_initialize (logged b)) (\<lambda>_ evs. \<exists>lo hi. evs = [Out8 PIT_COMMAND 0x36, Out8 PIT_CHANNEL_0 lo, Out8 PIT_CHANNEL_0 hi] \<and>
     (let divisor = unat lo + 256 * unat hi in
      100 * divisor \<le> unat PIT_INPUT_HZ \<and> unat PIT_INPUT_HZ < 100 * (divisor + 1) \<and>
      10000 * (unat PIT_INPUT_HZ - 100 * divisor) < 100 * divisor))"
  by (rule io_weaken [OF timer_initialize_log])
    (auto simp: PIT_COMMAND_def PIT_CHANNEL_0_def PIT_INPUT_HZ_def Let_def)

text \<open>
  After \<open>n\<close> timer interrupts, fewer than 2 to the 64, the tick counter is \<open>n\<close>, and the uptime is the number of
  whole seconds of 100 ticks: it grows by one with every hundredth tick, and is otherwise unchanged.
\<close>

lemma uptime_counts:
  assumes "n + 1 < 2 ^ 64"
  shows "unat (ticks ((tick ^^ n) 0)) = n \<and> unat (uptime_seconds ((tick ^^ n) 0)) = n div 100 \<and>
    uptime_seconds (tick ((tick ^^ n) 0)) = uptime_seconds ((tick ^^ n) 0) + (if (n + 1) mod 100 = 0 then 1 else 0)"
proof -
  have up: "unat (uptime_seconds ((tick ^^ m) 0)) = m div 100" if "m < 2 ^ 64" for m
    using that by (simp add: uptime_seconds_def ticks_def tick_power TICKS_PER_SECOND_def unat_div unat_of_nat_small)
  have "unat (uptime_seconds ((tick ^^ (n + 1)) 0)) = unat (uptime_seconds ((tick ^^ n) 0)) + (if (n + 1) mod 100 = 0 then 1 else 0)"
    using up [of n] up [of "n + 1"] assms by (simp add: div_Suc)
  moreover have "unat (uptime_seconds ((tick ^^ n) 0)) + 1 < 2 ^ 64"
    using up [of n] assms by simp
  ultimately have "uptime_seconds ((tick ^^ (n + 1)) 0) = uptime_seconds ((tick ^^ n) 0) + (if (n + 1) mod 100 = 0 then 1 else 0)"
    by (auto simp: word_unat_eq_iff unat_word_ariths)
  then show ?thesis
    using up [of n] assms by (simp add: ticks_def tick_power unat_of_nat_small)
qed

end
