(* ===== verification/Interrupts.thy ===== *)
theory Interrupts
  imports Console Keyboard_Correct Timer
begin

text \<open>
  Interrupt delivery: the interrupt controllers (\<open>kernel/src/pic.rs\<close>), the descriptor tables
  (\<open>kernel/src/gdt.rs\<close>, \<open>interrupts::init\<close>) and the handlers (\<open>kernel/src/interrupts.rs\<close>). The
  descriptor table types belong to another crate: appending a descriptor is a parameter of
  \<open>gdt_init\<close>, and the interrupt descriptor table is a map from vectors to entries. The debug
  renderings of the interrupt stack frame are parameters of the exception handlers.
\<close>

section \<open>The interrupt controllers\<close>

definition PIC_1_OFFSET :: u8 where "PIC_1_OFFSET = 32"
definition PIC_2_OFFSET :: u8 where "PIC_2_OFFSET = PIC_1_OFFSET + 8"
definition TIMER_INTERRUPT_ID :: u8 where "TIMER_INTERRUPT_ID = PIC_1_OFFSET"
definition KEYBOARD_INTERRUPT_ID :: u8 where "KEYBOARD_INTERRUPT_ID = PIC_1_OFFSET + 1"
definition PIC_1_COMMAND :: u16 where "PIC_1_COMMAND = 0x20"
definition PIC_1_DATA :: u16 where "PIC_1_DATA = 0x21"
definition PIC_2_COMMAND :: u16 where "PIC_2_COMMAND = 0xa0"
definition PIC_2_DATA :: u16 where "PIC_2_DATA = 0xa1"
definition PIC_EOI :: u8 where "PIC_EOI = 0x20"

definition pic_initialize :: "'h bus \<Rightarrow> ('h, unit) state" where
  "pic_initialize b = do {
     out8 b PIC_1_COMMAND 0x11;
     out8 b PIC_2_COMMAND 0x11;
     out8 b PIC_1_DATA PIC_1_OFFSET;
     out8 b PIC_2_DATA PIC_2_OFFSET;
     out8 b PIC_1_DATA 0x04;
     out8 b PIC_2_DATA 0x02;
     out8 b PIC_1_DATA 0x01;
     out8 b PIC_2_DATA 0x01;
     out8 b PIC_1_DATA 0xfc;
     out8 b PIC_2_DATA 0xff
   }"

definition end_of_interrupt :: "'h bus \<Rightarrow> u8 \<Rightarrow> ('h, unit) state" where
  "end_of_interrupt b interrupt_id = do {
     (if interrupt_id \<ge> PIC_2_OFFSET then out8 b PIC_2_COMMAND PIC_EOI else ret ());
     out8 b PIC_1_COMMAND PIC_EOI
   }"

section \<open>The descriptor tables\<close>

definition DOUBLE_FAULT_IST_INDEX :: u16 where "DOUBLE_FAULT_IST_INDEX = 0"
definition DOUBLE_FAULT_STACK_SIZE :: nat where "DOUBLE_FAULT_STACK_SIZE = 5 * 4096"

record tss =
  interrupt_stack_table :: "u64 list"

datatype descriptor = KernelCode | KernelData | TssSegment tss

record 's segments =
  reg_cs :: 's
  reg_ds :: 's
  reg_es :: 's
  reg_ss :: 's
  reg_tr :: 's

text \<open>\<open>stack_start\<close> is the address of \<open>DOUBLE_FAULT_STACK\<close>.\<close>

definition gdt_init ::
    "('g \<Rightarrow> descriptor \<Rightarrow> 's \<times> 'g) \<Rightarrow> 'g \<Rightarrow> u64 \<Rightarrow> ('g \<times> 's segments \<times> tss) may_panic" where
  "gdt_init append_descriptor new_table stack_start =
     obind (add_ov stack_start (of_nat DOUBLE_FAULT_STACK_SIZE)) (\<lambda>stack_end.
     obind (set_idx (replicate 7 0) (unat DOUBLE_FAULT_IST_INDEX) stack_end) (\<lambda>ist.
     let tss = \<lparr>interrupt_stack_table = ist\<rparr>;
         (code, gdt) = append_descriptor new_table KernelCode;
         (data, gdt) = append_descriptor gdt KernelData;
         (tr, gdt) = append_descriptor gdt (TssSegment tss)
     in Ok (gdt, \<lparr>reg_cs = code, reg_ds = data, reg_es = data, reg_ss = data, reg_tr = tr\<rparr>, tss)))"

datatype handler =
    BreakpointHandler
  | TimerHandler
  | KeyboardHandler
  | GeneralProtectionFaultHandler
  | PageFaultHandler
  | DoubleFaultHandler

record idt_entry =
  entry_handler :: handler
  stack_index :: "u16 option"

definition handler_entry :: "handler \<Rightarrow> idt_entry" where
  "handler_entry h = \<lparr>entry_handler = h, stack_index = None\<rparr>"

text \<open>The named exceptions of the table are vectors 3, 8, 13 and 14 of the processor.\<close>

definition interrupts_init :: "u8 \<rightharpoonup> idt_entry" where
  "interrupts_init =
     [3 \<mapsto> handler_entry BreakpointHandler,
      TIMER_INTERRUPT_ID \<mapsto> handler_entry TimerHandler,
      KEYBOARD_INTERRUPT_ID \<mapsto> handler_entry KeyboardHandler,
      13 \<mapsto> handler_entry GeneralProtectionFaultHandler,
      14 \<mapsto> handler_entry PageFaultHandler,
      8 \<mapsto> (handler_entry DoubleFaultHandler)\<lparr>stack_index := Some DOUBLE_FAULT_IST_INDEX\<rparr>]"

section \<open>The handlers\<close>

definition timer_interrupt_handler :: "'h bus \<Rightarrow> u64 \<Rightarrow> ('h, u64) state" where
  "timer_interrupt_handler b TICKS =
     (let TICKS' = tick TICKS in do {
        end_of_interrupt b TIMER_INTERRUPT_ID;
        ret TICKS'
      })"

definition keyboard_interrupt_handler :: "'h bus \<Rightarrow> kbd \<Rightarrow> ('h, kbd may_panic) state" where
  "keyboard_interrupt_handler b k = do {
     scancode \<leftarrow> in8 b 0x60;
     case handle_scancode k scancode of
       Ok k' \<Rightarrow> do { end_of_interrupt b KEYBOARD_INTERRUPT_ID; ret (Ok k') }
     | r \<Rightarrow> ret r
   }"

text \<open>
  The exception handlers print; all but the first then stop the processor for good, with
  interrupts disabled.
\<close>

definition breakpoint_handler :: "str \<Rightarrow> console_op list" where
  "breakpoint_handler ip = [serial_println (lit ''EXCEPTION_BREAKPOINT_OK ip='' @ ip)]"

definition general_protection_fault_handler :: "str \<Rightarrow> u64 \<Rightarrow> console_op list" where
  "general_protection_fault_handler stack_frame error_code =
     [serial_println (lit ''EXCEPTION_GENERAL_PROTECTION_FAULT''),
      println (0x0a # lit ''GENERAL PROTECTION FAULT''),
      println (lit ''error code: '' @ hexadecimal (unat error_code)),
      println stack_frame]"

definition page_fault_handler :: "str \<Rightarrow> str \<Rightarrow> u64 \<Rightarrow> console_op list" where
  "page_fault_handler stack_frame error_code cr2 =
     [serial_println (lit ''EXCEPTION_PAGE_FAULT''),
      println (0x0a # lit ''PAGE FAULT''),
      println (lit ''address: '' @ hexadecimal (unat cr2)),
      println (lit ''error: '' @ error_code),
      println stack_frame]"

definition double_fault_handler :: "str \<Rightarrow> u64 \<Rightarrow> console_op list" where
  "double_fault_handler stack_frame error_code =
     [serial_println (lit ''EXCEPTION_DOUBLE_FAULT_IST_OK''),
      println (0x0a # lit ''DOUBLE FAULT (dedicated IST stack)''),
      println (lit ''error code: '' @ hexadecimal (unat error_code)),
      println stack_frame]"

text \<open>\<open>initialize_hardware\<close>, up to the instruction that lets interrupts in.\<close>

definition initialize_hardware :: "'h bus \<Rightarrow> ('h, unit) state" where
  "initialize_hardware b = do {
     pic_initialize b;
     timer_initialize b
   }"

section \<open>Lemmas\<close>

lemmas pic_defs = PIC_1_OFFSET_def PIC_2_OFFSET_def TIMER_INTERRUPT_ID_def KEYBOARD_INTERRUPT_ID_def PIC_1_COMMAND_def PIC_1_DATA_def
  PIC_2_COMMAND_def PIC_2_DATA_def PIC_EOI_def

lemma pic_initialize_log:
  "io_spec (pic_initialize (logged b)) (\<lambda>_ evs. evs =
     [Out8 0x20 0x11, Out8 0xa0 0x11, Out8 0x21 32, Out8 0xa1 40, Out8 0x21 4, Out8 0xa1 2, Out8 0x21 1, Out8 0xa1 1,
      Out8 0x21 0xfc, Out8 0xa1 0xff])"
  unfolding pic_initialize_def pic_defs by (intro io_straight io_rules) simp

lemma end_of_interrupt_log:
  "io_spec (end_of_interrupt (logged b) i) (\<lambda>_ evs. evs = (if i \<ge> 40 then [Out8 0xa0 0x20] else []) @ [Out8 0x20 0x20])"
proof (cases "i \<ge> 40")
  case True
  have "io_spec (State_Monad.bind (out8 (logged b) 0xa0 0x20) (\<lambda>_. out8 (logged b) 0x20 0x20)) (\<lambda>_ evs. evs = [Out8 0xa0 0x20, Out8 0x20 0x20])"
    by (intro io_straight io_rules) simp
  with True show ?thesis
    by (simp add: end_of_interrupt_def pic_defs)
next
  case False
  have "io_spec (State_Monad.bind (ret ()) (\<lambda>_. out8 (logged b) 0x20 0x20)) (\<lambda>_ evs. evs = [Out8 0x20 0x20])"
    by (rule io_bind [where P = "\<lambda>_ evs. evs = []"]) (auto intro: io_rules)
  with False show ?thesis
    by (simp add: end_of_interrupt_def pic_defs)
qed

text \<open>The values a device received on one of its ports, in order.\<close>

definition port_values :: "u16 \<Rightarrow> io list \<Rightarrow> u8 list" where
  "port_values p evs = map snd (filter (\<lambda>w. fst w = p) (io_writes evs))"

section \<open>Properties\<close>

text \<open>
  C32. The hardware set-up gives each interrupt controller its initialisation sequence in order: vector base,
  cascade, mode, and last its mask. The unmasked lines are exactly timer and keyboard on the first
  controller, the second is fully masked. Their vectors lie above the processor's
  exceptions, the handlers installed there are those of the timer and of the keyboard, and
  neither vector belongs to the second controller.
\<close>

theorem interrupt_lines_handled:
  "io_spec (initialize_hardware (logged b)) (\<lambda>_ evs. \<exists>base1 mask1 base2 mask2.
     port_values PIC_1_COMMAND evs = [0x11] \<and> port_values PIC_1_DATA evs = [base1, 0x04, 0x01, mask1] \<and>
     port_values PIC_2_COMMAND evs = [0x11] \<and> port_values PIC_2_DATA evs = [base2, 0x02, 0x01, mask2] \<and>
     {n \<in> {0..<8}. \<not> bit mask1 n} = {0, 1} \<and> {n \<in> {0..<8}. \<not> bit mask2 n} = {} \<and>
     map_option entry_handler (interrupts_init base1) = Some TimerHandler \<and>
     map_option entry_handler (interrupts_init (base1 + 1)) = Some KeyboardHandler \<and>
     32 \<le> base1 \<and> base1 + 1 < base2)"
proof -
  have log: "io_spec (initialize_hardware (logged b)) (\<lambda>_ evs. evs =
     [Out8 0x20 0x11, Out8 0xa0 0x11, Out8 0x21 32, Out8 0xa1 40, Out8 0x21 4, Out8 0xa1 2, Out8 0x21 1, Out8 0xa1 1,
      Out8 0x21 0xfc, Out8 0xa1 0xff] @ [Out8 0x43 0x36, Out8 0x40 0x9b, Out8 0x40 0x2e])"
    unfolding initialize_hardware_def
    by (rule io_bind [OF pic_initialize_log]) (auto intro: io_weaken [OF timer_initialize_log])
  have range: "{n \<in> {0..<8}. P n} = set (filter P [0..<8])" for P :: "nat \<Rightarrow> bool"
    by auto
  have masks: "{n \<in> {0..<8}. \<not> bit (0xfc :: u8) n} = {0, 1}" "{n \<in> {0..<8}. \<not> bit (0xff :: u8) n} = {}"
    unfolding range by (simp_all add: upt_rec bit_iff_odd_drop_bit drop_bit_eq_div)
  show ?thesis
    by (rule io_weaken [OF log], rule exI [of _ 32], rule exI [of _ "0xfc"], rule exI [of _ 40], rule exI [of _ "0xff"])
      (use masks in \<open>simp add: port_values_def pic_defs interrupts_init_def handler_entry_def\<close>)
qed

text \<open>
  C31. A keyboard interrupt reads the data port exactly once, decodes that scancode, and only then acknowledges
  the first controller, and only it. It does not panic on a well-formed queue, and leaves one.
\<close>

theorem keyboard_interrupt_acknowledged:
  assumes "queue_ok (queue k)"
  shows "io_spec (keyboard_interrupt_handler (logged b) k) (\<lambda>r evs. \<exists>scancode k'.
     evs = [In8 PS2_DATA scancode, Out8 PIC_1_COMMAND PIC_EOI] \<and> r = Ok k' \<and> handle_scancode k scancode = Ok k' \<and> queue_ok (queue k'))"
  unfolding keyboard_interrupt_handler_def
proof (rule io_in_bind)
  fix v
  obtain k' where k': "handle_scancode k v = Ok k'" "queue_ok (queue k')"
    using handle_scancode_refines [OF assms, of v] by metis
  have eoi: "io_spec (end_of_interrupt (logged b) KEYBOARD_INTERRUPT_ID) (\<lambda>_ evs. evs = [Out8 0x20 0x20])"
    by (rule io_weaken [OF end_of_interrupt_log]) (simp add: pic_defs)
  have "io_spec (do { end_of_interrupt (logged b) KEYBOARD_INTERRUPT_ID; ret (Ok k') }) (\<lambda>r evs. evs = [Out8 0x20 0x20] \<and> r = Ok k')"
    by (rule io_bind [OF eoi]) (auto intro: io_return)
  then show "io_spec (case handle_scancode k v of Ok k' \<Rightarrow> do { end_of_interrupt (logged b) KEYBOARD_INTERRUPT_ID; ret (Ok k') } | r \<Rightarrow> ret r)
      (\<lambda>r evs. \<exists>scancode k'. In8 0x60 v # evs = [In8 PS2_DATA scancode, Out8 PIC_1_COMMAND PIC_EOI] \<and> r = Ok k' \<and>
         handle_scancode k scancode = Ok k' \<and> queue_ok (queue k'))"
    unfolding k'(1) outcome.case by (rule io_weaken) (use k' in \<open>auto simp: PS2_DATA_def pic_defs\<close>)
qed

text \<open>Witness of C31: an interrupt on the keyboard's initial state.\<close>

theorem keyboard_interrupt_acknowledged_witness:
  "io_spec (keyboard_interrupt_handler (logged demo_bus) kbd_new) (\<lambda>r evs. \<exists>scancode k'.
     evs = [In8 0x60 scancode, Out8 0x20 0x20] \<and> r = Ok k')"
proof -
  have "queue_ok (queue kbd_new)"
    using queue_new_ok by (simp add: kbd_new_def)
  from keyboard_interrupt_acknowledged [OF this, of demo_bus] show ?thesis
    by (rule io_weaken) (auto simp: PS2_DATA_def pic_defs)
qed

text \<open>
  The double-fault handler runs on its own stack: its table entry names the interrupt stack that the
  task-state segment, loaded by \<open>gdt_init\<close>, points at the aligned end of the 20 KiB reserved for it. No other
  installed handler uses that stack.
\<close>

lemma double_fault_stack:
  assumes "16 dvd unat stack_start" "unat stack_start + 20480 < 2 ^ 64"
  shows "\<exists>gdt segs ts i. gdt_init append_descriptor new_table stack_start = Ok (gdt, segs, ts) \<and>
    interrupts_init 8 = Some \<lparr>entry_handler = DoubleFaultHandler, stack_index = Some i\<rparr> \<and>
    unat i < length (interrupt_stack_table ts) \<and>
    unat (interrupt_stack_table ts ! unat i) = unat stack_start + DOUBLE_FAULT_STACK_SIZE \<and>
    16 dvd unat (interrupt_stack_table ts ! unat i) \<and>
    {v. \<exists>e. interrupts_init v = Some e \<and> stack_index e \<noteq> None} = {8}"
proof -
  let ?top = "stack_start + 20480"
  have top: "unat ?top = unat stack_start + 20480" "add_ov stack_start (of_nat DOUBLE_FAULT_STACK_SIZE) = (Ok ?top :: u64 may_panic)"
    using assms(2) by (simp_all add: unat_word_ariths ov_Ok_iff DOUBLE_FAULT_STACK_SIZE_def)
  have "\<exists>gdt segs. gdt_init append_descriptor new_table stack_start = Ok (gdt, segs, \<lparr>interrupt_stack_table = (replicate 7 0)[0 := ?top]\<rparr>)"
    by (simp add: gdt_init_def top(2) DOUBLE_FAULT_IST_INDEX_def Let_def split: prod.split)
  moreover have "interrupts_init 8 = Some \<lparr>entry_handler = DoubleFaultHandler, stack_index = Some 0\<rparr>"
    "{v. \<exists>e. interrupts_init v = Some e \<and> stack_index e \<noteq> None} = {8}"
    by (auto simp: interrupts_init_def handler_entry_def DOUBLE_FAULT_IST_INDEX_def pic_defs split: if_splits)
  moreover have "16 dvd unat stack_start + 20480"
    using assms(1) by (simp add: dvd_add)
  ultimately show ?thesis
    using top(1) by (fastforce simp: DOUBLE_FAULT_STACK_SIZE_def)
qed

end
