(* ===== verification/Line_Editor.thy ===== *)
theory Line_Editor
  imports Console Keyboard
begin

text \<open>
  The line editor and the command history of the shell (\<open>run\<close>, \<open>redraw\<close> and \<open>CommandHistory\<close> of
  \<open>kernel/src/shell.rs\<close>): fixed arrays with lengths, as in the source. The console output of an
  event is the list of console operations it performs. The locals of \<open>run\<close> are the record
  \<open>editor\<close>; the \<open>Enter\<close> event, which runs a command, is in the theory of the shell.
\<close>

section \<open>Definitions\<close>

definition LINE_CAPACITY :: nat where "LINE_CAPACITY = 80"
definition HISTORY_CAPACITY :: nat where "HISTORY_CAPACITY = 16"

subsection \<open>The command history\<close>

record history =
  h_entries :: "u8 list list"
  h_lengths :: "nat list"
  h_count :: nat
  h_next :: nat

definition history_new :: history where
  "history_new = \<lparr>h_entries = replicate HISTORY_CAPACITY (replicate LINE_CAPACITY 0),
     h_lengths = replicate HISTORY_CAPACITY 0, h_count = 0, h_next = 0\<rparr>"

text \<open>The test for a repeated command in \<open>push\<close>.\<close>

definition history_repeats :: "history \<Rightarrow> u8 list \<Rightarrow> bool may_panic" where
  "history_repeats h line =
     (if h_count h > 0 then
        obind (uadd (h_next h) HISTORY_CAPACITY) (\<lambda>s.
        obind (usub s 1) (\<lambda>t.
        let newest = t mod HISTORY_CAPACITY in
        obind (idx (h_lengths h) newest) (\<lambda>len.
        if len = length line then
          obind (idx (h_entries h) newest) (\<lambda>entry.
          obind (subslice entry 0 (length line)) (\<lambda>prefix. Ok (prefix = line)))
        else Ok False)))
      else Ok False)"

definition history_push :: "history \<Rightarrow> u8 list \<Rightarrow> history may_panic" where
  "history_push h line =
     (if list_all is_ascii_whitespace line then Ok h else
      obind (history_repeats h line) (\<lambda>repeated.
      if repeated then Ok h else
      obind (idx (h_entries h) (h_next h)) (\<lambda>entry.
      obind (copy_to entry 0 (length line) line) (\<lambda>entry'.
      obind (set_idx (h_entries h) (h_next h) entry') (\<lambda>entries.
      obind (set_idx (h_lengths h) (h_next h) (length line)) (\<lambda>lengths.
      obind (uadd (h_next h) 1) (\<lambda>n.
      obind (uadd (h_count h) 1) (\<lambda>c.
      Ok \<lparr>h_entries = entries, h_lengths = lengths, h_count = min c HISTORY_CAPACITY, h_next = n mod HISTORY_CAPACITY\<rparr>))))))))"

text \<open>\<open>previous\<close> returns the position and what becomes of \<open>draft\<close> and \<open>draft_length\<close>.\<close>

definition history_previous ::
    "history \<Rightarrow> nat option \<Rightarrow> u8 list \<Rightarrow> nat \<Rightarrow> u8 list \<Rightarrow> nat \<Rightarrow> (nat option \<times> u8 list \<times> nat) may_panic" where
  "history_previous h current line line_length draft draft_length =
     (if h_count h = 0 then Ok (None, draft, draft_length) else
      case current of
        Some position \<Rightarrow>
          obind (uadd position 1) (\<lambda>p.
          Ok (Some (if p < h_count h then p else position), draft, draft_length))
      | None \<Rightarrow>
          obind (subslice line 0 line_length) (\<lambda>source.
          obind (copy_to draft 0 line_length source) (\<lambda>draft'.
          Ok (Some 0, draft', line_length))))"

fun history_next :: "history \<Rightarrow> nat option \<Rightarrow> nat option option" where
  "history_next h (Some position) = (if position > 0 then Some (Some (position - 1)) else Some None)"
| "history_next h None = None"

definition copy_into :: "history \<Rightarrow> nat \<Rightarrow> u8 list \<Rightarrow> (nat \<times> u8 list) may_panic" where
  "copy_into h position output =
     obind (uadd (h_next h) HISTORY_CAPACITY) (\<lambda>s.
     obind (usub s 1) (\<lambda>t.
     obind (usub t position) (\<lambda>u.
     let index = u mod HISTORY_CAPACITY in
     obind (idx (h_lengths h) index) (\<lambda>len.
     obind (idx (h_entries h) index) (\<lambda>entry.
     obind (subslice entry 0 len) (\<lambda>source.
     obind (copy_to output 0 len source) (\<lambda>output'. Ok (len, output'))))))))"

subsection \<open>The editor\<close>

record editor =
  e_line :: "u8 list"
  e_length :: nat
  e_cursor :: nat
  displayed_length :: nat
  e_history :: history
  history_position :: "nat option"
  e_draft :: "u8 list"
  draft_length :: nat

definition editor_new :: editor where
  "editor_new = \<lparr>e_line = replicate LINE_CAPACITY 0, e_length = 0, e_cursor = 0, displayed_length = 0,
     e_history = history_new, history_position = None, e_draft = replicate LINE_CAPACITY 0, draft_length = 0\<rparr>"

definition prompt_text :: str where
  "prompt_text = lit ''sol> ''"

definition prompt :: "console_op list" where
  "prompt = [Print prompt_text, ShowCursor]"

definition print_ascii :: "u8 list \<Rightarrow> console_op list" where
  "print_ascii bytes = map (\<lambda>byte. Print [unat byte]) bytes"

definition redraw :: "editor \<Rightarrow> (console_op list \<times> editor) may_panic" where
  "redraw e =
     obind (subslice (e_line e) 0 (e_length e)) (\<lambda>shown.
     obind (subslice (e_line e) 0 (e_cursor e)) (\<lambda>before.
     Ok (Print (0x0d # prompt_text) # print_ascii shown @ replicate (displayed_length e - e_length e) (Print [0x20]) @
         Print (0x0d # prompt_text) # print_ascii before @ [ShowCursor],
         e\<lparr>displayed_length := e_length e\<rparr>)))"

definition leave_history :: "editor \<Rightarrow> editor" where
  "leave_history e = e\<lparr>history_position := None\<rparr>"

text \<open>A recalled line replaces the edited one; the cursor goes to its end.\<close>

definition recall :: "nat \<Rightarrow> editor \<Rightarrow> (console_op list \<times> editor) may_panic" where
  "recall position e =
     obind (copy_into (e_history e) position (e_line e)) (\<lambda>(len, line).
     redraw (e\<lparr>e_line := line, e_length := len, e_cursor := len\<rparr>))"

fun edit_event :: "key_event \<Rightarrow> editor \<Rightarrow> (console_op list \<times> editor) may_panic" where
  "edit_event Backspace e =
     (if e_cursor e > 0 then
        obind (copy_within (e_line e) (e_cursor e) (e_length e) (e_cursor e - 1)) (\<lambda>line.
        obind (usub (e_length e) 1) (\<lambda>len.
        redraw (leave_history (e\<lparr>e_line := line, e_length := len, e_cursor := e_cursor e - 1\<rparr>))))
      else Ok ([], e))"
| "edit_event Delete e =
     (if e_cursor e < e_length e then
        obind (copy_within (e_line e) (e_cursor e + 1) (e_length e) (e_cursor e)) (\<lambda>line.
        obind (usub (e_length e) 1) (\<lambda>len.
        redraw (leave_history (e\<lparr>e_line := line, e_length := len\<rparr>))))
      else Ok ([], e))"
| "edit_event Tab e =
     obind (uadd (e_length e) 4) (\<lambda>len.
     if len \<le> LINE_CAPACITY then
       obind (uadd (e_cursor e) 4) (\<lambda>c.
       obind (copy_within (e_line e) (e_cursor e) (e_length e) c) (\<lambda>line.
       obind (copy_to line (e_cursor e) c (replicate 4 0x20)) (\<lambda>line.
       redraw (leave_history (e\<lparr>e_line := line, e_length := len, e_cursor := c\<rparr>)))))
     else Ok ([], e))"
| "edit_event (Character byte) e =
     (if e_length e < LINE_CAPACITY then
        obind (uadd (e_cursor e) 1) (\<lambda>c.
        obind (copy_within (e_line e) (e_cursor e) (e_length e) c) (\<lambda>line.
        obind (set_idx line (e_cursor e) byte) (\<lambda>line.
        obind (uadd (e_length e) 1) (\<lambda>len.
        redraw (leave_history (e\<lparr>e_line := line, e_length := len, e_cursor := c\<rparr>))))))
      else Ok ([], e))"
| "edit_event Left e = (if e_cursor e > 0 then redraw (e\<lparr>e_cursor := e_cursor e - 1\<rparr>) else Ok ([], e))"
| "edit_event Right e = (if e_cursor e < e_length e then redraw (e\<lparr>e_cursor := e_cursor e + 1\<rparr>) else Ok ([], e))"
| "edit_event Home e = redraw (e\<lparr>e_cursor := 0\<rparr>)"
| "edit_event End e = redraw (e\<lparr>e_cursor := e_length e\<rparr>)"
| "edit_event Up e =
     obind (history_previous (e_history e) (history_position e) (e_line e) (e_length e) (e_draft e) (draft_length e))
       (\<lambda>(position, draft, len).
        let e = e\<lparr>e_draft := draft, draft_length := len\<rparr> in
        case position of
          Some p \<Rightarrow> recall p (e\<lparr>history_position := Some p\<rparr>)
        | None \<Rightarrow> Ok ([], e))"
| "edit_event Down e =
     (case history_next (e_history e) (history_position e) of
        Some position \<Rightarrow>
          let e = e\<lparr>history_position := position\<rparr> in
          (case position of
             Some p \<Rightarrow> recall p e
           | None \<Rightarrow>
               obind (subslice (e_draft e) 0 (draft_length e)) (\<lambda>source.
               obind (copy_to (e_line e) 0 (draft_length e) source) (\<lambda>line.
               redraw (e\<lparr>e_line := line, e_length := draft_length e, e_cursor := draft_length e\<rparr>))))
      | None \<Rightarrow> Ok ([], e))"
| "edit_event Enter e = Ok ([], e)"

text \<open>The editor's part of \<open>Enter\<close>: the line is remembered, and the editor starts over.\<close>

definition submit :: "editor \<Rightarrow> (u8 list \<times> editor) may_panic" where
  "submit e =
     obind (subslice (e_line e) 0 (e_length e)) (\<lambda>line.
     obind (history_push (e_history e) line) (\<lambda>h.
     Ok (line, e\<lparr>e_history := h, e_length := 0, e_cursor := 0, displayed_length := 0, history_position := None\<rparr>)))"

end
