(* ===== verification/Line_Editor_Correct.thy ===== *)
theory Line_Editor_Correct
  imports Line_Editor
begin

text \<open>
  The line editor implements an abstract editor: the text before and after the cursor, the past
  commands with the newest first, and, while the history is browsed, the position and the draft
  to return to.
\<close>

section \<open>The history\<close>

definition history_ok :: "history \<Rightarrow> bool" where
  "history_ok h \<longleftrightarrow> length (h_entries h) = 16 \<and> length (h_lengths h) = 16 \<and> h_count h \<le> 16 \<and> h_next h < 16 \<and>
     (\<forall>k < 16. length (h_entries h ! k) = 80 \<and> h_lengths h ! k \<le> 80)"

definition slot :: "history \<Rightarrow> nat \<Rightarrow> nat" where
  "slot h i = (15 + h_next h - i) mod 16"

definition entry :: "history \<Rightarrow> nat \<Rightarrow> u8 list" where
  "entry h k = take (h_lengths h ! k) (h_entries h ! k)"

definition past_of :: "history \<Rightarrow> u8 list list" where
  "past_of h = map (\<lambda>i. entry h (slot h i)) [0..<h_count h]"

text \<open>
  The abstract history: blank lines and immediate repetitions are not remembered; the sixteen
  newest commands are.
\<close>

definition remember :: "u8 list \<Rightarrow> u8 list list \<Rightarrow> u8 list list" where
  "remember line past =
     (if list_all is_ascii_whitespace line \<or> (past \<noteq> [] \<and> hd past = line) then past else take 16 (line # past))"

lemma slot_less [simp]: "slot h i < 16"
  by (simp add: slot_def)

lemma length_entry: "history_ok h \<Longrightarrow> k < 16 \<Longrightarrow> length (entry h k) = h_lengths h ! k"
  by (simp add: history_ok_def entry_def)

lemma history_repeats_eq:
  assumes ok: "history_ok h"
  shows "history_repeats h line = Ok (past_of h \<noteq> [] \<and> hd (past_of h) = line)"
proof (cases "h_count h = 0")
  case True
  then show ?thesis
    by (simp add: history_repeats_def past_of_def)
next
  case False
  let ?k = "slot h 0"
  have k: "(h_next h + 16 - 1) mod 16 = ?k" "h_next h + 16 < 2 ^ 64"
    using ok by (simp_all add: slot_def history_ok_def)
  have hd: "past_of h \<noteq> []" "hd (past_of h) = entry h ?k"
    using False by (simp_all add: past_of_def hd_map)
  have sizes: "length (h_entries h ! ?k) = 80" "h_lengths h ! ?k \<le> 80" "length (h_entries h) = 16" "length (h_lengths h) = 16"
    using ok by (simp_all add: history_ok_def)
  have "history_repeats h line =
      (if h_lengths h ! ?k = length line then Ok (take (length line) (h_entries h ! ?k) = line) else Ok False)"
    using False k sizes by (simp add: history_repeats_def HISTORY_CAPACITY_def Let_def)
  also have "\<dots> = Ok (entry h ?k = line)"
    using length_entry [OF ok, of ?k] by (auto simp: entry_def)
  finally show ?thesis
    using hd by simp
qed

lemma history_push_eq:
  assumes ok: "history_ok h" and len: "length line \<le> 80"
  obtains h' where "history_push h line = Ok h'" "history_ok h'" "past_of h' = remember line (past_of h)"
proof (cases "list_all is_ascii_whitespace line \<or> (past_of h \<noteq> [] \<and> hd (past_of h) = line)")
  case True
  then show ?thesis
    using that [of h] ok history_repeats_eq [OF ok, of line] by (auto simp: history_push_def remember_def)
next
  case False
  let ?n = "h_next h"
  have n: "?n < 16" "length (h_entries h ! ?n) = 80" "length (h_entries h) = 16" "length (h_lengths h) = 16" "h_count h \<le> 16"
    using ok by (simp_all add: history_ok_def)
  define h' where "h' = \<lparr>h_entries = (h_entries h)[?n := line @ drop (length line) (h_entries h ! ?n)],
     h_lengths = (h_lengths h)[?n := length line], h_count = min (h_count h + 1) 16, h_next = (?n + 1) mod 16\<rparr>"
  have "history_repeats h line = Ok False"
    using False history_repeats_eq [OF ok, of line] by auto
  then have run: "history_push h line = Ok h'"
    using False n len by (simp add: history_push_def HISTORY_CAPACITY_def h'_def)
  have ok': "history_ok h'"
    using ok n len by (auto simp: history_ok_def h'_def nth_list_update)
  have new: "entry h' ?n = line" and old: "entry h' k = entry h k" if "k \<noteq> ?n" for k
    using n len that by (auto simp: entry_def h'_def)
  have slots: "slot h' 0 = ?n" "i < 15 \<Longrightarrow> slot h' (Suc i) = slot h i" "i < 15 \<Longrightarrow> slot h i \<noteq> ?n" for i
    using n(1) by (auto simp: slot_def h'_def mod_if)
  have "past_of h' = take 16 (line # past_of h)"
  proof (rule nth_equalityI)
    show len': "length (past_of h') = length (take 16 (line # past_of h))"
      by (simp add: past_of_def h'_def)
    fix i
    assume "i < length (past_of h')"
    then have i: "i < h_count h'" "i < 16"
      by (auto simp: past_of_def h'_def)
    show "past_of h' ! i = take 16 (line # past_of h) ! i"
    proof (cases i)
      case 0
      then show ?thesis
        using i new [of "slot h 0"] slots(1,3) by (simp add: past_of_def)
    next
      case (Suc j)
      then have "j < h_count h" "j < 15"
        using i by (auto simp: h'_def)
      then show ?thesis
        using i Suc old slots(2,3) by (simp add: past_of_def)
    qed
  qed
  then have "past_of h' = remember line (past_of h)"
    using False by (auto simp: remember_def)
  then show ?thesis
    using that [OF run ok'] by simp
qed

lemma copy_into_eq:
  assumes ok: "history_ok h" and p: "p < length (past_of h)" and out: "length out = 80"
  shows "copy_into h p out = Ok (length (past_of h ! p), past_of h ! p @ drop (length (past_of h ! p)) out)"
    "length (past_of h ! p) \<le> 80"
proof -
  let ?k = "slot h p"
  have p': "p < 16" "past_of h ! p = entry h ?k"
    using p ok by (auto simp: past_of_def history_ok_def)
  have k: "(h_next h + 16 - 1 - p) mod 16 = ?k" "h_next h + 16 < 2 ^ 64" "p \<le> h_next h + 16 - 1"
    using ok p' by (simp_all add: slot_def history_ok_def)
  have sizes: "length (h_entries h ! ?k) = 80" "h_lengths h ! ?k \<le> 80" "length (h_entries h) = 16" "length (h_lengths h) = 16"
    using ok by (simp_all add: history_ok_def)
  then show "length (past_of h ! p) \<le> 80"
    using p' length_entry [OF ok, of ?k] by simp
  show "copy_into h p out = Ok (length (past_of h ! p), past_of h ! p @ drop (length (past_of h ! p)) out)"
    using k sizes out p' length_entry [OF ok, of ?k] by (simp add: copy_into_def HISTORY_CAPACITY_def entry_def Let_def)
qed

section \<open>The abstract editor\<close>

record line_state =
  before :: "u8 list"
  after :: "u8 list"
  browsing :: "nat option"
  kept_draft :: "u8 list"
  past :: "u8 list list"
  shown :: nat

definition line_new :: line_state where
  "line_new = \<lparr>before = [], after = [], browsing = None, kept_draft = [], past = [], shown = 0\<rparr>"

abbreviation line_of :: "line_state \<Rightarrow> u8 list" where
  "line_of s \<equiv> before s @ after s"

definition insert_text :: "u8 list \<Rightarrow> line_state \<Rightarrow> line_state option" where
  "insert_text t s = (if length (line_of s) + length t \<le> 80 then Some (s\<lparr>before := before s @ t, browsing := None\<rparr>) else None)"

definition browse :: "nat \<Rightarrow> line_state \<Rightarrow> line_state" where
  "browse p s = s\<lparr>before := past s ! p, after := [], browsing := Some p\<rparr>"

text \<open>The effect of a key, or \<open>None\<close> if it has none.\<close>

fun key_effect :: "key_event \<Rightarrow> line_state \<Rightarrow> line_state option" where
  "key_effect (Character b) s = insert_text [b] s"
| "key_effect Tab s = insert_text (replicate 4 0x20) s"
| "key_effect Backspace s = (if before s = [] then None else Some (s\<lparr>before := butlast (before s), browsing := None\<rparr>))"
| "key_effect Delete s = (if after s = [] then None else Some (s\<lparr>after := tl (after s), browsing := None\<rparr>))"
| "key_effect Left s = (if before s = [] then None
     else Some (s\<lparr>before := butlast (before s), after := last (before s) # after s\<rparr>))"
| "key_effect Right s = (if after s = [] then None
     else Some (s\<lparr>before := before s @ [hd (after s)], after := tl (after s)\<rparr>))"
| "key_effect Home s = Some (s\<lparr>before := [], after := line_of s\<rparr>)"
| "key_effect End s = Some (s\<lparr>before := line_of s, after := []\<rparr>)"
| "key_effect Up s = (if past s = [] then None else
     case browsing s of
       None \<Rightarrow> Some (browse 0 (s\<lparr>kept_draft := line_of s\<rparr>))
     | Some p \<Rightarrow> Some (browse (if p + 1 < length (past s) then p + 1 else p) s))"
| "key_effect Down s = (case browsing s of
       None \<Rightarrow> None
     | Some 0 \<Rightarrow> Some (s\<lparr>before := kept_draft s, after := [], browsing := None\<rparr>)
     | Some (Suc p) \<Rightarrow> Some (browse p s))"
| "key_effect Enter s = None"

definition redraw_ops :: "nat \<Rightarrow> u8 list \<Rightarrow> u8 list \<Rightarrow> console_op list" where
  "redraw_ops d bs as =
     Print (0x0d # prompt_text) # print_ascii (bs @ as) @ replicate (d - length (bs @ as)) (Print [0x20]) @
     Print (0x0d # prompt_text) # print_ascii bs @ [ShowCursor]"

definition key_step :: "key_event \<Rightarrow> line_state \<Rightarrow> console_op list \<times> line_state" where
  "key_step ev s = (case key_effect ev s of
     None \<Rightarrow> ([], s)
   | Some s' \<Rightarrow> (redraw_ops (shown s') (before s') (after s'), s'\<lparr>shown := length (line_of s')\<rparr>))"

definition enter_step :: "line_state \<Rightarrow> u8 list \<times> line_state" where
  "enter_step s = (line_of s, s\<lparr>before := [], after := [], browsing := None, past := remember (line_of s) (past s), shown := 0\<rparr>)"

section \<open>Simulation\<close>

definition edits :: "editor \<Rightarrow> line_state \<Rightarrow> bool" where
  "edits e s \<longleftrightarrow>
     length (e_line e) = 80 \<and> e_length e \<le> 80 \<and> e_cursor e \<le> e_length e \<and>
     before s = take (e_cursor e) (e_line e) \<and> after s = drop (e_cursor e) (take (e_length e) (e_line e)) \<and>
     history_ok (e_history e) \<and> past s = past_of (e_history e) \<and> history_position e = browsing s \<and>
     (\<forall>p. browsing s = Some p \<longrightarrow> p < length (past s) \<and> kept_draft s = take (draft_length e) (e_draft e)) \<and>
     length (e_draft e) = 80 \<and> draft_length e \<le> 80 \<and> displayed_length e = shown s"

lemma edits_new: "edits editor_new line_new"
  by (simp add: edits_def editor_new_def line_new_def LINE_CAPACITY_def HISTORY_CAPACITY_def history_new_def history_ok_def past_of_def)

text \<open>The array holds the line, split at the cursor, and then bytes that do not matter.\<close>

lemma edits_array:
  assumes "edits e s"
  obtains rest where "e_line e = before s @ after s @ rest" "e_cursor e = length (before s)"
    "e_length e = length (before s) + length (after s)" "length (before s) + length (after s) + length rest = 80"
proof -
  let ?rest = "drop (e_length e) (e_line e)"
  have sizes: "length (e_line e) = 80" "e_length e \<le> 80" "e_cursor e \<le> e_length e"
    using assms by (simp_all add: edits_def)
  have "take (e_cursor e) (e_line e) = take (e_cursor e) (take (e_length e) (e_line e))"
    using sizes by (simp add: min_absorb1)
  moreover have parts: "before s = take (e_cursor e) (e_line e)" "after s = drop (e_cursor e) (take (e_length e) (e_line e))"
    using assms unfolding edits_def by blast+
  ultimately have "before s @ after s = take (e_length e) (e_line e)"
    by (simp only: append_take_drop_id)
  then have "e_line e = before s @ after s @ ?rest"
    by (metis append_assoc append_take_drop_id)
  moreover have "e_cursor e = length (before s)" "e_length e = length (before s) + length (after s)"
    "length (before s) + length (after s) + length ?rest = 80"
    using sizes by (simp_all add: parts)
  ultimately show thesis
    by (rule that)
qed

lemma edits_line:
  assumes "edits e s"
  shows "take (e_length e) (e_line e) = line_of s"
  using edits_array [OF assms] by (metis append_assoc append_eq_conv_conj length_append)

text \<open>And back: a change of the array that has this shape.\<close>

lemma edits_update:
  assumes "edits e s" "length bs + length as + length rest = 80" "browsing s' = None \<or> browsing s' = browsing s"
    "past s' = past s" "kept_draft s' = kept_draft s" "before s' = bs" "after s' = as" "shown s' = shown s"
  shows "edits (e\<lparr>e_line := bs @ as @ rest, e_length := length bs + length as, e_cursor := length bs, history_position := browsing s'\<rparr>) s'"
  using assms by (auto simp: edits_def)

lemma redraw_sim:
  assumes "edits e s"
  shows "\<exists>e'. redraw e = Ok (redraw_ops (shown s) (before s) (after s), e') \<and> edits e' (s\<lparr>shown := length (line_of s)\<rparr>)"
proof -
  obtain rest where "e_line e = before s @ after s @ rest" "e_cursor e = length (before s)"
    "e_length e = length (before s) + length (after s)" "length (before s) + length (after s) + length rest = 80"
    using assms by (rule edits_array)
  moreover have "displayed_length e = shown s"
    using assms by (simp add: edits_def)
  ultimately show ?thesis
    using assms by (auto simp: redraw_def redraw_ops_def edits_def)
qed

lemma recall_sim:
  assumes e: "edits e s" and p: "p < length (past s)"
    and draft: "kept_draft s' = take (draft_length e) (e_draft e)" and s': "s' = (s\<lparr>kept_draft := k\<rparr>)"
  shows "\<exists>e'. recall p (e\<lparr>history_position := Some p\<rparr>) =
      Ok (redraw_ops (shown s) (past s ! p) [], e') \<and> edits e' ((browse p s')\<lparr>shown := length (past s ! p)\<rparr>)"
proof -
  have h: "history_ok (e_history e)" "p < length (past_of (e_history e))" "length (e_line e) = 80" "past s = past_of (e_history e)"
    using e p by (auto simp: edits_def)
  let ?l = "past s ! p"
  let ?e = "e\<lparr>history_position := Some p, e_line := ?l @ drop (length ?l) (e_line e), e_length := length ?l, e_cursor := length ?l\<rparr>"
  note copy = copy_into_eq [OF h(1-3), folded h(4)]
  have "edits ?e (browse p s')"
    using e p draft copy(2) by (auto simp: edits_def browse_def s')
  from redraw_sim [OF this] show ?thesis
    using copy(1) by (simp add: recall_def browse_def s')
qed

definition sim :: "(console_op list \<times> editor) may_panic \<Rightarrow> console_op list \<times> line_state \<Rightarrow> bool" where
  "sim m r \<longleftrightarrow> (\<exists>e'. m = Ok (fst r, e') \<and> edits e' (snd r))"

lemma sim_none: "edits e s \<Longrightarrow> key_effect ev s = None \<Longrightarrow> sim (Ok ([], e)) (key_step ev s)"
  by (simp add: sim_def key_step_def)

lemma sim_redraw: "edits e s' \<Longrightarrow> key_effect ev s = Some s' \<Longrightarrow> sim (redraw e) (key_step ev s)"
  using redraw_sim [of e s'] by (simp add: sim_def key_step_def)

lemma shift_right:
  "t \<le> length R \<Longrightarrow>
   copy_within (B @ A @ R) (length B) (length B + length A) (length B + t) = Ok (B @ take t (A @ R) @ A @ drop t R)"
  by (simp add: add.assoc)

lemma shift_left:
  "copy_within (B @ x # A @ R) (Suc (length B)) (Suc (length B + length A)) (length B) = Ok (B @ A @ drop (length A) (x # A @ R))"
  by simp

lemma edit_insert_sim:
  assumes e: "edits e s"
  shows "sim (edit_event (Character b) e) (key_step (Character b) s)" "sim (edit_event Tab e) (key_step Tab s)"
proof -
  obtain R where line: "e_line e = before s @ after s @ R" "e_cursor e = length (before s)"
    "e_length e = length (before s) + length (after s)" and len: "length (before s) + length (after s) + length R = 80"
    using e by (rule edits_array)
  show "sim (edit_event (Character b) e) (key_step (Character b) s)"
  proof (cases "e_length e < 80")
    case True
    let ?s = "s\<lparr>before := before s @ [b], browsing := None\<rparr>"
    obtain x where x: "take 1 (after s @ R) = [x]"
      using True len line(3) by (cases "after s @ R") auto
    have "edits (e\<lparr>e_line := (before s @ [b]) @ after s @ drop 1 R, e_length := length (before s @ [b]) + length (after s),
        e_cursor := length (before s @ [b]), history_position := browsing ?s\<rparr>) ?s"
      using True len line(3) by (intro edits_update [OF e]) auto
    from sim_redraw [OF this] show ?thesis
      using True len line shift_right [of 1 R "before s" "after s"] x
      by (simp add: LINE_CAPACITY_def insert_text_def leave_history_def)
  next
    case False
    then show ?thesis
      using sim_none [OF e] line(3) by (simp add: LINE_CAPACITY_def insert_text_def)
  qed
  show "sim (edit_event Tab e) (key_step Tab s)"
  proof (cases "e_length e + 4 \<le> 80")
    case True
    let ?s = "s\<lparr>before := before s @ replicate 4 0x20, browsing := None\<rparr>"
    have "edits (e\<lparr>e_line := (before s @ replicate 4 0x20) @ after s @ drop 4 R, e_length := length (before s @ replicate 4 0x20 :: u8 list) + length (after s),
        e_cursor := length (before s @ replicate 4 0x20 :: u8 list), history_position := browsing ?s\<rparr>) ?s"
      using True len line(3) by (intro edits_update [OF e]) auto
    from sim_redraw [OF this] show ?thesis
      using True len line shift_right [of 4 R "before s" "after s"]
      by (simp add: LINE_CAPACITY_def insert_text_def leave_history_def add_ac)
  next
    case False
    then show ?thesis
      using sim_none [OF e] line(3) len by (simp add: LINE_CAPACITY_def insert_text_def)
  qed
qed

lemma edit_remove_sim:
  assumes e: "edits e s"
  shows "sim (edit_event Backspace e) (key_step Backspace s)" "sim (edit_event Delete e) (key_step Delete s)"
proof -
  obtain R where line: "e_line e = before s @ after s @ R" "e_cursor e = length (before s)"
    "e_length e = length (before s) + length (after s)" and len: "length (before s) + length (after s) + length R = 80"
    using e by (rule edits_array)
  show "sim (edit_event Backspace e) (key_step Backspace s)"
  proof (cases "before s" rule: rev_cases)
    case Nil
    then show ?thesis
      using sim_none [OF e] line(2) by simp
  next
    case (snoc B x)
    let ?s = "s\<lparr>before := B, browsing := None\<rparr>"
    have "edits (e\<lparr>e_line := B @ after s @ drop (length (after s)) (x # after s @ R), e_length := length B + length (after s),
        e_cursor := length B, history_position := browsing ?s\<rparr>) ?s"
      using snoc len by (intro edits_update [OF e]) auto
    from sim_redraw [OF this] show ?thesis
      using snoc len line shift_left [of B x "after s" R] by (simp add: leave_history_def)
  qed
  show "sim (edit_event Delete e) (key_step Delete s)"
  proof (cases "after s")
    case Nil
    then show ?thesis
      using sim_none [OF e] line(2,3) by simp
  next
    case (Cons x A)
    let ?s = "s\<lparr>after := A, browsing := None\<rparr>"
    have "edits (e\<lparr>e_line := before s @ A @ drop (length A) (x # A @ R), e_length := length (before s) + length A,
        e_cursor := length (before s), history_position := browsing ?s\<rparr>) ?s"
      using Cons len by (intro edits_update [OF e]) auto
    moreover have "e\<lparr>e_line := l, e_length := n, e_cursor := length (before s), history_position := None\<rparr> =
        e\<lparr>e_line := l, e_length := n, history_position := None\<rparr>" for l n
      using line(2) by (cases e) simp
    ultimately show ?thesis
      using Cons len line shift_left [of "before s" x A R] sim_redraw [of _ ?s Delete s] by (simp add: leave_history_def)
  qed
qed

lemma edit_move_sim:
  assumes e: "edits e s"
  shows "sim (edit_event Left e) (key_step Left s)" "sim (edit_event Right e) (key_step Right s)"
    "sim (edit_event Home e) (key_step Home s)" "sim (edit_event End e) (key_step End s)"
proof -
  obtain R where line: "e_line e = line_of s @ R" "e_cursor e = length (before s)"
    "e_length e = length (before s) + length (after s)"
    using edits_array [OF e] by (metis append_assoc)
  have moved: "edits (e\<lparr>e_cursor := length bs\<rparr>) (s\<lparr>before := bs, after := as\<rparr>)" if "bs @ as = line_of s" for bs as
  proof -
    have len: "e_length e = length bs + length as"
      using that line(3) by (metis length_append)
    have "take (length bs) (e_line e) = bs" "drop (length bs) (take (e_length e) (e_line e)) = as" "length bs \<le> e_length e"
      unfolding len line(1) that [symmetric] by simp_all
    moreover have "length (e_line e) = 80" "e_length e \<le> 80" "history_ok (e_history e)" "past s = past_of (e_history e)"
      "history_position e = browsing s" "length (e_draft e) = 80" "draft_length e \<le> 80" "displayed_length e = shown s"
      "\<forall>p. browsing s = Some p \<longrightarrow> p < length (past s) \<and> kept_draft s = take (draft_length e) (e_draft e)"
      using e unfolding edits_def by blast+
    ultimately show ?thesis
      by (simp add: edits_def)
  qed
  show "sim (edit_event Home e) (key_step Home s)"
    using sim_redraw [OF moved [of "[]" "line_of s"]] by simp
  show "sim (edit_event End e) (key_step End s)"
    using sim_redraw [OF moved [of "line_of s" "[]"]] line(3) by simp
  show "sim (edit_event Left e) (key_step Left s)"
    using sim_none [OF e] sim_redraw [OF moved [of "butlast (before s)" "last (before s) # after s"]] line(2)
    by (cases "before s" rule: rev_cases) auto
  show "sim (edit_event Right e) (key_step Right s)"
    using sim_none [OF e] sim_redraw [OF moved [of "before s @ [hd (after s)]" "tl (after s)"]] line(2,3)
    by (cases "after s") auto
qed

lemma edits_history:
  assumes "edits e s"
  shows "length (e_line e) = 80" "e_length e \<le> 80" "past s = past_of (e_history e)" "history_position e = browsing s"
    "length (e_draft e) = 80" "draft_length e \<le> 80" "h_count (e_history e) = length (past s)"
  using assms by (auto simp: edits_def past_of_def)

lemma edits_draft:
  assumes "edits e s" "browsing s = Some p"
  shows "p < length (past s)" "kept_draft s = take (draft_length e) (e_draft e)"
  using assms by (auto simp: edits_def)

lemma edit_up_sim:
  assumes e: "edits e s"
  shows "sim (edit_event Up e) (key_step Up s)"
proof (cases "past s = []")
  case True
  then have "edit_event Up e = Ok ([], e)"
    using edits_history(7) [OF e] by (simp add: history_previous_def)
  with True show ?thesis
    using sim_none [OF e, of Up] by simp
next
  case nonempty: False
  show ?thesis
  proof (cases "browsing s")
    case (Some p)
    let ?p = "if p + 1 < length (past s) then p + 1 else p"
    have "p < length (past s)" "length (past s) \<le> 16"
      using edits_draft [OF e Some] e by (auto simp: edits_def history_ok_def past_of_def)
    then have "edit_event Up e = recall ?p (e\<lparr>history_position := Some ?p\<rparr>)" "?p < length (past s)"
      using nonempty Some edits_history(4,7) [OF e] by (simp_all add: history_previous_def Let_def)
    then show ?thesis
      using recall_sim [OF e, of ?p s "kept_draft s"] edits_draft [OF e Some] nonempty Some
      by (auto simp: sim_def key_step_def browse_def)
  next
    case None
    let ?d = "take (e_length e) (e_line e)"
    let ?e = "e\<lparr>e_draft := ?d @ drop (e_length e) (e_draft e), draft_length := e_length e\<rparr>"
    have line: "line_of s = ?d"
      using edits_array [OF e] by (metis append_assoc append_eq_conv_conj length_append)
    have "edits ?e s"
      using e None edits_history [OF e] by (simp add: edits_def)
    moreover have "edit_event Up e = recall 0 (?e\<lparr>history_position := Some 0\<rparr>)"
      using nonempty None edits_history [OF e] by (simp add: history_previous_def)
    moreover have "take (draft_length ?e) (e_draft ?e) = ?d"
      using edits_history [OF e] by simp
    ultimately show ?thesis
      using recall_sim [of ?e s 0 "s\<lparr>kept_draft := ?d\<rparr>" ?d] nonempty None line
      by (auto simp: sim_def key_step_def browse_def)
  qed
qed

lemma edit_down_sim:
  assumes e: "edits e s"
  shows "sim (edit_event Down e) (key_step Down s)"
proof (cases "browsing s")
  case None
  then show ?thesis
    using sim_none [OF e, of Down] edits_history(4) [OF e] by simp
next
  case (Some p)
  show ?thesis
  proof (cases p)
    case (Suc q)
    then show ?thesis
      using recall_sim [OF e, of q s "kept_draft s"] edits_draft [OF e Some] Some edits_history(4) [OF e]
      by (auto simp: sim_def key_step_def browse_def)
  next
    case 0
    let ?d = "kept_draft s"
    let ?e = "e\<lparr>history_position := None, e_line := ?d @ drop (length ?d) (e_line e), e_length := length ?d, e_cursor := length ?d\<rparr>"
    let ?s = "s\<lparr>before := ?d, after := [], browsing := None\<rparr>"
    have d: "?d = take (draft_length e) (e_draft e)" "length ?d = draft_length e"
      using edits_draft(2) [OF e Some] edits_history(5,6) [OF e] by simp_all
    have "edits ?e ?s"
      using e d(2) edits_history(1,6) [OF e] by (simp add: edits_def)
    moreover have "edit_event Down e = redraw ?e"
      using Some 0 d edits_history [OF e] by simp
    ultimately show ?thesis
      using sim_redraw [of ?e ?s Down s] Some 0 by simp
  qed
qed

lemma edit_event_sim: "edits e s \<Longrightarrow> ev \<noteq> Enter \<Longrightarrow> sim (edit_event ev e) (key_step ev s)"
  by (cases ev) (simp_all only: edit_insert_sim edit_remove_sim edit_move_sim edit_up_sim edit_down_sim simp_thms)

lemma submit_sim:
  assumes e: "edits e s"
  obtains e' where "submit e = Ok (line_of s, e')" "edits e' (snd (enter_step s))"
proof -
  obtain R where line: "e_line e = line_of s @ R" "e_length e = length (line_of s)" "length (line_of s) \<le> 80"
    using edits_array [OF e] by (metis append_assoc le_add1 length_append)
  have h: "history_ok (e_history e)" "past s = past_of (e_history e)"
    using e by (simp_all add: edits_def)
  obtain h' where h': "history_push (e_history e) (line_of s) = Ok h'" "history_ok h'" "past_of h' = remember (line_of s) (past s)"
    using history_push_eq [OF h(1) line(3)] h(2) by metis
  let ?e = "e\<lparr>e_history := h', e_length := 0, e_cursor := 0, displayed_length := 0, history_position := None\<rparr>"
  have "submit e = Ok (line_of s, ?e)"
    using line h' by (simp add: submit_def)
  moreover have "edits ?e (snd (enter_step s))"
    using e h' by (simp add: edits_def enter_step_def)
  ultimately show thesis
    by (rule that)
qed

section \<open>Printable lines\<close>

text \<open>
  When only printable characters are typed, every line the editor holds, recalls or submits consists
  of them.
\<close>

definition printable :: "u8 \<Rightarrow> bool" where
  "printable b \<longleftrightarrow> 0x20 \<le> b \<and> b \<le> 0x7e"

definition line_printable :: "line_state \<Rightarrow> bool" where
  "line_printable s \<longleftrightarrow>
     list_all printable (before s) \<and> list_all printable (after s) \<and> list_all printable (kept_draft s) \<and>
     list_all (list_all printable) (past s)"

lemma line_printable_new: "line_printable line_new"
  by (simp add: line_printable_def line_new_def)

lemma browse_printable: "line_printable s \<Longrightarrow> p < length (past s) \<Longrightarrow> line_printable (browse p s)"
  by (auto simp: line_printable_def browse_def list_all_length)

lemma list_all_butlast: "list_all P xs \<Longrightarrow> list_all P (butlast xs)"
  by (auto simp: list_all_iff dest: in_set_butlastD)

lemma list_all_tl: "list_all P xs \<Longrightarrow> list_all P (tl xs)"
  by (cases xs) simp_all

lemma list_all_ends: "list_all P xs \<Longrightarrow> xs \<noteq> [] \<Longrightarrow> P (hd xs) \<and> P (last xs)"
  by (simp add: list_all_iff)

lemma list_all_replicate: "P x \<Longrightarrow> list_all P (replicate n x)"
  by (simp add: list_all_iff)

lemma key_effect_printable:
  assumes "line_printable s" "key_effect ev s = Some s'" "\<forall>b. ev = Character b \<longrightarrow> printable b"
    "\<forall>p. browsing s = Some p \<longrightarrow> p < length (past s)"
  shows "line_printable s'"
proof (cases ev)
  case Up
  have "line_printable (s\<lparr>kept_draft := line_of s\<rparr>)"
    using assms(1) by (simp add: line_printable_def)
  then show ?thesis
    using assms Up browse_printable [of s] browse_printable [of "s\<lparr>kept_draft := line_of s\<rparr>" 0]
    by (auto split: if_splits option.splits)
next
  case Down
  then show ?thesis
    using assms browse_printable [of s] by (auto simp: line_printable_def split: option.splits nat.splits)
qed (use assms list_all_ends [of printable] in
    \<open>auto simp: line_printable_def insert_text_def list_all_butlast list_all_tl printable_def list_all_replicate split: if_splits\<close>)

lemma key_step_printable:
  assumes "line_printable s" "\<forall>b. ev = Character b \<longrightarrow> printable b" "\<forall>p. browsing s = Some p \<longrightarrow> p < length (past s)"
  shows "line_printable (snd (key_step ev s))"
  using assms key_effect_printable [OF assms(1) _ assms(2,3)]
  by (auto simp: key_step_def line_printable_def split: option.split)

lemma enter_step_printable: "line_printable s \<Longrightarrow> line_printable (snd (enter_step s))"
  by (auto simp: line_printable_def enter_step_def remember_def list_all_iff dest: in_set_takeD)

end
