(* ===== verification/Shell.thy ===== *)
theory Shell
  imports Line_Editor_Correct Fat32_Correct Allocator Timer
begin

text \<open>
  The commands of the shell (\<open>execute\<close> and below in \<open>kernel/src/shell.rs\<close>) and the handling of a
  key event by \<open>run\<close>. A command's effect is the list of its console operations and how it ends;
  the file system, the allocator and the two readings of the tick counter that \<open>uptime\<close> takes are
  arguments.
\<close>

section \<open>Definitions\<close>

record system_info =
  usable_frame_total :: usize
  frames_consumed_at_boot :: usize

text \<open>\<open>Continue\<close>: the command returned. \<open>Reboots\<close> and \<open>Halts\<close>: it never does.\<close>

datatype command_end = Continue | Reboots | Halts

text \<open>\<open>{:?}\<close> of the errors.\<close>

fun debug_storage_error :: "storage_error \<Rightarrow> str" where
  "debug_storage_error MissingRamdisk = lit ''MissingRamdisk''"
| "debug_storage_error InvalidRamdisk = lit ''InvalidRamdisk''"
| "debug_storage_error SectorOutOfRange = lit ''SectorOutOfRange''"

fun debug_fs_error :: "fs_error \<Rightarrow> str" where
  "debug_fs_error (Device e) = lit ''Device('' @ debug_storage_error e @ lit '')''"
| "debug_fs_error InvalidBootSector = lit ''InvalidBootSector''"
| "debug_fs_error UnsupportedVolume = lit ''UnsupportedVolume''"
| "debug_fs_error InvalidCluster = lit ''InvalidCluster''"
| "debug_fs_error CorruptFat = lit ''CorruptFat''"
| "debug_fs_error DirectoryLoop = lit ''DirectoryLoop''"
| "debug_fs_error NotFound = lit ''NotFound''"
| "debug_fs_error NotDirectory = lit ''NotDirectory''"
| "debug_fs_error IsDirectory = lit ''IsDirectory''"
| "debug_fs_error TruncatedFile = lit ''TruncatedFile''"

definition help_text :: "console_op list" where
  "help_text =
     [println (lit ''commands:''),
      println (lit ''  help             show this text''),
      println (lit ''  echo <text>      print text''),
      println (lit ''  ls [path]        list a FAT32 directory''),
      println (lit ''  cat <file>       print a FAT32 file''),
      println (lit ''  clear            clear the framebuffer console''),
      println (lit ''  uptime           show PIT-based uptime''),
      println (lit ''  meminfo          show frame and heap statistics''),
      println (lit ''  reboot | halt    stop or reset the machine'')]"

definition arguments_after_command :: "str \<Rightarrow> str" where
  "arguments_after_command line =
     (if list_ex is_whitespace line then trim_start (dropWhile (\<lambda>c. \<not> is_whitespace c) line) else [])"

definition print_file_chunk :: "u8 list \<Rightarrow> console_op list" where
  "print_file_chunk bytes =
     (case from_utf8 bytes of
        Some t \<Rightarrow> [Print t]
      | None \<Rightarrow> map (\<lambda>byte.
          if is_ascii_graphic byte \<or> byte = 0x20 \<or> byte = 0x0a \<or> byte = 0x0d then Print [unat byte]
          else Print ([0x5c] @ lit ''x'' @ hex2 byte)) bytes)"

text \<open>The closure of \<open>ls\<close>; an entry's name is ASCII, so its characters are its bytes.\<close>

definition ls_line :: "dir_entry \<Rightarrow> u8 list \<Rightarrow> str" where
  "ls_line e name =
     (if is_directory e then lit ''<DIR>'' else lit ''     '') @ lit '' '' @
     pad_left 7 (decimal (unat (de_size e))) @ lit '' '' @ map unat name"

definition ls_visitor :: "console_op list dir_visitor" where
  "ls_visitor = (\<lambda>ops e.
     case entry_name e of
       Ok name \<Rightarrow> Some (ops @ [println (ls_line e name)], True)
     | Err (x :: unit) \<Rightarrow> None
     | Panic \<Rightarrow> None)"

definition ls_command :: "fat32 \<Rightarrow> str \<Rightarrow> console_op list may_panic" where
  "ls_command fs path =
     (case list_dir fs (encode_utf8 path) ls_visitor [] of
        Ok (ops, _) \<Rightarrow> Ok ops
      | Err (ops, e) \<Rightarrow> Ok (ops @ [println (lit ''ls: '' @ debug_fs_error e)])
      | Panic \<Rightarrow> Panic)"

definition cat_visitor :: "console_op list byte_visitor" where
  "cat_visitor = (\<lambda>ops bytes. Some (ops @ print_file_chunk bytes))"

definition cat_command :: "fat32 \<Rightarrow> str \<Rightarrow> console_op list may_panic" where
  "cat_command fs path =
     (case read_file fs (encode_utf8 path) cat_visitor [] of
        Ok (ops, _) \<Rightarrow> Ok (ops @ [println []])
      | Err (ops, e) \<Rightarrow> Ok (ops @ [println (lit ''cat: '' @ debug_fs_error e)])
      | Panic \<Rightarrow> Panic)"

definition uptime_command :: "u64 \<Rightarrow> u64 \<Rightarrow> console_op list" where
  "uptime_command t1 t2 =
     [println (lit ''uptime: '' @ decimal (unat (uptime_seconds t1)) @ lit '' s ('' @ decimal (unat (ticks t2)) @
        lit '' timer ticks)'')]"

definition meminfo_command :: "system_info \<Rightarrow> bump \<Rightarrow> console_op list" where
  "meminfo_command system a =
     (let physical_kib = saturating_mul (usable_frame_total system) 4 in
      [println (lit ''usable physical memory: '' @ decimal (unat physical_kib) @ lit '' KiB''),
       println (lit ''heap: '' @ decimal (unat (bump_used a div 1024)) @ lit '' / '' @ decimal (unat (bump_capacity a div 1024)) @
         lit '' KiB used (bump allocator)''),
       println (lit ''frames consumed during bring-up: '' @ decimal (unat (frames_consumed_at_boot system)))])"

text \<open>Everything the commands read apart from the file system.\<close>

record shell_env =
  env_system :: system_info
  env_heap :: bump
  env_ticks :: "u64 \<times> u64"

text \<open>\<open>halt\<close> prints, disables interrupts and halts for good.\<close>

definition halt_command :: "console_op list \<times> command_end" where
  "halt_command = ([println (lit ''CPU halted.'')], Halts)"

definition run_command :: "fat32 \<Rightarrow> shell_env \<Rightarrow> str \<Rightarrow> str \<Rightarrow> str list \<Rightarrow> (console_op list \<times> command_end) may_panic" where
  "run_command fs env line command args =
     (if command = lit ''help'' then Ok (help_text, Continue)
      else if command = lit ''echo'' then Ok ([println (arguments_after_command line)], Continue)
      else if command = lit ''ls'' then
        (case args of
           [] \<Rightarrow> obind (ls_command fs (lit ''/'')) (\<lambda>ops. Ok (ops, Continue))
         | [path] \<Rightarrow> obind (ls_command fs path) (\<lambda>ops. Ok (ops, Continue))
         | _ \<Rightarrow> Ok ([println (lit ''usage: ls [path]'')], Continue))
      else if command = lit ''cat'' then
        (case args of
           [path] \<Rightarrow> obind (cat_command fs path) (\<lambda>ops. Ok (ops, Continue))
         | _ \<Rightarrow> Ok ([println (lit ''usage: cat <file>'')], Continue))
      else if command = lit ''clear'' then
        Ok ([ClearScreen, SerialPrint ([0x1b] @ lit ''[2J'' @ [0x1b] @ lit ''[H'')], Continue)
      else if command = lit ''uptime'' then
        (case env_ticks env of (t1, t2) \<Rightarrow> Ok (uptime_command t1 t2, Continue))
      else if command = lit ''meminfo'' then Ok (meminfo_command (env_system env) (env_heap env), Continue)
      else if command = lit ''reboot'' then Ok ([println (lit ''rebooting through the PS/2 controller...'')], Reboots)
      else if command = lit ''halt'' then Ok halt_command
      else Ok ([println (lit ''unknown command: '' @ command @ lit ''; type '' @ [0x27] @ lit ''help'' @ [0x27])], Continue))"

definition execute :: "fat32 \<Rightarrow> shell_env \<Rightarrow> u8 list \<Rightarrow> (console_op list \<times> command_end) may_panic" where
  "execute fs env input =
     (case from_utf8 input of
        None \<Rightarrow> Ok ([println (lit ''input is not valid UTF-8'')], Continue)
      | Some t \<Rightarrow>
          let line = trim t in
          if line = [] then Ok ([], Continue) else
          case split_whitespace line of
            [] \<Rightarrow> run_command fs env line [] []
          | command # args \<Rightarrow> run_command fs env line command args)"

text \<open>
  \<open>reboot\<close> after its message, with interrupts disabled; the processor then halts for good unless
  the controller resets the machine.
\<close>

definition reboot_pulse :: "'h bus \<Rightarrow> ('h, unit) state" where
  "reboot_pulse b = do {
     idle \<leftarrow> poll8 b 100000 0x64 (\<lambda>status. status AND 0x02 = 0);
     if idle then out8 b 0x64 0xfe else ret ()
   }"

text \<open>One event of \<open>run\<close>, and the greeting before the loop.\<close>

definition greeting :: "console_op list" where
  "greeting = println (0x0a # lit ''Sol OS shell '' @ [0x2014] @ lit '' type '' @ [0x27] @ lit ''help'' @ [0x27] @ lit '' for commands.'') # prompt"

definition shell_event :: "fat32 \<Rightarrow> shell_env \<Rightarrow> key_event \<Rightarrow> editor \<Rightarrow> (console_op list \<times> editor \<times> command_end) may_panic" where
  "shell_event fs env ev e =
     (if ev = Enter then
        obind (submit e) (\<lambda>(line, e').
        obind (execute fs env line) (\<lambda>(ops, outcome).
        case outcome of
          Continue \<Rightarrow> Ok (println [] # ops @ prompt, e', Continue)
        | stop \<Rightarrow> Ok (println [] # ops, e', stop)))
      else obind (edit_event ev e) (\<lambda>(ops, e'). Ok (ops, e', Continue)))"

text \<open>
  The loop of \<open>run\<close> over the events it takes from the queue, each with what the commands read at
  that moment; it ends early only when a command stops the machine.
\<close>

fun shell_run :: "fat32 \<Rightarrow> (key_event \<times> shell_env) list \<Rightarrow> editor \<Rightarrow> (console_op list \<times> editor \<times> command_end) may_panic" where
  "shell_run fs [] e = Ok ([], e, Continue)"
| "shell_run fs ((ev, env) # evs) e =
     obind (shell_event fs env ev e) (\<lambda>(ops, e', outcome).
     case outcome of
       Continue \<Rightarrow> obind (shell_run fs evs e') (\<lambda>(ops', r). Ok (ops @ ops', r))
     | stop \<Rightarrow> Ok (ops, e', stop))"

definition run :: "fat32 \<Rightarrow> (key_event \<times> shell_env) list \<Rightarrow> (console_op list \<times> editor \<times> command_end) may_panic" where
  "run fs evs = obind (shell_run fs evs editor_new) (\<lambda>(ops, r). Ok (greeting @ ops, r))"

end
