(* ===== verification/Shell_Correct.thy ===== *)
theory Shell_Correct
  imports Shell
begin

text \<open>
  Correctness of the shell: every command ends without a panic on a mounted volume, \<open>ls\<close>, \<open>cat\<close> and
  \<open>echo\<close> print what they should, and a session of key events runs exactly the lines the abstract
  editor holds when Enter is pressed.
\<close>

section \<open>Listing and printing\<close>

lemma run_ls_visitor:
  "(\<And>e. e \<in> set es \<Longrightarrow> entry_name e = (Ok (entry_label e) :: (unit, u8 list) outcome)) \<Longrightarrow>
   run_visitor ls_visitor es ops = Ok (ops @ map (\<lambda>e. println (ls_line e (entry_label e))) es, False)"
  by (induction es arbitrary: ops) (simp_all add: ls_visitor_def)

lemma visit_ls:
  assumes "volume_ok fs"
  shows "visit_directory ls_visitor fs c [] =
    (if valid_cluster fs c then
       let ops = map (\<lambda>e. println (ls_line e (entry_label e))) (dir_list fs c) in
       if dir_closed fs c then Ok (ops, ()) else Err (ops, chain_error (walk_end fs c) CorruptFat)
     else Err ([], InvalidCluster))"
  by (simp add: visit_directory_list [OF assms] run_ls_visitor list_dir_entries_named Let_def)

lemma ls_command_total:
  assumes "volume_ok fs"
  shows "\<exists>ops. ls_command fs path = Ok ops"
proof -
  have "list_dir fs p ls_visitor [] \<noteq> Panic" for p
    using resolve_path_safe [OF assms, of p] by (cases "resolve_path fs p") (auto simp: list_dir_def visit_ls [OF assms] Let_def)
  then show ?thesis
    by (auto simp: ls_command_def split: outcome.splits)
qed

lemma deliver_cat: "deliver cat_visitor pieces ops = Ok (ops @ concat (map print_file_chunk pieces))"
  by (induction pieces arbitrary: ops) (simp_all add: cat_visitor_def)

lemma cat_command_total:
  assumes "volume_ok fs"
  shows "\<exists>ops. cat_command fs path = Ok ops"
proof -
  have "total_visitor cat_visitor"
    by (simp add: total_visitor_def cat_visitor_def)
  then have "read_file fs p cat_visitor [] \<noteq> Panic" for p
    using read_file_safe [OF assms, of cat_visitor p "[]"] by (cases "read_file fs p cat_visitor []") auto
  then show ?thesis
    by (auto simp: cat_command_def split: outcome.splits)
qed

definition finishes :: "(console_op list \<times> command_end) may_panic \<Rightarrow> bool" where
  "finishes r \<longleftrightarrow> (\<exists>ops ending. r = Ok (ops, ending))"

lemma finishes_intros [intro]:
  "finishes (Ok (ops, ending))"
  "finishes a \<Longrightarrow> finishes b \<Longrightarrow> finishes (if c then a else b)"
  "\<exists>ops. l = Ok ops \<Longrightarrow> finishes (obind l (\<lambda>ops. Ok (ops, ending)))"
  by (auto simp: finishes_def)

lemma execute_total:
  assumes "volume_ok fs"
  shows "finishes (execute fs env input)"
proof -
  have ls: "finishes (case args of [] \<Rightarrow> obind (ls_command fs p) (\<lambda>ops. Ok (ops, Continue))
      | [path] \<Rightarrow> obind (ls_command fs path) (\<lambda>ops. Ok (ops, Continue)) | _ \<Rightarrow> Ok (u, Continue))" for args p u
    using ls_command_total [OF assms] by (auto split: list.split)
  have cat: "finishes (case args of [path] \<Rightarrow> obind (cat_command fs path) (\<lambda>ops. Ok (ops, Continue)) | _ \<Rightarrow> Ok (u, Continue))"
    for args u
    using cat_command_total [OF assms] by (auto split: list.split)
  have up: "finishes (case ts of (t1, t2) \<Rightarrow> Ok (uptime_command t1 t2, Continue))" for ts
    by (auto split: prod.split)
  have "finishes (run_command fs env line command args)" for line command args
    unfolding run_command_def halt_command_def by (intro finishes_intros ls cat up)
  then show ?thesis
    by (auto simp: execute_def Let_def split: option.split list.split)
qed

text \<open>How the commands end.\<close>

definition commands :: "str list" where
  "commands = map lit [''help'', ''echo'', ''ls'', ''cat'', ''clear'', ''uptime'', ''meminfo'', ''reboot'', ''halt'']"

lemma run_command_unknown:
  "command \<notin> set commands \<Longrightarrow> run_command fs env line command args =
     Ok ([println (lit ''unknown command: '' @ command @ lit ''; type '' @ [0x27] @ lit ''help'' @ [0x27])], Continue)"
  unfolding run_command_def halt_command_def commands_def by simp

definition continues :: "(console_op list \<times> command_end) may_panic \<Rightarrow> bool" where
  "continues r \<longleftrightarrow> (\<forall>ops ending. r = Ok (ops, ending) \<longrightarrow> ending = Continue)"

lemma continues_intros:
  "continues (Ok (ops, Continue))"
  "continues (obind l (\<lambda>ops. Ok (ops, Continue)))"
  "continues (case p of (t1, t2) \<Rightarrow> Ok (f t1 t2, Continue))"
  "continues a \<Longrightarrow> (\<And>x. continues (b x)) \<Longrightarrow> (\<And>x y z. continues (c x y z)) \<Longrightarrow>
    continues (case args of [] \<Rightarrow> a | [x] \<Rightarrow> b x | x # y # z \<Rightarrow> c x y z)"
  by (auto simp: continues_def obind_Ok_iff split: prod.split list.split)

lemma continues_if: "(c \<Longrightarrow> continues a) \<Longrightarrow> (\<not> c \<Longrightarrow> continues b) \<Longrightarrow> continues (if c then a else b)"
  by simp

lemma run_command_ending:
  assumes "run_command fs env line command args = Ok (ops, ending)"
  shows "ending \<noteq> Continue \<longleftrightarrow> command \<in> {lit ''reboot'', lit ''halt''}"
proof (cases "command \<in> {lit ''reboot'', lit ''halt''}")
  case True
  then have "run_command fs env line command args = Ok ([println (lit ''rebooting through the PS/2 controller...'')], Reboots) \<or>
      run_command fs env line command args = Ok ([println (lit ''CPU halted.'')], Halts)"
    by (auto simp: run_command_def halt_command_def lit_def)
  with True assms show ?thesis
    by auto
next
  case False
  then have "continues (run_command fs env line command args)"
    unfolding run_command_def halt_command_def by (intro continues_if continues_intros) simp_all
  with False assms show ?thesis
    by (simp add: continues_def)
qed

text \<open>What a chunk of a file looks like when printed.\<close>

definition chunk_text :: "u8 list \<Rightarrow> str" where
  "chunk_text bytes = serial_text (print_file_chunk bytes)"

lemma chunk_text_utf8: "from_utf8 bytes = Some t \<Longrightarrow> chunk_text bytes = t"
  by (simp add: chunk_text_def print_file_chunk_def)

lemma serial_text_concat: "serial_text (concat opss) = concat (map serial_text opss)"
  by (induction opss) simp_all

lemma chunk_text_ascii: "list_all (\<lambda>b. b < 0x80) bytes \<Longrightarrow> chunk_text bytes = map unat bytes"
  by (simp add: chunk_text_utf8 from_utf8_ascii)

lemma concat_chunk_text:
  assumes "list_all (\<lambda>b. b < 0x80) bytes" "0 < n"
  shows "concat (map chunk_text (chunks n bytes)) = map unat bytes"
proof -
  have "list_all (\<lambda>b. b < 0x80) c" if "c \<in> set (chunks n bytes)" for c
    using assms that concat_chunks [OF assms(2), of bytes] by (metis list_all_iff UN_I set_concat)
  then have "concat (map chunk_text (chunks n bytes)) = concat (map (map unat) (chunks n bytes))"
    by (metis (mono_tags, lifting) chunk_text_ascii map_cong)
  then show ?thesis
    using concat_chunks [OF assms(2), of bytes] by (simp flip: map_concat)
qed

lemma read_entry_cat:
  "read_entry fs e cat_visitor [] =
    (if is_directory e then Err ([], IsDirectory)
     else if de_size e = 0 then Ok ([], 0)
     else if \<not> valid_cluster fs (first_cluster e) then Err ([], InvalidCluster)
     else let ops = concat (map print_file_chunk (chunks 512 (take (unat (de_size e)) (file_bytes fs (first_cluster e))))) in
       if unat (de_size e) \<le> length (file_bytes fs (first_cluster e)) then Ok (ops, unat (de_size e))
       else Err (ops, chain_error (walk_end fs (first_cluster e)) TruncatedFile))"
  by (simp add: read_entry_def deliver_cat Let_def)

text \<open>
  A file is decoded sector by sector, so a character of several bytes that crosses a sector boundary
  is printed as escapes although the file is valid UTF-8.
\<close>

lemma from_utf8_ascii_append:
  "list_all (\<lambda>b. b < 0x80) a \<Longrightarrow> from_utf8 (a @ b) = map_option ((@) (map unat a)) (from_utf8 b)"
proof (induction a)
  case Nil
  then show ?case by (cases "from_utf8 b") simp_all
next
  case (Cons x a)
  then show ?case by (cases "from_utf8 b") (simp_all add: decode_char_def word_less_nat_alt)
qed

lemma cat_splits_characters:
  fixes bytes :: "u8 list"
  defines "bytes \<equiv> replicate 511 0x41 @ [0xc3, 0xa9]"
  shows "from_utf8 bytes = Some (replicate 511 0x41 @ [0xe9])"
    "concat (map chunk_text (chunks 512 bytes)) = replicate 511 0x41 @ [0x5c] @ lit ''xc3'' @ [0x5c] @ lit ''xa9''"
proof -
  have ascii: "list_all (\<lambda>b. b < 0x80) (replicate 511 (0x41 :: u8))"
    by (simp add: list_all_iff)
  have parts: "from_utf8 [0xc3, 0xa9] = Some [0xe9]" "from_utf8 [0xc3] = None" "from_utf8 [0xa9] = None"
    by (simp_all add: decode_char_def second_byte_def continuation_def)
  show "from_utf8 bytes = Some (replicate 511 0x41 @ [0xe9])"
    unfolding bytes_def from_utf8_ascii_append [OF ascii] parts by simp
  have chunks: "chunks 512 bytes = [replicate 511 0x41 @ [0xc3], [0xa9]]"
    using chunks_append [of 512 "replicate 511 0x41 @ [0xc3]" "[0xa9]"]
    by (simp add: bytes_def chunks_single)
  have "from_utf8 (replicate 511 0x41 @ [0xc3]) = None"
    unfolding from_utf8_ascii_append [OF ascii] parts by simp
  moreover have "serial_text (replicate 511 (Print [0x41])) = replicate 511 0x41"
    using serial_text_concat [of "replicate 511 [Print [0x41]]"] by (simp add: concat_replicate_single)
  ultimately show "concat (map chunk_text (chunks 512 bytes)) = replicate 511 0x41 @ [0x5c] @ lit ''xc3'' @ [0x5c] @ lit ''xa9''"
    using parts(3) by (simp add: chunks chunk_text_def print_file_chunk_def is_ascii_graphic_def hex2_def hex_digit_def lit_def)
qed

section \<open>Words\<close>

lemma split_whitespace_word:
  assumes "w \<noteq> []" "list_all (\<lambda>c. \<not> is_whitespace c) w" "is_whitespace s"
  shows "split_whitespace (w @ s # u) = w # split_whitespace u"
  using assms by (simp add: split_whitespace_def split_by_append split_by_no_sep)

lemma split_whitespace_single:
  "w \<noteq> [] \<Longrightarrow> list_all (\<lambda>c. \<not> is_whitespace c) w \<Longrightarrow> split_whitespace w = [w]"
  by (simp add: split_whitespace_def split_by_no_sep)

lemma trim_id: "t \<noteq> [] \<Longrightarrow> \<not> is_whitespace (hd t) \<Longrightarrow> \<not> is_whitespace (last t) \<Longrightarrow> trim t = t"
proof -
  assume "t \<noteq> []" "\<not> is_whitespace (hd t)" "\<not> is_whitespace (last t)"
  moreover from this have "dropWhile is_whitespace (rev t) = rev t"
    by (cases t rule: rev_cases) simp_all
  ultimately show ?thesis
    by (cases t) (simp_all add: trim_def)
qed

lemma trim_right: "list_all is_whitespace ws \<Longrightarrow> t \<noteq> [] \<Longrightarrow> \<not> is_whitespace (hd t) \<Longrightarrow> \<not> is_whitespace (last t) \<Longrightarrow> trim (t @ ws) = t"
proof -
  assume "list_all is_whitespace ws" "t \<noteq> []" "\<not> is_whitespace (hd t)" "\<not> is_whitespace (last t)"
  moreover from this have "dropWhile is_whitespace (rev ws @ rev t) = rev t"
    by (cases t rule: rev_cases) (auto simp: list_all_iff dropWhile_append)
  ultimately show ?thesis
    by (cases t) (simp_all add: trim_def)
qed

section \<open>What \<open>ls\<close> and \<open>cat\<close> print\<close>

definition complaint :: "string \<Rightarrow> fs_error \<Rightarrow> console_op" where
  "complaint command e = println (lit (command @ '': '') @ debug_fs_error e)"

lemma trims_to_nothing: "trim_matches 0x2f path = [] \<longleftrightarrow> path_components path = []"
  by (simp add: trim_matches_empty path_components_empty)

lemma resolve_path_cases:
  assumes "volume_ok fs"
  obtains e where "resolve_path fs path = Ok e" "resolves fs (root_cluster fs) (path_components path) e"
    | err where "resolve_path fs path = Err err" "\<And>e. \<not> resolves fs (root_cluster fs) (path_components path) e"
  using resolve_path_safe [OF assms, of path] resolve_path_resolves [OF assms, of path]
  by (cases "resolve_path fs path") auto

lemma list_dir_none:
  assumes "volume_ok fs" "\<And>c. \<not> dir_at fs path c"
  shows "\<exists>err. list_dir fs path visitor s = Err (s, err)"
proof -
  have components: "path_components path \<noteq> []"
    using assms(2) [of "root_cluster fs"] by (auto simp: dir_at_def)
  show ?thesis
  proof (rule resolve_path_cases [OF assms(1), of path])
    fix e assume e: "resolve_path fs path = Ok e" "resolves fs (root_cluster fs) (path_components path) e"
    then have "\<not> is_directory e"
      using assms(2) [of "first_cluster e"] components by (auto simp: dir_at_def)
    with e components show ?thesis
      by (simp add: list_dir_def trims_to_nothing)
  qed (use components in \<open>simp add: list_dir_def trims_to_nothing\<close>)
qed

lemma list_dir_at:
  assumes "volume_ok fs" "dir_at fs path c"
  shows "list_dir fs path visitor s = visit_directory visitor fs c s"
proof (cases "path_components path = []")
  case False
  then obtain e where "resolve_path fs path = Ok e" "is_directory e" "c = first_cluster e"
    using assms(2) resolve_path_resolves [OF assms(1)] by (auto simp: dir_at_def)
  with False show ?thesis
    by (simp add: list_dir_def trims_to_nothing)
qed (use assms(2) in \<open>simp add: list_dir_def dir_at_def trims_to_nothing\<close>)

definition file_content :: "fat32 \<Rightarrow> dir_entry \<Rightarrow> u8 list" where
  "file_content fs e = (if de_size e = 0 then [] else take (unat (de_size e)) (file_bytes fs (first_cluster e)))"

definition intact :: "fat32 \<Rightarrow> dir_entry \<Rightarrow> bool" where
  "intact fs e \<longleftrightarrow> de_size e = 0 \<or>
     valid_cluster fs (first_cluster e) \<and> unat (de_size e) \<le> length (file_bytes fs (first_cluster e))"

lemma cat_intact:
  assumes "volume_ok fs" "resolves fs (root_cluster fs) (path_components (encode_utf8 path)) e" "\<not> is_directory e" "intact fs e"
  shows "cat_command fs path = Ok (concat (map print_file_chunk (chunks 512 (file_content fs e))) @ [println []])"
proof -
  have "resolve_path fs (encode_utf8 path) = Ok e"
    using resolve_path_resolves [OF assms(1)] assms(2) by blast
  then show ?thesis
    using assms(3,4)
    by (auto simp: cat_command_def read_file_eq [OF assms(1)] read_entry_cat file_content_def intact_def Let_def)
qed

lemma cat_fails:
  assumes "volume_ok fs"
    "\<And>e. resolves fs (root_cluster fs) (path_components (encode_utf8 path)) e \<Longrightarrow> is_directory e \<or> \<not> intact fs e"
  shows "\<exists>ops err. cat_command fs path = Ok (ops @ [complaint ''cat'' err])"
proof -
  have "\<exists>ops err. read_file fs (encode_utf8 path) cat_visitor [] = Err (ops, err)"
  proof (rule resolve_path_cases [OF assms(1), of "encode_utf8 path"])
    fix e assume e: "resolve_path fs (encode_utf8 path) = Ok e" "resolves fs (root_cluster fs) (path_components (encode_utf8 path)) e"
    have "\<exists>ops err. read_entry fs e cat_visitor [] = Err (ops, err)"
      using assms(2) [OF e(2)] by (auto simp: read_entry_cat intact_def Let_def)
    with e(1) show ?thesis
      by (simp add: read_file_eq [OF assms(1)])
  qed (simp add: read_file_eq [OF assms(1)])
  then show ?thesis
    by (auto simp: cat_command_def complaint_def)
qed

section \<open>Sessions\<close>

text \<open>What a session does, over the abstract editor: on Enter the line is executed.\<close>

fun session :: "fat32 \<Rightarrow> (key_event \<times> shell_env) list \<Rightarrow> line_state \<Rightarrow> console_op list \<times> line_state \<times> command_end" where
  "session fs [] s = ([], s, Continue)"
| "session fs ((ev, env) # evs) s =
     (if ev = Enter then
        case execute fs env (line_of s) of
          Ok (ops, Continue) \<Rightarrow>
            (case session fs evs (snd (enter_step s)) of (ops', r) \<Rightarrow> (println [] # ops @ prompt @ ops', r))
        | Ok (ops, stop) \<Rightarrow> (println [] # ops, snd (enter_step s), stop)
        | _ \<Rightarrow> ([], s, Continue)
      else case key_step ev s of (ops, s') \<Rightarrow>
        (case session fs evs s' of (ops', r) \<Rightarrow> (ops @ ops', r)))"

lemma shell_run_sim:
  assumes "volume_ok fs" "edits e s"
  shows "\<exists>e'. shell_run fs evs e = Ok (fst (session fs evs s), e', snd (snd (session fs evs s))) \<and>
    edits e' (fst (snd (session fs evs s)))"
  using assms(2)
proof (induction evs arbitrary: e s)
  case (Cons x evs)
  obtain ev env where x: "x = (ev, env)" by fastforce
  show ?case
  proof (cases "ev = Enter")
    case True
    obtain e' where sub: "submit e = Ok (line_of s, e')" "edits e' (snd (enter_step s))"
      using submit_sim [OF Cons.prems] by metis
    obtain ops ending where exe: "execute fs env (line_of s) = Ok (ops, ending)"
      using execute_total [OF assms(1)] unfolding finishes_def by metis
    show ?thesis
      using Cons.IH [OF sub(2)] sub x True exe
      by (cases ending) (auto simp: shell_event_def split: prod.splits)
  next
    case False
    obtain e' where "edit_event ev e = Ok (fst (key_step ev s), e')" "edits e' (snd (key_step ev s))"
      using edit_event_sim [OF Cons.prems False] by (auto simp: sim_def)
    then show ?thesis
      using Cons.IH x False by (fastforce simp: shell_event_def split: prod.splits)
  qed
qed simp

lemma browsing_bounded: "edits e s \<Longrightarrow> browsing s = Some p \<Longrightarrow> p < length (past s)"
  unfolding edits_def by blast

lemma session_printable:
  assumes "volume_ok fs" "edits e s" "line_printable s" "list_all (\<lambda>(ev, env). \<forall>b. ev = Character b \<longrightarrow> printable b) evs"
  shows "line_printable (fst (snd (session fs evs s)))"
  using assms(2-4)
proof (induction evs arbitrary: e s)
  case (Cons x evs)
  obtain ev env where x: "x = (ev, env)" by fastforce
  show ?case
  proof (cases "ev = Enter")
    case True
    obtain e' where sub: "submit e = Ok (line_of s, e')" "edits e' (snd (enter_step s))"
      using submit_sim [OF Cons.prems(1)] by metis
    then have "line_printable (fst (snd (session fs evs (snd (enter_step s)))))"
      using Cons.IH [OF sub(2)] Cons.prems enter_step_printable by simp
    then show ?thesis
      using x True Cons.prems(2) enter_step_printable
      by (auto split: outcome.splits command_end.splits prod.splits)
  next
    case False
    obtain e' where "edits e' (snd (key_step ev s))"
      using edit_event_sim [OF Cons.prems(1) False] by (auto simp: sim_def)
    moreover have "line_printable (snd (key_step ev s))"
      using Cons.prems x browsing_bounded [OF Cons.prems(1)] by (intro key_step_printable) auto
    ultimately show ?thesis
      using Cons.IH Cons.prems(3) x False by (fastforce split: prod.splits)
  qed
qed simp

lemma printable_ascii: "list_all printable t \<Longrightarrow> from_utf8 t = Some (map unat t)"
  by (rule from_utf8_ascii) (auto simp: list_all_iff printable_def word_le_nat_alt word_less_nat_alt)

lemma execute_word:
  assumes "from_utf8 input = Some w" "w \<noteq> []" "list_all (\<lambda>c. \<not> is_whitespace c) w"
  shows "execute fs env input = run_command fs env w w []"
proof -
  have "trim w = w"
    using assms(2,3) by (intro trim_id) (simp_all add: list_all_iff)
  then show ?thesis
    using assms split_whitespace_single [OF assms(2,3)] by (simp add: execute_def)
qed

section \<open>Echo\<close>

lemma echo_verbatim:
  assumes "list_all scalar t" "ws \<noteq> []" "list_all is_whitespace ws" "t \<noteq> []" "\<not> is_whitespace (hd t)" "\<not> is_whitespace (last t)"
  shows "execute fs env (encode_utf8 (lit ''echo'' @ ws @ t)) = Ok ([println t], Continue)"
proof -
  let ?l = "lit ''echo'' @ ws @ t"
  have echo: "list_all (\<lambda>c. \<not> is_whitespace c) (lit ''echo'')" "lit ''echo'' \<noteq> []" "list_all scalar (lit ''echo'')"
    by (simp_all add: lit_def is_whitespace_def scalar_def)
  have "list_all scalar ws"
    using assms(3) by (auto simp: list_all_iff is_whitespace_def scalar_def)
  then have "from_utf8 (encode_utf8 ?l) = Some ?l"
    using assms(1) echo by (intro from_utf8_encode) simp
  moreover have "trim ?l = ?l"
    using assms echo by (intro trim_id) (simp_all add: lit_def is_whitespace_def)
  moreover obtain s ws' where ws: "ws = s # ws'" "is_whitespace s"
    using assms(2,3) by (cases ws) simp_all
  moreover from this echo have "split_whitespace ?l = lit ''echo'' # split_whitespace (ws' @ t)"
    using split_whitespace_word [OF echo(2,1), of s "ws' @ t"] by simp
  moreover have "dropWhile (\<lambda>c. \<not> is_whitespace c) (lit ''echo'' @ ws @ t) = ws @ t"
    using echo(1) ws by (auto simp: list_all_iff dropWhile_append)
  moreover have "trim_start (ws @ t) = t"
    using assms(3,4,5) by (cases t) (auto simp: trim_start_def list_all_iff dropWhile_append)
  ultimately show ?thesis
    using ws by (simp add: execute_def run_command_def arguments_after_command_def lit_def)
qed

section \<open>Reset\<close>

lemma reboot_pulse_writes:
  "io_spec (reboot_pulse (logged b)) (\<lambda>_ evs. \<exists>polls idle. polled 100000 0x64 (\<lambda>status. status AND 0x02 = 0) idle polls \<and>
     evs = polls @ (if idle then [Out8 0x64 0xfe] else []))"
proof -
  have "io_spec (if idle then out8 (logged b) 0x64 0xfe else ret ()) (\<lambda>_ evs. evs = (if idle then [Out8 0x64 0xfe] else []))" for idle
    by (cases idle) (simp_all, (rule io_prim io_return, simp)+)
  then show ?thesis
    unfolding reboot_pulse_def by (intro io_bind [OF poll8_spec]) (rule io_weaken, blast+)
qed

text \<open>Readings for the examples.\<close>

definition demo_env :: shell_env where
  "demo_env = \<lparr>env_system = \<lparr>usable_frame_total = 0x8000, frames_consumed_at_boot = 515\<rparr>,
     env_heap = \<lparr>b_start = 0x100000, b_end = 0x300000, b_next = 0x100400\<rparr>, env_ticks = (1234, 1234)\<rparr>"

section \<open>Properties\<close>

text \<open>
  C4. A session on a mounted volume never panics. It prints the greeting and then, for any sequence of key
  events, exactly what the abstract editor and the commands prescribe, and each Enter executes the line that
  the abstract editor holds. Afterwards the line buffer, the cursor, the draft and the history ring represent
  the abstract editor's state. The session ends early only when a command stops the machine.
\<close>

theorem shell_session_refines:
  assumes "ram_ok d" "mount (ram_device d) = Ok fs"
  shows "\<exists>e. run fs evs =
      Ok (greeting @ fst (session fs evs line_new), e, snd (snd (session fs evs line_new))) \<and>
    edits e (fst (snd (session fs evs line_new)))"
proof -
  have "volume_ok fs"
    using ram.mount_ok [OF assms] by blast
  from shell_run_sim [OF this edits_new, of evs] show ?thesis
    by (auto simp: run_def)
qed

text \<open>Witness of C4: \<open>hlt\<close>, two steps left, \<open>a\<close> and Enter run the command \<open>halt\<close>.\<close>

theorem shell_session_refines_witness:
  "\<exists>ops e. run demo_fs (map (\<lambda>ev. (ev, demo_env)) [Character 0x68, Character 0x6c, Character 0x74, Left, Left, Character 0x61, Enter]) =
     Ok (ops, e, Halts)"
proof -
  let ?evs = "map (\<lambda>ev. (ev, demo_env)) [Character 0x68, Character 0x6c, Character 0x74, Left, Left, Character 0x61, Enter]"
  have "from_utf8 [0x68, 0x61, 0x6c, 0x74] = Some (lit ''halt'')"
    by (subst from_utf8_ascii) (simp_all add: lit_def)
  then have "execute demo_fs demo_env [0x68, 0x61, 0x6c, 0x74] = run_command demo_fs demo_env (lit ''halt'') (lit ''halt'') []"
    by (rule execute_word) (simp_all add: is_whitespace_def lit_def)
  then have "execute demo_fs demo_env [0x68, 0x61, 0x6c, 0x74] = Ok ([println (lit ''CPU halted.'')], Halts)"
    by (simp add: run_command_def halt_command_def lit_def)
  then have "snd (snd (session demo_fs ?evs line_new)) = Halts"
    by (simp add: key_step_def insert_text_def line_new_def)
  then show ?thesis
    using shell_session_refines [OF demo_disk_ok demo_mount, of ?evs] by auto
qed

text \<open>
  C24. With printable characters typed, whatever other keys are pressed, the line buffer always holds at most 80 printable
  ASCII bytes with the cursor inside them, so the line is valid UTF-8 and its text is its
  bytes.
\<close>

theorem line_stays_printable:
  assumes "ram_ok d" "mount (ram_device d) = Ok fs"
    and "list_all (\<lambda>(ev, env). \<forall>b. ev = Character b \<longrightarrow> printable b) evs"
    and "run fs evs = Ok (ops, e, ending)"
  shows "e_cursor e \<le> e_length e \<and> e_length e \<le> LINE_CAPACITY \<and> list_all printable (take (e_length e) (e_line e)) \<and>
    from_utf8 (take (e_length e) (e_line e)) = Some (map unat (take (e_length e) (e_line e)))"
proof -
  let ?s = "fst (snd (session fs evs line_new))"
  have ok: "volume_ok fs"
    using ram.mount_ok [OF assms(1,2)] by blast
  have sim: "edits e ?s"
    using shell_run_sim [OF ok edits_new, of evs] assms(4) by (auto simp: run_def)
  then obtain R where line: "e_line e = line_of ?s @ R" "e_length e = length (line_of ?s)"
    using edits_array by (metis append_assoc length_append)
  have "list_all printable (line_of ?s)"
    using session_printable [OF ok edits_new line_printable_new assms(3)] by (simp add: line_printable_def)
  moreover have "e_cursor e \<le> e_length e" "e_length e \<le> 80"
    using sim by (simp_all add: edits_def)
  ultimately show ?thesis
    using printable_ascii [of "line_of ?s"] line by (simp add: LINE_CAPACITY_def)
qed

text \<open>Witness of C24: a character, a tab and a recall from the empty history.\<close>

theorem line_stays_printable_witness:
  "\<exists>ops e. run demo_fs [(Character 0x68, demo_env), (Tab, demo_env), (Up, demo_env)] = Ok (ops, e, Continue) \<and>
     list_all printable (take (e_length e) (e_line e))"
proof -
  let ?evs = "[(Character 0x68, demo_env), (Tab, demo_env), (Up, demo_env)]"
  have "snd (snd (session demo_fs ?evs line_new)) = Continue"
    by (simp split: prod.split)
  then obtain ops e where run: "run demo_fs ?evs = Ok (ops, e, Continue)"
    using shell_run_sim [OF demo_volume_ok edits_new, of ?evs] by (auto simp: run_def)
  from line_stays_printable [OF demo_disk_ok demo_mount _ run] show ?thesis
    using run by (auto simp: printable_def)
qed

text \<open>
  C23. Every command ends without a panic, on every input. Input that is not UTF-8 and a command
  with an unknown first word are reported as such. The machine stops exactly when the first word is \<open>reboot\<close> or \<open>halt\<close>.
\<close>

theorem execute_ends:
  assumes "ram_ok d" "mount (ram_device d) = Ok fs"
  shows "\<exists>ops ending. execute fs env input = Ok (ops, ending) \<and>
    (ending \<noteq> Continue \<longleftrightarrow>
      (\<exists>t command args. from_utf8 input = Some t \<and> split_whitespace (trim t) = command # args \<and>
         command \<in> {lit ''reboot'', lit ''halt''})) \<and>
    (from_utf8 input = None \<longrightarrow> ops = [println (lit ''input is not valid UTF-8'')]) \<and>
    (\<forall>t command args. from_utf8 input = Some t \<and> split_whitespace (trim t) = command # args \<and>
       command \<notin> set commands \<longrightarrow>
       ops = [println (lit ''unknown command: '' @ command @ lit ''; type '' @ [0x27] @ lit ''help'' @ [0x27])])"
proof (cases "from_utf8 input")
  case None
  then show ?thesis
    by (simp add: execute_def)
next
  case (Some t)
  have ok: "volume_ok fs"
    using ram.mount_ok [OF assms] by blast
  then obtain ops ending where exe: "execute fs env input = Ok (ops, ending)"
    using execute_total unfolding finishes_def by metis
  show ?thesis
  proof (cases "split_whitespace (trim t)")
    case Nil
    then show ?thesis
      using Some exe run_command_ending [of fs env "trim t" "[]" "[]" ops ending] by (auto simp: execute_def Let_def lit_def split: if_splits)
  next
    case (Cons command args)
    then have "trim t \<noteq> []"
      by (auto simp: split_whitespace_def)
    then have "execute fs env input = run_command fs env (trim t) command args"
      using Some Cons by (simp add: execute_def Let_def)
    then show ?thesis
      using Some Cons exe run_command_ending [of fs env "trim t" command args ops ending]
        run_command_unknown [of command fs env "trim t" args]
      by (intro exI [of _ ops] exI [of _ ending]) auto
  qed
qed

text \<open>Witness of C23: the single byte 0xff on the demonstration disk.\<close>

theorem execute_ends_witness:
  "execute demo_fs demo_env [0xff] = Ok ([println (lit ''input is not valid UTF-8'')], Continue)"
proof -
  have "from_utf8 [0xff] = None"
    by (simp add: decode_char_def)
  then show ?thesis
    using execute_ends [OF demo_disk_ok demo_mount, of demo_env "[0xff]"] by auto
qed

text \<open>
  C22. \<open>ls\<close> of a path that names a directory prints one line for each of its entries, in order, and if the
  directory's chain is damaged, one last line with the error. Of any other path it prints the error only.
\<close>

theorem ls_prints:
  assumes "ram_ok d" "mount (ram_device d) = Ok fs"
  shows "(\<forall>c. dir_at fs (encode_utf8 path) c \<and> valid_cluster fs c \<longrightarrow>
      ls_command fs path = Ok (map (\<lambda>e. println (ls_line e (entry_label e))) (dir_list fs c) @
        (if dir_closed fs c then [] else [complaint ''ls'' (chain_error (walk_end fs c) CorruptFat)]))) \<and>
    (\<not> (\<exists>c. dir_at fs (encode_utf8 path) c \<and> valid_cluster fs c) \<longrightarrow> (\<exists>err. ls_command fs path = Ok [complaint ''ls'' err]))"
proof -
  have ok: "volume_ok fs"
    using ram.mount_ok [OF assms] by blast
  let ?p = "encode_utf8 path"
  have at: "list_dir fs ?p ls_visitor [] = visit_directory ls_visitor fs c []" if "dir_at fs ?p c" for c
    by (rule list_dir_at [OF ok that])
  have "\<exists>err. list_dir fs ?p ls_visitor [] = Err ([], err)" if "\<not> (\<exists>c. dir_at fs ?p c \<and> valid_cluster fs c)"
    using that at list_dir_none [OF ok, of ?p ls_visitor "[]"] visit_ls [OF ok] by metis
  moreover have "ls_command fs path = Ok [complaint ''ls'' err]" if "list_dir fs ?p ls_visitor [] = Err ([], err)" for err
    using that by (simp add: ls_command_def complaint_def)
  ultimately have "\<not> (\<exists>c. dir_at fs ?p c \<and> valid_cluster fs c) \<longrightarrow> (\<exists>err. ls_command fs path = Ok [complaint ''ls'' err])"
    by blast
  moreover have "ls_command fs path = Ok (map (\<lambda>e. println (ls_line e (entry_label e))) (dir_list fs c) @
      (if dir_closed fs c then [] else [complaint ''ls'' (chain_error (walk_end fs c) CorruptFat)]))"
    if "dir_at fs ?p c" "valid_cluster fs c" for c
    using that by (simp add: ls_command_def at [OF that(1)] visit_ls [OF ok] complaint_def Let_def)
  ultimately show ?thesis
    by blast
qed

text \<open>Witness of C22: the root directory of the demonstration disk.\<close>

theorem ls_prints_witness:
  "ls_command demo_fs [0x2f] = Ok [println (lit ''          600 HELLO.TXT''), println (lit ''<DIR>       0 LOOP''), println (lit ''<DIR>       0 DOCS'')]"
proof -
  have "dir_at demo_fs (encode_utf8 [0x2f]) 2" "dir_closed demo_fs 2"
    by (simp_all add: dir_at_def path_components_def dir_closed_def encode_ascii)
  moreover have "decimal 600 = [54, 48, 48]" "decimal 0 = [48]"
    by (simp_all add: decimal.simps)
  moreover have "replicate 4 x = [x, x, x, x]" "replicate 6 x = [x, x, x, x, x, x]" for x :: nat
    by (simp_all add: eval_nat_numeral)
  ultimately show ?thesis
    using ls_prints [OF demo_disk_ok demo_mount, of "[0x2f]", THEN conjunct1, rule_format, of 2]
    by (simp add: ls_line_def pad_left_def lit_def)
qed

text \<open>
  C21. \<open>cat\<close> of an intact file prints its sectors in order and a newline; for a file of ASCII characters, what is printed is
  exactly the file. For a path that names no file, a directory, or a file whose clusters do not hold all of its
  size, the last line is an error.
\<close>

theorem cat_prints:
  assumes "ram_ok d" "mount (ram_device d) = Ok fs"
  shows "(\<forall>e. resolves fs (root_cluster fs) (path_components (encode_utf8 path)) e \<and> \<not> is_directory e \<and> intact fs e \<longrightarrow>
      (\<exists>ops. cat_command fs path = Ok ops \<and>
        ops = concat (map print_file_chunk (chunks 512 (file_content fs e))) @ [println []] \<and>
        (list_all (\<lambda>b. b < 0x80) (file_content fs e) \<longrightarrow> serial_text ops = map unat (file_content fs e) @ [0x0a]))) \<and>
    (\<not> (\<exists>e. resolves fs (root_cluster fs) (path_components (encode_utf8 path)) e \<and> \<not> is_directory e \<and> intact fs e) \<longrightarrow>
      (\<exists>ops err. cat_command fs path = Ok (ops @ [complaint ''cat'' err])))"
proof -
  have ok: "volume_ok fs"
    using ram.mount_ok [OF assms] by blast
  have "serial_text (concat (map print_file_chunk (chunks 512 bytes)) @ [println []]) = map unat bytes @ [0x0a]"
    if "list_all (\<lambda>b. b < 0x80) bytes" for bytes
    using concat_chunk_text [OF that, of 512] by (simp add: serial_text_append serial_text_concat println_def comp_def chunk_text_def [abs_def])
  then show ?thesis
    using cat_intact [OF ok, of path] cat_fails [OF ok, of path] by blast
qed

text \<open>Witness of C21: the 600 bytes of \<open>HELLO.TXT\<close> on the demonstration disk.\<close>

theorem cat_prints_witness:
  "\<exists>ops. cat_command demo_fs (lit ''HELLO.TXT'') = Ok ops \<and> serial_text ops = replicate 512 0x41 @ replicate 88 0x42 @ [0x0a]"
proof -
  let ?p = "[0x48, 0x45, 0x4c, 0x4c, 0x4f, 0x2e, 0x54, 0x58, 0x54] :: u8 list"
  have "encode_utf8 (lit ''HELLO.TXT'') = ?p"
    by (simp add: encode_ascii lit_def)
  moreover have "path_components ?p = [?p]"
    by (simp add: path_components_def)
  moreover have "resolves demo_fs 2 [?p] (raw_entry hello_entry)"
    by (simp add: resolves_simps first_named_iff named_def eq_ignore_ascii_case_def to_ascii_lowercase_def is_dot_component_def)
  moreover have "intact demo_fs (raw_entry hello_entry)"
    "file_content demo_fs (raw_entry hello_entry) = replicate 512 0x41 @ replicate 88 0x42"
    by (simp_all add: intact_def file_content_def)
  moreover have "list_all (\<lambda>b. b < 0x80) (replicate 512 0x41 @ replicate 88 (0x42 :: u8))"
    by (simp add: list_all_iff)
  ultimately show ?thesis
    using cat_prints [OF demo_disk_ok demo_mount, of "lit ''HELLO.TXT''"] by (auto simp: map_replicate)
qed

end
