(* ===== verification/Shell_Display.thy ===== *)
theory Shell_Display
  imports Shell_Correct
begin

text \<open>
  What the user sees while typing. \<open>redraw\<close> prints the line over what is on the screen row, erases the rest with
  blanks, and prints the part before the cursor once more; on a screen wide enough for the prompt and 80
  characters, the row then shows exactly the prompt and the line, and the cursor stands at its place.
\<close>

section \<open>A row of text\<close>

text \<open>Text printed from the left border: each character covers a cell of its own.\<close>

definition overlay :: "font \<Rightarrow> frame_info \<Rightarrow> str \<Rightarrow> nat \<Rightarrow> picture \<Rightarrow> picture" where
  "overlay f i t r p = (\<lambda>x y.
     let k = (x - BORDER) div advance f; d = (x - BORDER) mod advance f in
     if BORDER \<le> x \<and> r \<le> y \<and> y < r + FONT_HEIGHT \<and> visible i x y \<and> k < length t \<and> d < get_raster_width f
     then colour i (mix (glyph f (t ! k) ! (y - r) ! d)) else p x y)"

definition plain :: "nat \<Rightarrow> bool" where
  "plain c \<longleftrightarrow> 0x20 \<le> c \<and> c < 0x7f"

lemma glyph_size:
  assumes "font_ok f"
  shows "length (glyph f c) = FONT_HEIGHT" "n < FONT_HEIGHT \<Longrightarrow> length (glyph f c ! n) = get_raster_width f"
proof -
  obtain r where r: "(case get_raster f c of None \<Rightarrow> get_raster f 0x3f | Some r \<Rightarrow> Some r) = Some r" "get_raster f c = Some r \<or> get_raster f 0x3f = Some r"
    using assms by (cases "get_raster f c") (auto simp: font_ok_def)
  then have rows: "glyph f c = raster_rows r" "length (raster_rows r) = FONT_HEIGHT" "\<forall>line \<in> set (raster_rows r). length line = get_raster_width f"
    using assms by (auto simp: font_ok_def glyph_def)
  then show "length (glyph f c) = FONT_HEIGHT" "n < FONT_HEIGHT \<Longrightarrow> length (glyph f c ! n) = get_raster_width f"
    by auto
qed

lemma cell_iff:
  assumes "BORDER \<le> x"
  shows "(x - BORDER) div advance f = k \<and> (x - BORDER) mod advance f < get_raster_width f \<longleftrightarrow>
    BORDER + k * advance f \<le> x \<and> x < BORDER + k * advance f + get_raster_width f"
    "BORDER + k * advance f \<le> x \<Longrightarrow> x < BORDER + k * advance f + get_raster_width f \<Longrightarrow>
     (x - BORDER) mod advance f = x - (BORDER + k * advance f)"
proof -
  let ?a = "advance f" and ?z = "x - BORDER"
  have a: "0 < ?a" "get_raster_width f < ?a"
    by (simp_all add: advance_def LETTER_SPACING_def)
  have in_cell: "?z div ?a = k \<and> ?z mod ?a = x - (BORDER + k * ?a)" if "BORDER + k * ?a \<le> x" "x < BORDER + k * ?a + get_raster_width f"
  proof -
    have "?z = k * ?a + (x - (BORDER + k * ?a))" "x - (BORDER + k * ?a) < ?a"
      using that a by linarith+
    then show ?thesis
      by (metis add.commute div_mult_self3 div_less a(1) add_0 less_not_refl2 mod_less mod_mult_self3)
  qed
  define q m where "q = ?z div ?a" and "m = ?z mod ?a"
  have "x = BORDER + (q * ?a + m)"
    using assms unfolding q_def m_def by simp
  then have out: "BORDER + k * ?a \<le> x \<and> x < BORDER + k * ?a + get_raster_width f" if "q = k" "m < get_raster_width f"
    using that by simp
  have inside: "?z mod ?a < get_raster_width f" if "BORDER + k * ?a \<le> x" "x < BORDER + k * ?a + get_raster_width f"
    using in_cell [OF that] that by linarith
  show "?z div ?a = k \<and> ?z mod ?a < get_raster_width f \<longleftrightarrow> BORDER + k * ?a \<le> x \<and> x < BORDER + k * ?a + get_raster_width f"
    using out [unfolded q_def m_def] in_cell inside by blast
  show "BORDER + k * ?a \<le> x \<Longrightarrow> x < BORDER + k * ?a + get_raster_width f \<Longrightarrow> ?z mod ?a = x - (BORDER + k * ?a)"
    using in_cell by blast
qed

lemma overlay_snoc:
  assumes "font_ok f"
  shows "overlay f i (t @ [c]) r p = paint_glyph i (glyph f c) (BORDER + length t * advance f) r (overlay f i t r p)"
proof (intro ext)
  fix x y
  let ?k = "(x - BORDER) div advance f" and ?d = "(x - BORDER) mod advance f"
  let ?in = "BORDER + length t * advance f \<le> x \<and> x < BORDER + length t * advance f + get_raster_width f"
  have cell: "?in \<longleftrightarrow> BORDER \<le> x \<and> ?k = length t \<and> ?d < get_raster_width f" "?in \<Longrightarrow> ?d = x - (BORDER + length t * advance f)"
    using cell_iff [where x = x and f = f and k = "length t"] by auto
  have rows: "length (glyph f c) = FONT_HEIGHT" "r \<le> y \<Longrightarrow> y < r + FONT_HEIGHT \<Longrightarrow> length (glyph f c ! (y - r)) = get_raster_width f"
    using glyph_size [OF assms] by auto
  show "overlay f i (t @ [c]) r p x y = paint_glyph i (glyph f c) (BORDER + length t * advance f) r (overlay f i t r p) x y"
    using cell rows by (auto simp: overlay_def paint_glyph_def Let_def nth_append less_Suc_eq)
qed

lemma overlay_Nil [simp]: "overlay f i [] r p = p"
  by (simp add: overlay_def fun_eq_iff Let_def)

lemma spec_print_append: "spec_print f i (t @ u) s = spec_print f i u (spec_print f i t s)"
  by (simp add: spec_print_def)

lemma spec_print_row:
  assumes "font_ok f" "list_all plain t" "s_column s = BORDER" "BORDER + length t * advance f + BORDER \<le> fi_width i"
  shows "spec_print f i t s = s\<lparr>content := overlay f i t (s_row s) (content s), s_column := BORDER + length t * advance f\<rparr>"
  using assms(2,4)
proof (induction t rule: rev_induct)
  case Nil
  then show ?case
    using assms(3) by (simp add: spec_print_def)
next
  case (snoc c t)
  have c: "c \<noteq> 0x0d" "c \<noteq> 0x08" "c \<noteq> 0x09" "c < 0x80" "c \<noteq> 0x0a"
    using snoc.prems(1) by (simp_all add: plain_def)
  have fits: "BORDER + length t * advance f + advance f + BORDER \<le> fi_width i"
    using snoc.prems(2) by simp
  have "spec_print f i t s = s\<lparr>content := overlay f i t (s_row s) (content s), s_column := BORDER + length t * advance f\<rparr>"
    using snoc by simp
  then have "spec_print f i (t @ [c]) s = spec_glyph f i c (s\<lparr>content := overlay f i t (s_row s) (content s), s_column := BORDER + length t * advance f\<rparr>)"
    using c by (simp add: spec_print_append) (simp add: spec_print_def spec_char_def)
  then show ?case
    using c(5) fits by (simp add: spec_glyph_def Let_def overlay_snoc [OF assms(1)] add.commute add.left_commute)
qed

text \<open>Printing over: a longer text hides a shorter one, and blanks hide what is not covered otherwise.\<close>

definition blank_space :: "font \<Rightarrow> bool" where
  "blank_space f \<longleftrightarrow> (\<forall>line \<in> set (glyph f 0x20). \<forall>v \<in> set line. v = 0)"

definition blank_row :: "frame_info \<Rightarrow> nat \<Rightarrow> picture \<Rightarrow> bool" where
  "blank_row i r p \<longleftrightarrow> (\<forall>x y. r \<le> y \<and> y < r + FONT_HEIGHT \<and> visible i x y \<longrightarrow> p x y = colour i BACKGROUND)"

lemma overlay_prefix: "overlay f i t r (overlay f i (t @ u) r p) = overlay f i (t @ u) r p"
  by (auto simp: overlay_def fun_eq_iff Let_def nth_append)

lemma overlay_erases:
  assumes "font_ok f" "blank_space f" "blank_row i r p" "length old \<le> length t + n"
  shows "overlay f i (t @ replicate n 0x20) r (overlay f i old r p) = overlay f i t r p"
proof (intro ext)
  fix x y
  let ?k = "(x - BORDER) div advance f" and ?d = "(x - BORDER) mod advance f"
  have space: "colour i (mix (glyph f 0x20 ! (y - r) ! ?d)) = colour i BACKGROUND"
    if "r \<le> y" "y < r + FONT_HEIGHT" "?d < get_raster_width f"
  proof -
    have "y - r < FONT_HEIGHT"
      using that by linarith
    then have "glyph f 0x20 ! (y - r) ! ?d = 0"
      using assms(2) that glyph_size [OF assms(1), where c = "0x20"] by (metis blank_space_def nth_mem)
    then show ?thesis
      by (simp add: mix_def mix_channel_ends BACKGROUND_def)
  qed
  show "overlay f i (t @ replicate n 0x20) r (overlay f i old r p) x y = overlay f i t r p x y"
    using space assms(3,4) by (auto simp: overlay_def Let_def nth_append blank_row_def)
qed

section \<open>Redrawing\<close>

definition text_of :: "console_op list \<Rightarrow> str" where
  "text_of ops = concat (map (\<lambda>op. case op of Print t \<Rightarrow> t | _ \<Rightarrow> []) ops)"

lemma fold_prints:
  "ClearScreen \<notin> set ops \<Longrightarrow> fold (spec_op f i) ops s = spec_print f i (text_of ops) s"
proof (induction ops arbitrary: s)
  case (Cons op ops)
  then show ?case
    by (cases op) (simp_all add: text_of_def spec_print_append)
qed (simp add: text_of_def spec_print_def)

lemma text_of_redraw:
  "text_of (redraw_ops d bs as) =
     0x0d # (prompt_text @ map unat (bs @ as) @ replicate (d - length (bs @ as)) 0x20) @ 0x0d # (prompt_text @ map unat bs)"
proof -
  have single: "concat (map (\<lambda>b. case Print [g b] of Print t \<Rightarrow> t | _ \<Rightarrow> []) xs) = map g xs" for g :: "u8 \<Rightarrow> nat" and xs
    by (induction xs) simp_all
  show ?thesis
    using single [of unat] by (simp add: text_of_def redraw_ops_def print_ascii_def comp_def concat_replicate_single)
qed

text \<open>The row of a screen that shows a line being edited.\<close>

definition shows_line :: "font \<Rightarrow> frame_info \<Rightarrow> screen \<Rightarrow> u8 list \<Rightarrow> nat \<Rightarrow> screen" where
  "shows_line f i s line cursor = s\<lparr>
     content := overlay f i (prompt_text @ map unat line) (s_row s) (content s), s_column := BORDER + (5 + cursor) * advance f\<rparr>"

definition wide_enough :: "font \<Rightarrow> frame_info \<Rightarrow> bool" where
  "wide_enough f i \<longleftrightarrow> BORDER + 85 * advance f + BORDER \<le> fi_width i"

lemma prompt_plain: "list_all plain prompt_text" "length prompt_text = 5"
  by (simp_all add: prompt_text_def lit_def plain_def)

lemma printable_plain: "list_all printable line \<Longrightarrow> list_all plain (map unat line)"
  by (auto simp: list_all_iff printable_def plain_def word_le_nat_alt)

lemma spec_print_return: "spec_print f i (0x0d # t) s = spec_print f i t (s\<lparr>s_column := BORDER\<rparr>)"
  by (simp add: spec_print_def spec_char_def)

lemma fits_row:
  assumes "wide_enough f i" "n \<le> 85"
  shows "BORDER + n * advance f + BORDER \<le> fi_width i"
proof -
  have "n * advance f \<le> 85 * advance f"
    using assms(2) by (rule mult_le_mono1)
  then show ?thesis
    using assms(1) unfolding wide_enough_def by linarith
qed

lemma redraw_shows:
  assumes f: "font_ok f" "blank_space f" "wide_enough f i" and s: "blank_row i (s_row s) (content s)"
    and line: "list_all printable (bs @ as)" "length (bs @ as) \<le> 80" and old: "length old \<le> 80"
  shows "fold (spec_op f i) (redraw_ops (length old) bs as) (shows_line f i s old c) = shows_line f i s (bs @ as) (length bs)"
proof -
  let ?n = "length old - length (bs @ as)" and ?r = "s_row s"
  let ?t = "prompt_text @ map unat (bs @ as)" and ?b = "prompt_text @ map unat bs" and ?old = "prompt_text @ map unat old"
  let ?s0 = "(shows_line f i s old c)\<lparr>s_column := BORDER\<rparr>"
  have plain: "list_all plain (?t @ replicate ?n 0x20)" "list_all plain ?b"
    using prompt_plain printable_plain [OF line(1)] by (auto simp: list_all_iff plain_def)
  have lengths: "length (?t @ replicate ?n 0x20) \<le> 85" "length ?b \<le> 85" "length ?old \<le> length ?t + ?n"
    using line(2) old prompt_plain(2) by auto
  have erased: "overlay f i (?t @ replicate ?n 0x20) ?r (overlay f i ?old ?r (content s)) = overlay f i ?t ?r (content s)"
    by (rule overlay_erases [OF f(1,2) s lengths(3)])
  have again: "overlay f i ?b ?r (overlay f i ?t ?r (content s)) = overlay f i ?t ?r (content s)"
    using overlay_prefix [where t = ?b and u = "map unat as"] by simp
  have "ClearScreen \<notin> set (redraw_ops (length old) bs as)"
    by (auto simp: redraw_ops_def print_ascii_def)
  then have "fold (spec_op f i) (redraw_ops (length old) bs as) (shows_line f i s old c) =
      spec_print f i ?b ((spec_print f i (?t @ replicate ?n 0x20) ?s0)\<lparr>s_column := BORDER\<rparr>)"
    by (simp add: fold_prints text_of_redraw spec_print_return spec_print_append del: append_assoc)
  also have "spec_print f i (?t @ replicate ?n 0x20) ?s0 = ?s0\<lparr>content := overlay f i ?t ?r (content s),
      s_column := BORDER + length (?t @ replicate ?n 0x20) * advance f\<rparr>"
    using spec_print_row [OF f(1) plain(1), of ?s0 i] fits_row [OF f(3) lengths(1)] erased by (simp add: shows_line_def)
  also have "spec_print f i ?b (?s0\<lparr>content := overlay f i ?t ?r (content s),
      s_column := BORDER + length (?t @ replicate ?n 0x20) * advance f, s_column := BORDER\<rparr>) = shows_line f i s (bs @ as) (length bs)"
    using spec_print_row [OF f(1) plain(2)] fits_row [OF f(3) lengths(2)] again prompt_plain(2) by (simp add: shows_line_def)
  finally show ?thesis
    by simp
qed

section \<open>Typing\<close>

fun edit_events :: "key_event list \<Rightarrow> editor \<Rightarrow> (console_op list \<times> editor) may_panic" where
  "edit_events [] e = Ok ([], e)"
| "edit_events (ev # evs) e =
     obind (edit_event ev e) (\<lambda>(ops, e'). obind (edit_events evs e') (\<lambda>(ops', e''). Ok (ops @ ops', e'')))"

lemma key_effect_shown: "key_effect ev l = Some l' \<Longrightarrow> shown l' = shown l"
  by (cases ev) (auto simp: insert_text_def browse_def split: if_splits option.splits nat.splits)

lemma edits_short:
  assumes "edits e l"
  shows "length (line_of l) \<le> 80"
proof -
  have "e_length e \<le> 80"
    using assms unfolding edits_def by blast
  moreover have "length (take (e_length e) (e_line e)) \<le> e_length e"
    by simp
  ultimately show ?thesis
    unfolding edits_line [OF assms] by (rule order_trans [rotated])
qed

lemma key_step_shows:
  assumes f: "font_ok f" "blank_space f" "wide_enough f i" and s: "blank_row i (s_row s) (content s)"
    and l: "edits e l" "line_printable l" "shown l = length (line_of l)" and ev: "ev \<noteq> Enter" "\<forall>b. ev = Character b \<longrightarrow> printable b"
  shows "fold (spec_op f i) (fst (key_step ev l)) (shows_line f i s (line_of l) (length (before l))) =
      shows_line f i s (line_of (snd (key_step ev l))) (length (before (snd (key_step ev l))))"
    "shown (snd (key_step ev l)) = length (line_of (snd (key_step ev l)))"
proof -
  obtain e' where e': "edits e' (snd (key_step ev l))"
    using edit_event_sim [OF l(1) ev(1)] by (auto simp: sim_def)
  have ok: "line_printable (snd (key_step ev l))"
    using key_step_printable [OF l(2) ev(2)] browsing_bounded [OF l(1)] by blast
  show "shown (snd (key_step ev l)) = length (line_of (snd (key_step ev l)))"
    using l(3) by (simp add: key_step_def split: option.split)
  show "fold (spec_op f i) (fst (key_step ev l)) (shows_line f i s (line_of l) (length (before l))) =
      shows_line f i s (line_of (snd (key_step ev l))) (length (before (snd (key_step ev l))))"
  proof (cases "key_effect ev l")
    case None
    then show ?thesis by (simp add: key_step_def)
  next
    case (Some l')
    then have step: "key_step ev l = (redraw_ops (length (line_of l)) (before l') (after l'), l'\<lparr>shown := length (line_of l')\<rparr>)"
      using key_effect_shown [OF Some] l(3) by (simp add: key_step_def)
    have "list_all printable (before l' @ after l')" "length (before l' @ after l') \<le> 80"
      using ok edits_short [OF e'] step by (simp_all add: line_printable_def)
    then show ?thesis
      using redraw_shows [OF f s _ _ edits_short [OF l(1)], of "before l'" "after l'"] step by simp
  qed
qed

lemma edit_events_show:
  assumes f: "font_ok f" "blank_space f" "wide_enough f i" and s: "blank_row i (s_row s) (content s)"
    and l: "edits e l" "line_printable l" "shown l = length (line_of l)"
    and evs: "list_all (\<lambda>ev. ev \<noteq> Enter \<and> (\<forall>b. ev = Character b \<longrightarrow> printable b)) evs"
  shows "\<exists>ops e' l'. edit_events evs e = Ok (ops, e') \<and> edits e' l' \<and> line_printable l' \<and>
    fold (spec_op f i) ops (shows_line f i s (line_of l) (length (before l))) = shows_line f i s (line_of l') (length (before l'))"
  using l evs
proof (induction evs arbitrary: e l)
  case (Cons ev evs)
  have ev: "ev \<noteq> Enter" "\<forall>b. ev = Character b \<longrightarrow> printable b"
    using Cons.prems(4) by simp_all
  let ?l = "snd (key_step ev l)"
  obtain e1 where e1: "edit_event ev e = Ok (fst (key_step ev l), e1)" "edits e1 ?l"
    using edit_event_sim [OF Cons.prems(1) ev(1)] by (auto simp: sim_def)
  note shows_step = key_step_shows [OF f s Cons.prems(1-3) ev]
  have "line_printable ?l"
    using key_step_printable [OF Cons.prems(2) ev(2)] browsing_bounded [OF Cons.prems(1)] by blast
  then obtain ops e' l' where "edit_events evs e1 = Ok (ops, e')" "edits e' l'" "line_printable l'"
    "fold (spec_op f i) ops (shows_line f i s (line_of ?l) (length (before ?l))) = shows_line f i s (line_of l') (length (before l'))"
    using Cons.IH [OF e1(2) _ shows_step(2)] Cons.prems(4) by auto
  then show ?case
    using e1(1) shows_step(1) by (intro exI [of _ "fst (key_step ev l) @ ops"] exI [of _ e'] exI [of _ l']) simp
qed auto

lemma prompt_shows:
  assumes "font_ok f" "wide_enough f i" "s_column s = BORDER"
  shows "fold (spec_op f i) prompt s = shows_line f i s [] 0"
proof -
  have "fold (spec_op f i) prompt s = spec_print f i prompt_text s"
    by (simp add: prompt_def)
  then show ?thesis
    using spec_print_row [OF assms(1) prompt_plain(1) assms(3)] fits_row [OF assms(2), of 5] prompt_plain(2)
    by (simp add: shows_line_def)
qed

text \<open>A screen for the example: the demonstration font with a blank, 450 pixels wide.\<close>

definition demo_font_2 :: font where
  "demo_font_2 = \<lparr>get_raster = (\<lambda>c. if c = 0x20 then Some \<lparr>raster_width = 4, raster_rows = replicate 16 [0, 0, 0, 0]\<rparr> else get_raster demo_font c),
     get_raster_width = 4\<rparr>"

definition demo_frame :: frame_info where
  "demo_frame = \<lparr>fi_width = 450, fi_height = 100, fi_stride = 450, bytes_per_pixel = 4, pixel_format = Rgb\<rparr>"

lemma demo_display: "font_ok demo_font_2" "blank_space demo_font_2" "wide_enough demo_font_2 demo_frame"
  by (auto simp: font_ok_def demo_font_2_def demo_font_def FONT_HEIGHT_def blank_space_def glyph_def wide_enough_def advance_def
      LETTER_SPACING_def BORDER_def demo_frame_def set_replicate_conv_if)

section \<open>Properties\<close>

text \<open>
  C20. On a screen wide enough for the prompt and 80 characters, whatever is typed at a fresh prompt, and whatever is
  recalled from the history, after every key the content of the screen is what printing the prompt and the
  edited line once on the empty row gives: no remainder of an earlier, longer line stays visible, and nothing outside
  the row is touched. The cursor stands directly after the characters before the editing position.
\<close>

theorem line_is_displayed:
  assumes "font_ok f" "blank_space f" "wide_enough f i"
    and "s_column s = BORDER" "blank_row i (s_row s) (content s)"
    and "edits e l" "line_of l = []" "shown l = 0" "line_printable l"
    and "list_all (\<lambda>ev. ev \<noteq> Enter \<and> (\<forall>b. ev = Character b \<longrightarrow> printable b)) evs"
  shows "\<exists>ops e'. edit_events evs e = Ok (ops, e') \<and>
    fold (spec_op f i) (prompt @ ops) s =
      (spec_print f i (prompt_text @ map unat (take (e_length e') (e_line e'))) s)
        \<lparr>s_column := BORDER + (length prompt_text + e_cursor e') * advance f\<rparr>"
proof -
  obtain ops e' l' where run: "edit_events evs e = Ok (ops, e')" "edits e' l'" "line_printable l'"
    and seen: "fold (spec_op f i) ops (shows_line f i s (line_of l) (length (before l))) = shows_line f i s (line_of l') (length (before l'))"
    using edit_events_show [OF assms(1-3,5,6,9) _ assms(10)] assms(7,8) by auto
  let ?t = "prompt_text @ map unat (line_of l')"
  have "list_all printable (line_of l')"
    using run(3) by (simp add: line_printable_def)
  then have "list_all plain ?t" "length ?t \<le> 85"
    using printable_plain prompt_plain edits_short [OF run(2)] by simp_all
  then have "spec_print f i ?t s = s\<lparr>content := overlay f i ?t (s_row s) (content s), s_column := BORDER + length ?t * advance f\<rparr>"
    using spec_print_row [OF assms(1) _ assms(4)] fits_row [OF assms(3)] by blast
  moreover have "e_cursor e' = length (before l')"
    by (rule edits_array [OF run(2)])
  moreover note edits_line [OF run(2)]
  moreover have "fold (spec_op f i) (prompt @ ops) s = shows_line f i s (line_of l') (length (before l'))"
    using seen prompt_shows [OF assms(1,3,4)] assms(7) by simp
  ultimately show ?thesis
    using run(1) by (intro exI [of _ ops] exI [of _ e']) (simp add: shows_line_def prompt_plain)
qed

text \<open>Witness of C20: an empty screen, and a key typed, the cursor moved back and the key deleted.\<close>

theorem line_is_displayed_witness:
  "\<exists>ops e'. edit_events [Character 0x41, Left, Delete] editor_new = Ok (ops, e') \<and>
    fold (spec_op demo_font_2 demo_frame) (prompt @ ops) (spec_clear demo_frame) =
      (spec_print demo_font_2 demo_frame (prompt_text @ map unat (take (e_length e') (e_line e'))) (spec_clear demo_frame))
        \<lparr>s_column := BORDER + (length prompt_text + e_cursor e') * advance demo_font_2\<rparr>"
  by (rule line_is_displayed [OF demo_display _ _ edits_new _ _ line_printable_new])
    (simp_all add: spec_clear_def blank_row_def line_new_def printable_def)

end
