(* ===== verification/Disk_Image.thy ===== *)
theory Disk_Image
  imports Text
begin

text \<open>
  The disk image the build makes (\<open>build.rs\<close>, and \<open>vendor/bootloader/src/gpt.rs\<close> for the boot image it starts
  from): a GPT disk with the partitions \<open>sol-boot\<close> and \<open>sol-data\<close>. The crate \<open>gpt\<close> is a parameter; what its
  documentation says of the calls is the predicate \<open>gpt_documented\<close>.
\<close>

section \<open>Files\<close>

type_synonym path = str
type_synonym files = "path \<rightharpoonup> u8 list"

datatype io_error = InvalidData str | NotFound str | UnexpectedEof | NoSpace | OtherError str

text \<open>
  The calls of \<open>std::fs\<close> and \<open>std::io\<close> the builder makes. A file that is opened for reading, or for writing
  without \<open>create\<close>, must exist; \<open>create\<close> with \<open>truncate\<close> makes it empty; writing at an offset grows the file.
\<close>

definition open_file :: "path \<Rightarrow> files \<Rightarrow> (io_error, u8 list) outcome" where
  "open_file p fs = ok_or (fs p) (NotFound p)"

definition open_truncated :: "path \<Rightarrow> files \<Rightarrow> files" where
  "open_truncated p fs = fs(p \<mapsto> [])"

definition set_len :: "nat \<Rightarrow> u8 list \<Rightarrow> u8 list" where
  "set_len n xs = take n xs @ replicate (n - length xs) 0"

definition read_exact_at :: "u8 list \<Rightarrow> nat \<Rightarrow> nat \<Rightarrow> (io_error, u8 list) outcome" where
  "read_exact_at xs start n = (if start + n \<le> length xs then Ok (take n (drop start xs)) else Err UnexpectedEof)"

definition write_all_at :: "u8 list \<Rightarrow> nat \<Rightarrow> u8 list \<Rightarrow> u8 list" where
  "write_all_at xs start bs = take start xs @ replicate (start - length xs) 0 @ bs @ drop (start + length bs) xs"

text \<open>\<open>Path::join\<close> with a relative name: a separator is put between, unless there is one or the path is empty.\<close>

definition join :: "path \<Rightarrow> string \<Rightarrow> path" where
  "join p name = (if p = [] \<or> last p = 0x2f then p @ lit name else p @ lit ''/'' @ lit name)"

section \<open>Partition tables\<close>

type_synonym guid = "128 word"

record partition =
  part_type_guid :: guid
  part_name :: str
  first_lba :: nat
  last_lba :: nat

text \<open>An open GPT disk: the device and its partitions, a \<open>BTreeMap\<close> and so in the order of their ids.\<close>

record gpt_disk =
  gd_device :: "u8 list"
  gd_partitions :: "(nat \<times> partition) list"

record gpt_crate =
  type_EFI :: guid
  type_BASIC :: guid
  overwrite_lba0 :: "nat \<Rightarrow> u8 list \<Rightarrow> (io_error, u8 list) outcome"
  create_from_device :: "u8 list \<Rightarrow> (io_error, gpt_disk) outcome"
  open_table :: "u8 list \<Rightarrow> (io_error, gpt_disk) outcome"
  update_partitions :: "(nat \<times> partition) list \<Rightarrow> gpt_disk \<Rightarrow> (io_error, gpt_disk) outcome"
  add_partition :: "str \<Rightarrow> nat \<Rightarrow> guid \<Rightarrow> nat \<Rightarrow> nat option \<Rightarrow> gpt_disk \<Rightarrow> (io_error, nat \<times> gpt_disk) outcome"
  write_table :: "gpt_disk \<Rightarrow> (io_error, u8 list) outcome"
  bytes_start :: "partition \<Rightarrow> (io_error, nat) outcome"
  bytes_len :: "partition \<Rightarrow> (io_error, nat) outcome"

section \<open>The builder\<close>

definition MIB :: nat where
  "MIB = 1024 * 1024"

definition IMAGE_SECTOR_SIZE :: nat where
  "IMAGE_SECTOR_SIZE = 512"

definition PARTITION_ALIGNMENT_LBAS :: nat where
  "PARTITION_ALIGNMENT_LBAS = MIB div IMAGE_SECTOR_SIZE"

definition DATA_PARTITION_BYTES :: nat where
  "DATA_PARTITION_BYTES = 64 * MIB"

definition div_ceil :: "nat \<Rightarrow> nat \<Rightarrow> (io_error, nat) outcome" where
  "div_ceil a b = (if b = 0 then Panic else Ok (if 0 < a mod b then a div b + 1 else a div b))"

definition align_up :: "nat \<Rightarrow> nat \<Rightarrow> (io_error, nat) outcome" where
  "align_up value alignment = obind (div_ceil value alignment) (\<lambda>n. umul n alignment)"

text \<open>\<open>u32::try_from(n).unwrap_or(u32::MAX)\<close>\<close>

definition clamp_u32 :: "nat \<Rightarrow> nat" where
  "clamp_u32 n = (if n < 2 ^ 32 then n else 2 ^ 32 - 1)"

definition extract_efi_partition :: "gpt_crate \<Rightarrow> path \<Rightarrow> files \<Rightarrow> (io_error, u8 list \<times> nat) outcome" where
  "extract_efi_partition g disk_image fs =
     obind (open_file disk_image fs) (\<lambda>source.
     obind (open_table g source) (\<lambda>table.
     obind (ok_or (find (\<lambda>p. part_type_guid p = type_EFI g) (map snd (gd_partitions table)))
       (InvalidData (lit ''EFI partition is missing''))) (\<lambda>partition.
     obind (bytes_start g partition) (\<lambda>start.
     obind (bytes_len g partition) (\<lambda>len.
     obind (read_exact_at source start len) (\<lambda>bytes.
     Ok (bytes, len)))))))"

definition copy_data_partition :: "gpt_crate \<Rightarrow> path \<Rightarrow> path \<Rightarrow> partition \<Rightarrow> files \<Rightarrow> (io_error, files) outcome" where
  "copy_data_partition g data_volume disk_image part fs =
     obind (bytes_start g part) (\<lambda>start.
     obind (bytes_len g part) (\<lambda>len.
     obind (open_file data_volume fs) (\<lambda>source.
     if length source \<noteq> len then Err (InvalidData (lit ''data volume size does not match the GPT data partition''))
     else
       obind (open_file disk_image fs) (\<lambda>output.
       Ok (fs(disk_image \<mapsto> write_all_at output start source))))))"

definition image_size :: "nat \<Rightarrow> (io_error, nat) outcome" where
  "image_size boot_partition_size =
     obind (align_up boot_partition_size MIB) (\<lambda>boot.
     obind (uadd MIB boot) (\<lambda>n.
     obind (uadd n MIB) (\<lambda>n.
     obind (uadd n DATA_PARTITION_BYTES) (\<lambda>n.
     uadd n MIB))))"

definition assemble_two_partition_image :: "gpt_crate \<Rightarrow> path \<Rightarrow> path \<Rightarrow> path \<Rightarrow> files \<Rightarrow> (io_error, files) outcome" where
  "assemble_two_partition_image g base_image output_image data_volume fs =
     obind (extract_efi_partition g base_image fs) (\<lambda>(boot_partition_bytes, boot_partition_size).
     obind (image_size boot_partition_size) (\<lambda>disk_size.
     let fs = open_truncated output_image fs; disk = set_len disk_size [] in
     obind (usub (disk_size div IMAGE_SECTOR_SIZE) 1) (\<lambda>last.
     obind (overwrite_lba0 g (clamp_u32 last) disk) (\<lambda>disk.
     obind (create_from_device g disk) (\<lambda>table.
     obind (update_partitions g [] table) (\<lambda>table.
     obind (add_partition g (lit ''sol-boot'') boot_partition_size (type_EFI g) 0 (Some PARTITION_ALIGNMENT_LBAS) table) (\<lambda>(boot_id, table).
     obind (add_partition g (lit ''sol-data'') DATA_PARTITION_BYTES (type_BASIC g) 0 (Some PARTITION_ALIGNMENT_LBAS) table) (\<lambda>(data_id, table).
     obind (or_panic (map_of (gd_partitions table) boot_id)) (\<lambda>boot_partition.
     obind (or_panic (map_of (gd_partitions table) data_id)) (\<lambda>data_partition.
     obind (write_table g table) (\<lambda>output.
     obind (bytes_start g boot_partition) (\<lambda>start.
     copy_data_partition g data_volume output_image data_partition
       (fs(output_image \<mapsto> write_all_at output start boot_partition_bytes))))))))))))))"

text \<open>The boot image the loader's crate makes from the FAT image that holds the loader and the kernel.\<close>

definition create_gpt_disk :: "gpt_crate \<Rightarrow> path \<Rightarrow> path \<Rightarrow> files \<Rightarrow> (io_error, files) outcome" where
  "create_gpt_disk g fat_image out_gpt_path fs =
     (let fs = open_truncated out_gpt_path fs in
     obind (open_file fat_image fs) (\<lambda>source.
     let partition_size = length source in
     obind (uadd partition_size (1024 * 64)) (\<lambda>disk_size.
     let disk = set_len disk_size [] in
     obind (usub (disk_size div 512) 1) (\<lambda>last.
     obind (overwrite_lba0 g (clamp_u32 last) disk) (\<lambda>disk.
     obind (create_from_device g disk) (\<lambda>table.
     obind (update_partitions g [] table) (\<lambda>table.
     obind (add_partition g (lit ''boot'') partition_size (type_EFI g) 0 None table) (\<lambda>(partition_id, table).
     obind (ok_or (map_of (gd_partitions table) partition_id) (OtherError (lit ''failed to open boot partition after creation''))) (\<lambda>partition.
     obind (bytes_start g partition) (\<lambda>start_offset.
     obind (write_table g table) (\<lambda>disk.
     obind (open_file fat_image (fs(out_gpt_path \<mapsto> disk))) (\<lambda>source.
     Ok (fs(out_gpt_path \<mapsto> write_all_at disk start_offset source))))))))))))))"

section \<open>What the crate documents\<close>

text \<open>
  A GPT disk of 512-byte blocks keeps its two tables in the first 34 and the last 33 blocks, and up to 128
  partitions between them that do not overlap. Names have at most 36 UTF-16 units.
\<close>

definition apart :: "partition \<Rightarrow> partition \<Rightarrow> bool" where
  "apart p q \<longleftrightarrow> last_lba p < first_lba q \<or> last_lba q < first_lba p"

definition fits_table :: "nat \<Rightarrow> nat \<times> partition \<Rightarrow> bool" where
  "fits_table blocks e \<longleftrightarrow> (let (id, p) = e in
     id < 2 ^ 32 \<and> 34 \<le> first_lba p \<and> first_lba p \<le> last_lba p \<and> last_lba p + 34 \<le> blocks \<and>
     length (part_name p) \<le> 36 \<and> list_all (\<lambda>c. 0 < c \<and> c < 2 ^ 16) (part_name p))"

definition table_ok :: "gpt_disk \<Rightarrow> bool" where
  "table_ok t \<longleftrightarrow> (let blocks = length (gd_device t) div 512; ps = gd_partitions t in
     length (gd_device t) = 512 * blocks \<and> 68 \<le> blocks \<and> blocks < 2 ^ 55 \<and>
     length ps \<le> 128 \<and> distinct (map fst ps) \<and> list_all (fits_table blocks) ps \<and>
     (\<forall>e \<in> set ps. \<forall>e' \<in> set ps. fst e \<noteq> fst e' \<longrightarrow> apart (snd e) (snd e')))"

text \<open>Blocks that no partition uses, from a given block, and an allowed start.\<close>

definition free_at :: "gpt_disk \<Rightarrow> nat \<Rightarrow> nat \<Rightarrow> bool" where
  "free_at t n lba \<longleftrightarrow> 34 \<le> lba \<and> lba + n + 33 \<le> length (gd_device t) div 512 \<and>
     list_all (\<lambda>(id, p). lba + n \<le> first_lba p \<or> last_lba p < lba) (gd_partitions t)"

definition aligned_at :: "nat option \<Rightarrow> nat \<Rightarrow> bool" where
  "aligned_at alignment lba \<longleftrightarrow> (case alignment of None \<Rightarrow> True | Some a \<Rightarrow> a dvd lba)"

text \<open>The bytes of the disk outside the partitions.\<close>

definition in_partition :: "nat \<Rightarrow> partition \<Rightarrow> bool" where
  "in_partition k p \<longleftrightarrow> 512 * first_lba p \<le> k \<and> k < 512 * (last_lba p + 1)"

definition same_outside :: "(nat \<times> partition) list \<Rightarrow> u8 list \<Rightarrow> u8 list \<Rightarrow> bool" where
  "same_outside ps d d' \<longleftrightarrow> length d' = length d \<and> (\<forall>k < length d. (\<forall>e \<in> set ps. \<not> in_partition k (snd e)) \<longrightarrow> d' ! k = d ! k)"

definition gpt_documented :: "gpt_crate \<Rightarrow> bool" where
  "gpt_documented g \<longleftrightarrow>
     type_BASIC g = 0xebd0a0a2b9e5443387c068b6b72699c7 \<and> type_EFI g \<noteq> type_BASIC g \<and>
     (\<forall>n d. 512 \<le> length d \<longrightarrow> (\<exists>d'. overwrite_lba0 g n d = Ok d' \<and> length d' = length d)) \<and>
     (\<forall>d. 512 * 68 \<le> length d \<longrightarrow> (\<exists>t. create_from_device g d = Ok t \<and> length (gd_device t) = length d)) \<and>
     (\<forall>t. update_partitions g [] t = Ok (t\<lparr>gd_partitions := []\<rparr>)) \<and>
     (\<forall>t name n guid flags alignment room.
        table_ok t \<and> length (gd_partitions t) < 128 \<and> length name \<le> 36 \<and> list_all (\<lambda>c. 0 < c \<and> c < 2 ^ 16) name \<and>
        0 < n \<and> aligned_at alignment room \<and> free_at t n room \<longrightarrow>
        (\<exists>id lba. add_partition g name (512 * n) guid flags alignment t =
             Ok (id, t\<lparr>gd_partitions := insort_key fst
               (id, \<lparr>part_type_guid = guid, part_name = name, first_lba = lba, last_lba = lba + n - 1\<rparr>) (gd_partitions t)\<rparr>) \<and>
           id \<notin> fst ` set (gd_partitions t) \<and> id < 2 ^ 32 \<and> aligned_at alignment lba \<and> free_at t n lba \<and>
           (\<forall>l < lba. \<not> (aligned_at alignment l \<and> free_at t n l)))) \<and>
     (\<forall>t. table_ok t \<longrightarrow> (\<exists>d. write_table g t = Ok d \<and> length d = length (gd_device t) \<and>
        (\<forall>d'. same_outside (gd_partitions t) d d' \<longrightarrow> open_table g d' = Ok \<lparr>gd_device = d', gd_partitions = gd_partitions t\<rparr>))) \<and>
     (\<forall>p. first_lba p \<le> last_lba p \<and> last_lba p < 2 ^ 55 - 1 \<longrightarrow>
        bytes_start g p = Ok (512 * first_lba p) \<and> bytes_len g p = Ok (512 * (last_lba p + 1 - first_lba p)))"

section \<open>Writing into a file\<close>

lemma set_len_length [simp]: "length (set_len n xs) = n"
  by (simp add: set_len_def)

lemma write_all_at_length [simp]:
  "start + length bs \<le> length xs \<Longrightarrow> length (write_all_at xs start bs) = length xs"
  by (simp add: write_all_at_def)

lemma write_all_at_nth:
  assumes "start + length bs \<le> length xs" "k < length xs"
  shows "write_all_at xs start bs ! k = (if start \<le> k \<and> k < start + length bs then bs ! (k - start) else xs ! k)"
  using assms by (auto simp: write_all_at_def nth_append)

end
