(* ===== verification/Launcher.thy ===== *)
theory Launcher
  imports Disk_Image
begin

text \<open>
  The host program that starts the image in QEMU (\<open>src/main.rs\<close>): its command line, the search for the UEFI
  firmware files, the command it runs, and its exit code. Environment variables, the file system and the outcome of
  the started process are parameters.
\<close>

section \<open>Definitions\<close>

record launch_options =
  headless :: bool
  print_image :: bool
  monitor :: "path option"

datatype launch_output = Stdout str | Stderr str

text \<open>The command line either gives options, or ends the program with an exit code.\<close>

datatype parsed = Options launch_options | Exits "launch_output list" nat

definition help_line :: str where
  "help_line = lit ''Usage: cargo run -- [--headless] [--monitor PATH] [--print-image]''"

fun parse_arguments :: "str list \<Rightarrow> launch_options \<Rightarrow> parsed" where
  "parse_arguments [] opts = Options opts"
| "parse_arguments (argument # arguments) opts =
     (if argument = lit ''--headless'' then parse_arguments arguments (opts\<lparr>headless := True\<rparr>)
      else if argument = lit ''--print-image'' then parse_arguments arguments (opts\<lparr>print_image := True\<rparr>)
      else if argument = lit ''--monitor'' then
        (case arguments of
           p # rest \<Rightarrow> parse_arguments rest (opts\<lparr>monitor := Some p\<rparr>)
         | [] \<Rightarrow> Exits [Stderr (lit ''--monitor requires a UNIX socket path'')] 2)
      else if argument = lit ''--help'' \<or> argument = lit ''-h'' then Exits [Stdout help_line] 0
      else Exits [Stderr (lit ''unknown argument: '' @ argument), Stdout help_line] 2)"

definition default_options :: launch_options where
  "default_options = \<lparr>headless = False, print_image = False, monitor = None\<rparr>"

text \<open>What the program does to the host.\<close>

datatype launch_action = CopyFile path path | RemoveFile path | Spawn str "str list"

text \<open>
  The host: environment variables, regular files, the outcome of a copy, and how the started process ends. An exit status
  has no code when the process was ended by a signal.
\<close>

record host =
  var_os :: "str \<Rightarrow> str option"
  is_file :: "path \<Rightarrow> bool"
  copy_file :: "path \<Rightarrow> path \<Rightarrow> (io_error, unit) outcome"
  run_command_status :: "str \<Rightarrow> str list \<Rightarrow> (io_error, int option) outcome"

definition firmware_path :: "host \<Rightarrow> str \<Rightarrow> path list \<Rightarrow> (io_error, path) outcome" where
  "firmware_path h variable candidates =
     (case var_os h variable of
        Some p \<Rightarrow> if is_file h p then Ok p else
          ok_or (find (is_file h) candidates) (NotFound (variable @ lit '' firmware file was not found; set '' @ variable))
      | None \<Rightarrow> ok_or (find (is_file h) candidates) (NotFound (variable @ lit '' firmware file was not found; set '' @ variable)))"

definition code_candidates :: "path list" where
  "code_candidates = map lit [''/opt/homebrew/share/qemu/edk2-x86_64-code.fd'', ''/usr/share/OVMF/OVMF_CODE.fd'',
     ''/usr/share/edk2/x64/OVMF_CODE.fd'', ''/usr/share/edk2/ovmf/OVMF_CODE.fd'']"

definition vars_candidates :: "path list" where
  "vars_candidates = map lit [''/opt/homebrew/share/qemu/edk2-i386-vars.fd'', ''/usr/share/OVMF/OVMF_VARS.fd'',
     ''/usr/share/edk2/x64/OVMF_VARS.fd'', ''/usr/share/edk2/ovmf/OVMF_VARS.fd'']"

text \<open>\<open>Path::parent\<close>, for a path without repeated or trailing separators.\<close>

definition parent :: "path \<Rightarrow> path option" where
  "parent p = (if p = [] \<or> p = lit ''/'' then None
     else let dir = rev (drop 1 (dropWhile (\<lambda>c. c \<noteq> 0x2f) (rev p))) in
       if dir = [] \<and> hd p = 0x2f then Some (lit ''/'') else Some dir)"

definition qemu_arguments :: "path \<Rightarrow> path \<Rightarrow> path \<Rightarrow> bool \<Rightarrow> path option \<Rightarrow> str list" where
  "qemu_arguments disk_image code vars is_headless socket =
     map lit [''-machine'', ''q35,accel=tcg,i8042=on,pic=on,pit=on'', ''-cpu'', ''max'', ''-smp'', ''1'', ''-m'', ''512M'', ''-drive''] @
     [lit ''if=pflash,unit=0,format=raw,readonly=on,file='' @ code] @
     [lit ''-drive'', lit ''if=pflash,unit=1,format=raw,file='' @ vars] @
     [lit ''-drive'', lit ''if=none,id=boot,format=raw,file='' @ disk_image] @
     map lit [''-device'', ''qemu-xhci,id=xhci'', ''-device'', ''usb-storage,drive=boot,bus=xhci.0,bootindex=1'', ''-serial'', ''stdio''] @
     (case socket of
        Some p \<Rightarrow> [lit ''-monitor'', lit ''unix:'' @ p @ lit '',server=on,wait=off'']
      | None \<Rightarrow> [lit ''-monitor'', lit ''none'']) @
     (if is_headless then [lit ''-display'', lit ''none''] else [])"

text \<open>The actions up to the end or the first error, and the result.\<close>

definition launch_qemu :: "host \<Rightarrow> path \<Rightarrow> bool \<Rightarrow> path option \<Rightarrow> launch_action list \<times> (io_error, int option) outcome" where
  "launch_qemu h disk_image is_headless socket =
     (case firmware_path h (lit ''OVMF_CODE'') code_candidates of Err e \<Rightarrow> ([], Err e) | Panic \<Rightarrow> ([], Panic) | Ok code \<Rightarrow>
     (case firmware_path h (lit ''OVMF_VARS'') vars_candidates of Err e \<Rightarrow> ([], Err e) | Panic \<Rightarrow> ([], Panic) | Ok vars_template \<Rightarrow>
     (case parent disk_image of None \<Rightarrow> ([], Panic) | Some build_dir \<Rightarrow>
     let vars = join build_dir ''OVMF_VARS.fd'' in
     (case copy_file h vars_template vars of Err e \<Rightarrow> ([CopyFile vars_template vars], Err e) | Panic \<Rightarrow> ([CopyFile vars_template vars], Panic) | Ok _ \<Rightarrow>
     let qemu = (case var_os h (lit ''QEMU'') of Some q \<Rightarrow> q | None \<Rightarrow> lit ''qemu-system-x86_64'');
         arguments = qemu_arguments disk_image code vars is_headless socket in
     (CopyFile vars_template vars # (case socket of Some p \<Rightarrow> [RemoveFile p] | None \<Rightarrow> []) @ [Spawn qemu arguments],
      run_command_status h qemu arguments)))))"

text \<open>\<open>status.code().unwrap_or(1) as u8\<close>\<close>

definition exit_code_of :: "int option \<Rightarrow> nat" where
  "exit_code_of status = nat ((case status of Some c \<Rightarrow> c | None \<Rightarrow> 1) mod 256)"

text \<open>The text of an error is left to the caller's formatting; \<open>show_error\<close> stands for it.\<close>

definition launcher_main :: "(io_error \<Rightarrow> str) \<Rightarrow> host \<Rightarrow> path \<Rightarrow> str list \<Rightarrow> (launch_action list \<times> launch_output list \<times> nat) may_panic" where
  "launcher_main show_error h disk_image arguments =
     (case parse_arguments arguments default_options of
        Exits output code \<Rightarrow> Ok ([], output, code)
      | Options opts \<Rightarrow>
          if print_image opts then Ok ([], [Stdout disk_image], 0)
          else (case launch_qemu h disk_image (headless opts) (monitor opts) of
             (actions, Ok status) \<Rightarrow> Ok (actions, [], if status = Some 0 then 0 else exit_code_of status)
           | (actions, Err e) \<Rightarrow> Ok (actions, [Stderr (lit ''failed to launch QEMU: '' @ show_error e)], 1)
           | (actions, Panic) \<Rightarrow> Panic))"

section \<open>The command line\<close>

text \<open>An accepted command line: options in any order and number, a later one over an earlier one.\<close>

datatype option_word = Headless | PrintImage | Monitor path

fun words_of :: "option_word list \<Rightarrow> str list" where
  "words_of [] = []"
| "words_of (Headless # ws) = lit ''--headless'' # words_of ws"
| "words_of (PrintImage # ws) = lit ''--print-image'' # words_of ws"
| "words_of (Monitor p # ws) = lit ''--monitor'' # p # words_of ws"

fun apply_word :: "option_word \<Rightarrow> launch_options \<Rightarrow> launch_options" where
  "apply_word Headless opts = opts\<lparr>headless := True\<rparr>"
| "apply_word PrintImage opts = opts\<lparr>print_image := True\<rparr>"
| "apply_word (Monitor p) opts = opts\<lparr>monitor := Some p\<rparr>"

text \<open>A command line that is not accepted, after its accepted part: help, a missing path, or an unknown word.\<close>

definition stops :: "str list \<Rightarrow> launch_output list \<Rightarrow> nat \<Rightarrow> bool" where
  "stops rest output code \<longleftrightarrow>
     (rest \<noteq> [] \<and> hd rest \<in> {lit ''--help'', lit ''-h''} \<and> output = [Stdout help_line] \<and> code = 0) \<or>
     (rest = [lit ''--monitor''] \<and> output = [Stderr (lit ''--monitor requires a UNIX socket path'')] \<and> code = 2) \<or>
     (rest \<noteq> [] \<and> hd rest \<notin> {lit ''--headless'', lit ''--print-image'', lit ''--monitor'', lit ''--help'', lit ''-h''} \<and>
      output = [Stderr (lit ''unknown argument: '' @ hd rest), Stdout help_line] \<and> code = 2)"

lemma words_distinct [simp]:
  "lit ''--print-image'' \<noteq> lit ''--headless''" "lit ''--monitor'' \<noteq> lit ''--headless''" "lit ''--monitor'' \<noteq> lit ''--print-image''"
  "lit ''--help'' \<noteq> lit ''--headless''" "lit ''--help'' \<noteq> lit ''--print-image''" "lit ''--help'' \<noteq> lit ''--monitor''"
  "lit ''-h'' \<noteq> lit ''--headless''" "lit ''-h'' \<noteq> lit ''--print-image''" "lit ''-h'' \<noteq> lit ''--monitor''"
  by (simp_all add: lit_def)

lemmas words_distinct_sym [simp] = words_distinct [symmetric]

lemma words_of_Nil [simp]: "words_of ws = [] \<longleftrightarrow> ws = []" "[] = words_of ws \<longleftrightarrow> ws = []"
  by (cases ws rule: words_of.cases; simp)+

lemma parse_words: "parse_arguments (words_of ws @ rest) opts = parse_arguments rest (fold apply_word ws opts)"
  by (induction ws arbitrary: opts rule: words_of.induct) simp_all

lemma parse_stops: "stops rest output code \<Longrightarrow> parse_arguments rest opts = Exits output code"
  by (cases rest) (auto simp: stops_def)

definition covered :: "str list \<Rightarrow> bool" where
  "covered args \<longleftrightarrow> (\<exists>ws. args = words_of ws) \<or> (\<exists>ws rest output code. args = words_of ws @ rest \<and> stops rest output code)"

lemma covered_word: "covered args \<Longrightarrow> covered (words_of [w] @ args)"
proof -
  have cons: "words_of [w] @ words_of ws = words_of (w # ws)" for ws
    by (cases w) simp_all
  show "covered args \<Longrightarrow> covered (words_of [w] @ args)"
    unfolding covered_def by (metis cons append_assoc)
qed

lemma covered_stop: "stops rest output code \<Longrightarrow> covered rest"
  unfolding covered_def by (metis append_Nil words_of.simps(1))

lemma arguments_covered: "covered args"
proof (induction args rule: length_induct)
  case (1 args)
  show ?case
  proof (cases args)
    case Nil
    then show ?thesis
      unfolding covered_def by (metis words_of.simps(1))
  next
    case (Cons a rest)
    have IH: "covered rest" "rest = p # rest' \<Longrightarrow> covered rest'" for p rest'
      using 1 Cons by simp_all
    consider "a = lit ''--headless''" | "a = lit ''--print-image''" | "a = lit ''--monitor''" | "a \<in> {lit ''--help'', lit ''-h''}"
      | "a \<notin> {lit ''--headless'', lit ''--print-image'', lit ''--monitor'', lit ''--help'', lit ''-h''}"
      by auto
    then show ?thesis
    proof cases
      case 1
      then show ?thesis
        using covered_word [OF IH(1), of Headless] Cons by simp
    next
      case 2
      then show ?thesis
        using covered_word [OF IH(1), of PrintImage] Cons by simp
    next
      case 3
      then show ?thesis
      proof (cases rest)
        case Nil
        then have "stops args [Stderr (lit ''--monitor requires a UNIX socket path'')] 2"
          using 3 Cons by (simp add: stops_def)
        then show ?thesis
          by (rule covered_stop)
      next
        case (Cons p rest')
        then show ?thesis
          using covered_word [OF IH(2) [OF Cons], of "Monitor p"] 3 \<open>args = a # rest\<close> by simp
      qed
    next
      case 4
      then have "stops args [Stdout help_line] 0"
        using Cons by (simp add: stops_def)
      then show ?thesis
        by (rule covered_stop)
    next
      case 5
      then have "stops args [Stderr (lit ''unknown argument: '' @ a), Stdout help_line] 2"
        using Cons by (simp add: stops_def)
      then show ?thesis
        by (rule covered_stop)
    qed
  qed
qed

section \<open>Exit codes\<close>

lemma print_image_words: "print_image (fold apply_word ws opts) \<longleftrightarrow> PrintImage \<in> set ws \<or> print_image opts"
  by (induction ws arbitrary: opts rule: words_of.induct) auto

lemma firmware_path_returns: "firmware_path h v ps \<noteq> Panic"
  by (auto simp: firmware_path_def split: option.splits)

text \<open>A start that succeeds ran the command; one that fails did not run it, or could not.\<close>

lemma launch_qemu_cases:
  assumes "parent disk_image \<noteq> None" "\<forall>p q. copy_file h p q \<noteq> Panic" "\<forall>q as. run_command_status h q as \<noteq> Panic"
  obtains (ran) actions q as status where "launch_qemu h disk_image b s = (actions, Ok status)" "{a \<in> set actions. \<exists>q as. a = Spawn q as} = {Spawn q as}"
      "run_command_status h q as = Ok status"
    | (failed) actions e where "launch_qemu h disk_image b s = (actions, Err e)"
      "\<And>q as. Spawn q as \<in> set actions \<Longrightarrow> run_command_status h q as = Err e"
proof -
  obtain dir where dir: "parent disk_image = Some dir"
    using assms(1) by blast
  let ?f = "firmware_path h (lit ''OVMF_CODE'') code_candidates" and ?v = "firmware_path h (lit ''OVMF_VARS'') vars_candidates"
  consider e where "?f = Err e" | e code where "?f = Ok code" "?v = Err e" | code vars where "?f = Ok code" "?v = Ok vars"
    using firmware_path_returns by (metis outcome.exhaust)
  then show ?thesis
  proof cases
    case 1
    then show ?thesis
      by (intro failed [of "[]"]) (simp_all add: launch_qemu_def)
  next
    case 2
    then show ?thesis
      by (intro failed [of "[]"]) (simp_all add: launch_qemu_def)
  next
    case 3
    let ?to = "join dir ''OVMF_VARS.fd''"
    define q where "q = (case var_os h (lit ''QEMU'') of Some q \<Rightarrow> q | None \<Rightarrow> lit ''qemu-system-x86_64'')"
    define as where "as = qemu_arguments disk_image code ?to b s"
    show ?thesis
    proof (cases "copy_file h vars ?to")
      case (Ok u)
      then have run: "launch_qemu h disk_image b s = (CopyFile vars ?to # (case s of Some p \<Rightarrow> [RemoveFile p] | None \<Rightarrow> []) @ [Spawn q as], run_command_status h q as)"
        using 3 dir by (simp add: launch_qemu_def q_def as_def Let_def)
      show ?thesis
      proof (cases "run_command_status h q as")
        case (Ok status)
        then show ?thesis
          using run by (intro ran) (auto split: option.splits)
      next
        case (Err e)
        then show ?thesis
          using run by (intro failed) (auto split: option.splits)
      qed (use assms(3) in blast)
    next
      case (Err e)
      then show ?thesis
        using 3 dir by (intro failed [of "[CopyFile vars ?to]"]) (simp_all add: launch_qemu_def)
    qed (use assms(2) in blast)
  qed
qed

section \<open>Properties\<close>

text \<open>
  C26. The launcher's exit code means what it says. A command line with help, a missing path or an unknown word ends at that
  word, with code 0 for help and 2 otherwise, and nothing is started or copied. An accepted line that asks for the image path
  prints it. Every other accepted line, in whatever order its options stand, ends with code 0 exactly when QEMU was
  started and succeeded.
\<close>

theorem launcher_exit:
  assumes "parent disk_image \<noteq> None" "\<forall>p q. copy_file h p q \<noteq> Panic" "\<forall>q as. run_command_status h q as \<noteq> Panic"
    and "\<forall>q as c. run_command_status h q as = Ok (Some c) \<longrightarrow> 0 \<le> c \<and> c < 256"
  shows "\<exists>actions output code. launcher_main show_error h disk_image args = Ok (actions, output, code) \<and>
    ((\<exists>ws rest. args = words_of ws @ rest \<and> stops rest output code \<and> actions = []) \<or>
     (\<exists>ws. args = words_of ws \<and>
        (if PrintImage \<in> set ws then actions = [] \<and> output = [Stdout disk_image] \<and> code = 0
         else code = 0 \<longleftrightarrow> (\<exists>q as. Spawn q as \<in> set actions \<and> run_command_status h q as = Ok (Some 0)))))"
  using arguments_covered [of args, unfolded covered_def]
proof (elim disjE exE conjE)
  fix ws rest out code
  assume "args = words_of ws @ rest" "stops rest out code"
  moreover from this have "launcher_main show_error h disk_image args = Ok ([], out, code)"
    by (simp add: launcher_main_def parse_words parse_stops)
  ultimately show ?thesis
    by blast
next
  fix ws
  assume args: "args = words_of ws"
  let ?o = "fold apply_word ws default_options"
  have parsed: "parse_arguments args default_options = Options ?o" "print_image ?o \<longleftrightarrow> PrintImage \<in> set ws"
    using parse_words [of ws "[]"] args by (simp_all add: print_image_words default_options_def)
  show ?thesis
  proof (cases "PrintImage \<in> set ws")
    case True
    then show ?thesis
      using args parsed by (simp add: launcher_main_def) blast
  next
    case False
    show ?thesis
    proof (rule launch_qemu_cases [OF assms(1-3), of "headless ?o" "monitor ?o"])
      fix actions q as status
      assume run: "launch_qemu h disk_image (headless ?o) (monitor ?o) = (actions, Ok status)"
        "{a \<in> set actions. \<exists>q as. a = Spawn q as} = {Spawn q as}" "run_command_status h q as = Ok status"
      have only: "Spawn q' as' \<in> set actions \<longleftrightarrow> q' = q \<and> as' = as" for q' as'
        using run(2) by auto
      have "(if status = Some 0 then 0 else exit_code_of status) = 0 \<longleftrightarrow> status = Some 0"
      proof (cases status)
        case (Some c)
        then have "0 \<le> c" "c < 256"
          using assms(4) run(3) by blast+
        then show ?thesis
          using Some by (simp add: exit_code_of_def)
      qed (simp add: exit_code_of_def)
      then show ?thesis
        using False args parsed run(1,3) only by (auto simp: launcher_main_def)
    next
      fix actions e
      assume run: "launch_qemu h disk_image (headless ?o) (monitor ?o) = (actions, Err e)"
        "\<And>q as. Spawn q as \<in> set actions \<Longrightarrow> run_command_status h q as = Err e"
      then have "\<not> (\<exists>q as. Spawn q as \<in> set actions \<and> run_command_status h q as = Ok (Some 0))"
        by fastforce
      then show ?thesis
        using False args parsed run(1) by (auto simp: launcher_main_def)
    qed
  qed
qed

text \<open>A host where every file exists and QEMU ends with code 3.\<close>

definition example_host :: host where
  "example_host = \<lparr>var_os = (\<lambda>_. None), is_file = (\<lambda>_. True), copy_file = (\<lambda>_ _. Ok ()), run_command_status = (\<lambda>_ _. Ok (Some 3))\<rparr>"

text \<open>Witness of C26: a start without display on this host does not report success.\<close>

theorem launcher_exit_witness:
  "\<exists>actions output code. launcher_main (\<lambda>_. []) example_host (lit ''build/sol-os.img'') [lit ''--headless''] = Ok (actions, output, code) \<and> code \<noteq> 0"
proof -
  have host: "parent (lit ''build/sol-os.img'') \<noteq> None" "\<forall>p q. copy_file example_host p q \<noteq> Panic" "\<forall>q as. run_command_status example_host q as \<noteq> Panic"
    "\<forall>q as c. run_command_status example_host q as = Ok (Some c) \<longrightarrow> 0 \<le> c \<and> c < 256" "run_command_status example_host q as \<noteq> Ok (Some 0)" for q as
    by (simp_all add: example_host_def parent_def lit_def Let_def)
  have words: "[lit ''--headless''] = words_of ws \<longleftrightarrow> ws = [Headless]" for ws
    by (cases ws rule: words_of.cases) auto
  have prefix: "\<not> ([lit ''--headless''] = words_of ws @ rest \<and> stops rest out code)" for ws rest out code
    by (cases ws rule: words_of.cases) (auto simp: stops_def)
  show ?thesis
    using launcher_exit [OF host(1-4), of "\<lambda>_. []" "[lit ''--headless'']"] prefix host(5) unfolding words by auto
qed

end
