(* ===== verification/Pci.thy ===== *)
theory Pci
  imports Ports
begin

text \<open>
  The search for the USB host controller (\<open>kernel/src/pci.rs\<close>), through the two ports of PCI configuration
  mechanism 1. The host bridge behind the ports is a parameter: a bus, what its state holds in the configuration registers, and
  the effect of a write to one of them.
\<close>

unbundle bit_operations_syntax

section \<open>Definitions\<close>

definition CONFIG_ADDRESS :: u16 where "CONFIG_ADDRESS = 0xcf8"
definition CONFIG_DATA :: u16 where "CONFIG_DATA = 0xcfc"
definition CLASS_SERIAL_BUS :: u8 where "CLASS_SERIAL_BUS = 0x0c"
definition SUBCLASS_USB :: u8 where "SUBCLASS_USB = 0x03"
definition PROGIF_XHCI :: u8 where "PROGIF_XHCI = 0x30"

record xhci_controller =
  x_bus :: u8
  x_device :: u8
  x_function :: u8
  mmio_base :: u64

definition config_address :: "u8 \<Rightarrow> u8 \<Rightarrow> u8 \<Rightarrow> u8 \<Rightarrow> u32" where
  "config_address bus device function offset =
     0x80000000 OR push_bit 16 (ucast bus) OR push_bit 11 (ucast device) OR push_bit 8 (ucast function) OR
     (ucast offset AND 0xfc)"

definition read_u32 :: "'h bus \<Rightarrow> u8 \<Rightarrow> u8 \<Rightarrow> u8 \<Rightarrow> u8 \<Rightarrow> ('h, u32) state" where
  "read_u32 b bus device function offset =
     (let address = config_address bus device function offset in do {
        out32 b CONFIG_ADDRESS address;
        in32 b CONFIG_DATA
      })"

definition write_u32 :: "'h bus \<Rightarrow> u8 \<Rightarrow> u8 \<Rightarrow> u8 \<Rightarrow> u8 \<Rightarrow> u32 \<Rightarrow> ('h, unit) state" where
  "write_u32 b bus device function offset value =
     (let address = config_address bus device function offset in do {
        out32 b CONFIG_ADDRESS address;
        out32 b CONFIG_DATA value
      })"

text \<open>The address in the base register, \<open>high\<close> the register after it; \<open>None\<close> for a type the driver rejects.\<close>

definition bar_address :: "u32 \<Rightarrow> u32 \<Rightarrow> u64 option" where
  "bar_address low high =
     (let bar_type = drop_bit 1 low AND 0x03 in
      if bar_type = 0 then Some (ucast (low AND NOT 0x0f))
      else if bar_type = 2 then Some (push_bit 32 (ucast high) OR (ucast low AND NOT 0x0f))
      else None)"

definition finish_scan :: "'h bus \<Rightarrow> u8 \<Rightarrow> u8 \<Rightarrow> u8 \<Rightarrow> u64 option \<Rightarrow> ('h, xhci_controller option) state" where
  "finish_scan b bus device function base =
     (case base of
        None \<Rightarrow> ret None
      | Some address \<Rightarrow>
          if address = 0 then ret None else do {
            command_status \<leftarrow> read_u32 b bus device function 0x04;
            write_u32 b bus device function 0x04 (command_status OR 0x00000006);
            ret (Some \<lparr>x_bus = bus, x_device = device, x_function = function, mmio_base = address\<rparr>)
          })"

definition scan_function :: "'h bus \<Rightarrow> u8 \<Rightarrow> u8 \<Rightarrow> u8 \<Rightarrow> ('h, xhci_controller option) state" where
  "scan_function b bus device function = do {
     id \<leftarrow> read_u32 b bus device function 0x00;
     if id AND 0xffff = 0xffff then ret None else do {
       class \<leftarrow> read_u32 b bus device function 0x08;
       let class_code = ucast (drop_bit 24 class);
           subclass = ucast (drop_bit 16 class);
           programming_interface = ucast (drop_bit 8 class)
       in if (class_code, subclass, programming_interface) \<noteq> (CLASS_SERIAL_BUS, SUBCLASS_USB, PROGIF_XHCI) then ret None else do {
         low_bar \<leftarrow> read_u32 b bus device function 0x10;
         if low_bar AND 0x01 \<noteq> 0 then ret None
         else if drop_bit 1 low_bar AND 0x03 = 0x02 then do {
           high_bar \<leftarrow> read_u32 b bus device function 0x14;
           finish_scan b bus device function (bar_address low_bar high_bar)
         }
         else finish_scan b bus device function (bar_address low_bar 0)
       }
     }
   }"

text \<open>A \<open>for\<close> loop that returns from the function at the first result.\<close>

fun first_some :: "('x \<Rightarrow> ('h, 'a option) state) \<Rightarrow> 'x list \<Rightarrow> ('h, 'a option) state" where
  "first_some f [] = ret None"
| "first_some f (x # xs) = do {
     r \<leftarrow> f x;
     case r of Some a \<Rightarrow> ret (Some a) | None \<Rightarrow> first_some f xs
   }"

definition scan_device :: "'h bus \<Rightarrow> u8 \<Rightarrow> u8 \<Rightarrow> ('h, xhci_controller option) state" where
  "scan_device b bus device = do {
     r \<leftarrow> scan_function b bus device 0;
     case r of
       Some controller \<Rightarrow> ret (Some controller)
     | None \<Rightarrow> do {
         header \<leftarrow> read_u32 b bus device 0 0x0c;
         if header AND 0x800000 = 0 then ret None
         else first_some (scan_function b bus device) (map of_nat [1..<8])
       }
   }"

definition find_xhci_controller :: "'h bus \<Rightarrow> ('h, xhci_controller option) state" where
  "find_xhci_controller b =
     first_some (\<lambda>bus. first_some (\<lambda>device. scan_device b bus device) (map of_nat [0..<32])) (map of_nat [0..<256])"

section \<open>The configuration registers\<close>

text \<open>
  The documented mechanism: after a register's address is written to the address port, reading the data
  port gives that register and changes none, and writing it has the effect \<open>w\<close> of a write to that register.
\<close>

definition config_mechanism :: "'h bus \<Rightarrow> ('h \<Rightarrow> u32 \<Rightarrow> u32) \<Rightarrow> (u32 \<Rightarrow> u32 \<Rightarrow> (u32 \<Rightarrow> u32) \<Rightarrow> u32 \<Rightarrow> u32) \<Rightarrow> bool" where
  "config_mechanism b cfg w \<longleftrightarrow>
     (\<forall>h a. \<exists>h'. run_state (do { out32 b 0xcf8 a; in32 b 0xcfc }) h = (cfg h a, h') \<and> cfg h' = cfg h) \<and>
     (\<forall>h a v. \<exists>h'. run_state (do { out32 b 0xcf8 a; out32 b 0xcfc v }) h = ((), h') \<and> cfg h' = w a v (cfg h))"

type_synonym pci_function = "u8 \<times> u8 \<times> u8"

fun register :: "(u32 \<Rightarrow> u32) \<Rightarrow> pci_function \<Rightarrow> u8 \<Rightarrow> u32" where
  "register regs (bus, device, function) offset = regs (config_address bus device function offset)"

text \<open>What the driver accepts as a controller: where its registers are, if it is one.\<close>

definition xhci_base :: "(u32 \<Rightarrow> u32) \<Rightarrow> pci_function \<Rightarrow> u64 option" where
  "xhci_base regs f =
     (let class = register regs f 0x08; low = register regs f 0x10 in
      if register regs f 0x00 AND 0xffff \<noteq> 0xffff \<and> drop_bit 8 class = 0x0c0330 \<and> \<not> bit low 0
      then (case bar_address low (register regs f 0x14) of Some base \<Rightarrow> if base = 0 then None else Some base | None \<Rightarrow> None)
      else None)"

fun controller :: "(u32 \<Rightarrow> u32) \<Rightarrow> pci_function \<Rightarrow> xhci_controller" where
  "controller regs (bus, device, function) =
     \<lparr>x_bus = bus, x_device = device, x_function = function, mmio_base = the (xhci_base regs (bus, device, function))\<rparr>"

text \<open>The functions in the order of the search: those after the first only of a device that says it has more.\<close>

definition device_functions :: "(u32 \<Rightarrow> u32) \<Rightarrow> u8 \<Rightarrow> u8 \<Rightarrow> pci_function list" where
  "device_functions regs bus device =
     (bus, device, 0) # (if bit (register regs (bus, device, 0) 0x0c) 23 then map (\<lambda>n. (bus, device, of_nat n)) [1..<8] else [])"

definition scan_order :: "(u32 \<Rightarrow> u32) \<Rightarrow> pci_function list" where
  "scan_order regs = concat (map (\<lambda>bus. concat (map (device_functions regs (of_nat bus)) (map of_nat [0..<32]))) [0..<256])"

text \<open>The one write of the search, at the function it finds.\<close>

definition enable :: "(u32 \<Rightarrow> u32 \<Rightarrow> (u32 \<Rightarrow> u32) \<Rightarrow> u32 \<Rightarrow> u32) \<Rightarrow> pci_function \<Rightarrow> (u32 \<Rightarrow> u32) \<Rightarrow> u32 \<Rightarrow> u32" where
  "enable w f regs = (case f of (bus, device, function) \<Rightarrow> w (config_address bus device function 0x04) (register regs f 0x04 OR 0x06) regs)"

definition search :: "(u32 \<Rightarrow> u32 \<Rightarrow> (u32 \<Rightarrow> u32) \<Rightarrow> u32 \<Rightarrow> u32) \<Rightarrow> (u32 \<Rightarrow> u32) \<Rightarrow> pci_function list \<Rightarrow> xhci_controller option \<times> (u32 \<Rightarrow> u32)" where
  "search w regs fs =
     (case List.find (\<lambda>f. xhci_base regs f \<noteq> None) fs of
        None \<Rightarrow> (None, regs)
      | Some f \<Rightarrow> (Some (controller regs f), enable w f regs))"

section \<open>Lemmas\<close>

lemma class_matches:
  fixes c :: u32
  shows "((ucast (drop_bit 24 c), ucast (drop_bit 16 c), ucast (drop_bit 8 c)) = (CLASS_SERIAL_BUS, SUBCLASS_USB, PROGIF_XHCI))
    \<longleftrightarrow> drop_bit 8 c = 0x0c0330"
proof -
  define x where "x = unat c div 256"
  have small: "x < 2 ^ 24"
    using unsigned_less [where 'a = nat, of c] by (simp add: x_def less_mult_imp_div_less)
  have x: "unat c div 16777216 mod 256 = x div 256 div 256" "unat c div 65536 mod 256 = x div 256 mod 256"
    "unat c div 256 mod 256 = x mod 256"
    using small by (simp_all add: x_def flip: div_mult2_eq)
  have "x div 256 div 256 = 12 \<and> x div 256 mod 256 = 3 \<and> x mod 256 = 48 \<longleftrightarrow> x = 0x0c0330"
  proof
    assume a: "x div 256 div 256 = 12 \<and> x div 256 mod 256 = 3 \<and> x mod 256 = 48"
    then have "x div 256 = 12 * 256 + 3"
      using div_mult_mod_eq [of "x div 256" 256] by simp
    then show "x = 0x0c0330"
      using a div_mult_mod_eq [of x 256] by simp
  qed simp
  then have "unat c div 16777216 mod 256 = 12 \<and> unat c div 65536 mod 256 = 3 \<and> unat c div 256 mod 256 = 48
      \<longleftrightarrow> unat c div 256 = 0x0c0330"
    unfolding x by (simp only: x_def)
  then show ?thesis
    by (simp add: CLASS_SERIAL_BUS_def SUBCLASS_USB_def PROGIF_XHCI_def word_unat_eq_iff unat_drop_bit_eq unsigned_ucast_eq take_bit_eq_mod drop_bit_eq_div unat_div)
qed

lemma low_bit: "(low :: u32) AND 1 \<noteq> 0 \<longleftrightarrow> bit low 0"
  using and_exp_eq_0_iff_not_bit [of low 0] by simp

lemma header_bit: "(header :: u32) AND 0x800000 = 0 \<longleftrightarrow> \<not> bit header 23"
  using and_exp_eq_0_iff_not_bit [of header 23] by simp

lemma bar_aligned: "bar_address low high = Some base \<Longrightarrow> base AND 0x0f = 0"
proof -
  assume "bar_address low high = Some base"
  moreover have "bit (0x0f :: u64) n \<Longrightarrow> n < 4" "bit (0x0f :: u32) n \<longleftrightarrow> n < 4" for n
    using bit_mask_iff [of 4 n, where 'a = "64 word"] bit_mask_iff [of 4 n, where 'a = "32 word"] by (auto simp: mask_eq_exp_minus_1)
  ultimately show ?thesis
    by (fastforce simp: bar_address_def Let_def bit_simps intro!: bit_eqI split: if_splits)
qed

text \<open>The effect of a driver on the registers.\<close>

definition gives :: "('h \<Rightarrow> u32 \<Rightarrow> u32) \<Rightarrow> ('h, 'a) state \<Rightarrow> 'h \<Rightarrow> 'a \<times> (u32 \<Rightarrow> u32) \<Rightarrow> bool" where
  "gives cfg m h r \<longleftrightarrow> (\<exists>h'. run_state m h = (fst r, h') \<and> cfg h' = snd r)"

lemma gives_ret: "gives cfg (ret x) h (x, cfg h)"
  by (simp add: gives_def)

lemma gives_bind:
  assumes "gives cfg m h (x, regs)" "\<And>h'. cfg h' = regs \<Longrightarrow> gives cfg (f x) h' r"
  shows "gives cfg (State_Monad.bind m f) h r"
  using assms by (fastforce simp: gives_def run_state_bind)

lemma gives_read:
  "config_mechanism b cfg w \<Longrightarrow> gives cfg (read_u32 b bus device function offset) h (register (cfg h) (bus, device, function) offset, cfg h)"
  by (simp add: config_mechanism_def gives_def read_u32_def CONFIG_ADDRESS_def CONFIG_DATA_def)

lemma gives_write:
  "config_mechanism b cfg w \<Longrightarrow>
   gives cfg (write_u32 b bus device function offset v) h ((), w (config_address bus device function offset) v (cfg h))"
  by (simp add: config_mechanism_def gives_def write_u32_def CONFIG_ADDRESS_def CONFIG_DATA_def)

lemma bar_address_32: "drop_bit 1 low AND 0x03 \<noteq> 0x02 \<Longrightarrow> bar_address low high = bar_address low 0"
  by (simp add: bar_address_def Let_def)

lemma gives_finish:
  assumes "config_mechanism b cfg w"
  shows "gives cfg (finish_scan b bus device function base) h
    (case base of
       None \<Rightarrow> (None, cfg h)
     | Some a \<Rightarrow> if a = 0 then (None, cfg h)
         else (Some \<lparr>x_bus = bus, x_device = device, x_function = function, mmio_base = a\<rparr>, enable w (bus, device, function) (cfg h)))"
proof (cases base)
  case None
  then show ?thesis by (simp add: finish_scan_def gives_ret)
next
  case (Some a)
  have "gives cfg (do {
      command_status \<leftarrow> read_u32 b bus device function 0x04;
      write_u32 b bus device function 0x04 (command_status OR 0x06);
      ret (Some c) }) h (Some c, enable w (bus, device, function) (cfg h))" for c :: xhci_controller
    by (rule gives_bind [OF gives_read [OF assms]], rule gives_bind [OF gives_write [OF assms]])
      (metis (no_types, lifting) enable_def gives_ret old.prod.case)
  with Some show ?thesis
    by (simp add: finish_scan_def gives_ret)
qed

definition searches ::
    "('h \<Rightarrow> u32 \<Rightarrow> u32) \<Rightarrow> (u32 \<Rightarrow> u32 \<Rightarrow> (u32 \<Rightarrow> u32) \<Rightarrow> u32 \<Rightarrow> u32) \<Rightarrow> ('h, xhci_controller option) state \<Rightarrow>
     ((u32 \<Rightarrow> u32) \<Rightarrow> pci_function list) \<Rightarrow> bool" where
  "searches cfg w m fs \<longleftrightarrow> (\<forall>h. gives cfg m h (search w (cfg h) (fs (cfg h))))"

lemma search_Nil [simp]: "search w regs [] = (None, regs)"
  by (simp add: search_def)

lemma find_append: "List.find P (xs @ ys) = (case List.find P xs of None \<Rightarrow> List.find P ys | Some x \<Rightarrow> Some x)"
  by (induction xs) simp_all

lemma search_append:
  "search w regs (fs @ gs) = (case search w regs fs of (None, _) \<Rightarrow> search w regs gs | (Some c, r) \<Rightarrow> (Some c, r))"
  by (simp add: search_def find_append split: option.split)

lemma search_None: "search w regs fs = (None, r) \<Longrightarrow> r = regs"
  by (simp add: search_def split: option.splits)

lemma searches_then:
  assumes "searches cfg w m fs" "searches cfg w k gs"
  shows "searches cfg w (do { r \<leftarrow> m; case r of Some c \<Rightarrow> ret (Some c) | None \<Rightarrow> k }) (\<lambda>regs. fs regs @ gs regs)"
  unfolding searches_def
proof
  fix h
  obtain x regs where s: "search w (cfg h) (fs (cfg h)) = (x, regs)" by fastforce
  then have m: "gives cfg m h (x, regs)"
    using assms(1) by (metis searches_def)
  show "gives cfg (do { r \<leftarrow> m; case r of Some c \<Rightarrow> ret (Some c) | None \<Rightarrow> k }) h (search w (cfg h) (fs (cfg h) @ gs (cfg h)))"
  proof (rule gives_bind [OF m])
    fix h' assume "cfg h' = regs"
    then show "gives cfg (case x of Some c \<Rightarrow> ret (Some c) | None \<Rightarrow> k) h' (search w (cfg h) (fs (cfg h) @ gs (cfg h)))"
      using assms(2) [unfolded searches_def, rule_format, of h'] gives_ret [of cfg x h'] s search_None [of w "cfg h" "fs (cfg h)" regs]
      by (cases x) (auto simp: search_append)
  qed
qed

lemma searches_first_some:
  "(\<And>x. x \<in> set xs \<Longrightarrow> searches cfg w (f x) (fs x)) \<Longrightarrow> searches cfg w (first_some f xs) (\<lambda>regs. concat (map (\<lambda>x. fs x regs) xs))"
proof (induction xs)
  case Nil
  then show ?case by (simp add: searches_def gives_ret)
next
  case (Cons x xs)
  then show ?case
    using searches_then [of cfg w "f x" "fs x" "first_some f xs"] by simp
qed

lemma gives_read_then:
  assumes "config_mechanism b cfg w" "cfg h' = regs"
    "\<And>h''. cfg h'' = regs \<Longrightarrow> gives cfg (g (register regs (bus, device, function) offset)) h'' r"
  shows "gives cfg (State_Monad.bind (read_u32 b bus device function offset) g) h' r"
  using gives_bind [OF gives_read [OF assms(1)]] assms(2,3) by metis

lemma gives_finish_search:
  fixes bus device "function" regs
  defines "f \<equiv> (bus, device, function)"
  assumes "config_mechanism b cfg w" "cfg h = regs"
    and "high = register regs f 0x14 \<or> drop_bit 1 (register regs f 0x10) AND 0x03 \<noteq> 0x02"
    and "register regs f 0 AND 0xffff \<noteq> 0xffff" "drop_bit 8 (register regs f 0x08) = 0x0c0330" "\<not> bit (register regs f 0x10) 0"
  shows "gives cfg (finish_scan b bus device function (bar_address (register regs f 0x10) high)) h (search w regs [f])"
proof -
  have bar: "bar_address (register regs f 0x10) high = bar_address (register regs f 0x10) (register regs f 0x14)"
    using assms(4) bar_address_32 [of "register regs f 0x10" "register regs f 0x14"] bar_address_32 [of "register regs f 0x10" high] by metis
  show ?thesis
    using gives_finish [OF assms(2), of bus device "function" "bar_address (register regs f 0x10) (register regs f 0x14)" h] assms(3,5-7)
    unfolding bar unfolding f_def by (simp add: search_def xhci_base_def Let_def split: option.splits if_splits)
qed

lemma searches_scan_function:
  assumes "config_mechanism b cfg w"
  shows "searches cfg w (scan_function b bus device function) (\<lambda>regs. [(bus, device, function)])"
  unfolding searches_def
proof
  fix h
  let ?f = "(bus, device, function)"
  let ?c = "register (cfg h) ?f 0x08" and ?low = "register (cfg h) ?f 0x10" and ?high = "register (cfg h) ?f 0x14"
  note read = gives_read_then [OF assms, where regs = "cfg h"]
  note finish = gives_finish_search [OF assms, where regs = "cfg h"]
  have none: "gives cfg (ret None) h' (search w (cfg h) [?f])" if "cfg h' = cfg h" "xhci_base (cfg h) ?f = None" for h'
    using gives_ret [of cfg None h'] that by (simp add: search_def)
  let ?bars = "do {
      low_bar \<leftarrow> read_u32 b bus device function 0x10;
      if low_bar AND 0x01 \<noteq> 0 then ret None
      else if drop_bit 1 low_bar AND 0x03 = 0x02 then do {
        high_bar \<leftarrow> read_u32 b bus device function 0x14;
        finish_scan b bus device function (bar_address low_bar high_bar)
      }
      else finish_scan b bus device function (bar_address low_bar 0) }"
  have bar: "gives cfg ?bars h' (search w (cfg h) [?f])"
    if h': "cfg h' = cfg h" and f: "register (cfg h) ?f 0 AND 0xffff \<noteq> 0xffff" "drop_bit 8 ?c = 0x0c0330" for h'
  proof (rule read [OF h'])
    fix h2 assume h2: "cfg h2 = cfg h"
    show "gives cfg (if ?low AND 0x01 \<noteq> 0 then ret None
        else if drop_bit 1 ?low AND 0x03 = 0x02 then do {
          high_bar \<leftarrow> read_u32 b bus device function 0x14;
          finish_scan b bus device function (bar_address ?low high_bar)
        }
        else finish_scan b bus device function (bar_address ?low 0)) h2 (search w (cfg h) [?f])"
      unfolding low_bit
      using none [OF h2] finish [OF _ _ f] h2 read [OF h2, of "\<lambda>high. finish_scan b bus device function (bar_address ?low high)" bus device "function" "0x14"]
      by (cases "bit ?low 0"; cases "drop_bit 1 ?low AND 0x03 = 0x02") (simp_all add: xhci_base_def Let_def)
  qed
  have "gives cfg (do {
      class \<leftarrow> read_u32 b bus device function 0x08;
      if drop_bit 8 class \<noteq> 0x0c0330 then ret None else ?bars }) h' (search w (cfg h) [?f])"
    if h': "cfg h' = cfg h" and f: "register (cfg h) ?f 0 AND 0xffff \<noteq> 0xffff" for h'
    using none bar [OF _ f] by (intro read [OF h']) (simp add: xhci_base_def Let_def)
  then have "gives cfg (do {
      id \<leftarrow> read_u32 b bus device function 0x00;
      if id AND 0xffff = 0xffff then ret None else do {
        class \<leftarrow> read_u32 b bus device function 0x08;
        if drop_bit 8 class \<noteq> 0x0c0330 then ret None else ?bars } }) h (search w (cfg h) [?f])"
    using none by (intro read [OF refl]) (simp add: xhci_base_def Let_def)
  then show "gives cfg (scan_function b bus device function) h (search w (cfg h) [?f])"
    unfolding scan_function_def Let_def class_matches by simp
qed

lemma searches_scan_device:
  assumes "config_mechanism b cfg w"
  shows "searches cfg w (scan_device b bus device) (\<lambda>regs. device_functions regs bus device)"
proof -
  let ?more = "\<lambda>regs. map (\<lambda>n. (bus, device, of_nat n)) [1..<8]"
  have more: "searches cfg w (first_some (scan_function b bus device) (map of_nat [1..<8])) ?more"
    using searches_first_some [of "map of_nat [1..<8]" cfg w "scan_function b bus device" "\<lambda>f regs. [(bus, device, f)]"]
      searches_scan_function [OF assms, of bus device] by (simp add: comp_def del: upt_rec_numeral)
  have "searches cfg w (do {
      header \<leftarrow> read_u32 b bus device 0 0x0c;
      if header AND 0x800000 = 0 then ret None else first_some (scan_function b bus device) (map of_nat [1..<8]) })
    (\<lambda>regs. if bit (register regs (bus, device, 0) 0x0c) 23 then ?more regs else [])"
    unfolding searches_def header_bit
  proof (intro allI gives_bind [OF gives_read [OF assms]])
    fix h h' assume h': "cfg h' = cfg h"
    let ?bit = "bit (register (cfg h) (bus, device, 0) 0x0c) 23"
    show "gives cfg (if \<not> ?bit then ret None else first_some (scan_function b bus device) (map of_nat [1..<8])) h'
        (search w (cfg h) (if ?bit then ?more (cfg h) else []))"
      using more [unfolded searches_def, rule_format, of h'] gives_ret [of cfg None h'] h' by (cases ?bit) simp_all
  qed
  from searches_then [OF searches_scan_function [OF assms] this] show ?thesis
    unfolding scan_device_def device_functions_def by (simp cong: option.case_cong)
qed

lemma searches_find:
  assumes "config_mechanism b cfg w"
  shows "searches cfg w (find_xhci_controller b) scan_order"
proof -
  have "searches cfg w (first_some (scan_device b bus) (map of_nat [0..<32]))
      (\<lambda>regs. concat (map (device_functions regs bus) (map of_nat [0..<32])))" for bus
    using searches_first_some [of "map of_nat [0..<32]" cfg w "scan_device b bus" "\<lambda>d regs. device_functions regs bus d"]
      searches_scan_device [OF assms] by blast
  then show ?thesis
    using searches_first_some [of "map of_nat [0..<256]" cfg w "\<lambda>bus. first_some (scan_device b bus) (map of_nat [0..<32])"
        "\<lambda>bus regs. concat (map (device_functions regs bus) (map of_nat [0..<32]))"]
    unfolding find_xhci_controller_def scan_order_def by (simp add: comp_def del: upt_rec_numeral)
qed

lemma in_scan_order:
  assumes "(bus, device, function) \<in> set (scan_order regs)"
  shows "device < 32 \<and> function < 8"
proof -
  have "(of_nat n :: u8) < 32" if "n < 32" for n
    using that by (simp add: word_less_nat_alt unat_of_nat_small)
  moreover have "(of_nat n :: u8) < 8" if "n < 8" for n
    using that by (simp add: word_less_nat_alt unat_of_nat_small)
  ultimately show ?thesis
    using assms by (auto simp: scan_order_def device_functions_def simp del: upt_rec_numeral split: if_splits)
qed

lemma xhci_base_usable: "xhci_base regs f = Some base \<Longrightarrow> base \<noteq> 0 \<and> base AND 0x0f = 0"
  by (auto simp: xhci_base_def Let_def bar_aligned split: if_splits option.splits)

text \<open>
  A bridge for the example. The register at offset 4 of a function holds the command register in its lower half and the status register in
  its upper half, whose error bits are cleared by writing ones to them and whose other bits cannot be written.
\<close>

definition command_status :: "u32 \<Rightarrow> u32 \<Rightarrow> u32" where
  "command_status old v = (v AND 0x0000ffff) OR (old AND 0xffff0000 AND NOT (v AND 0xf9000000))"

definition config_write :: "u32 \<Rightarrow> u32 \<Rightarrow> (u32 \<Rightarrow> u32) \<Rightarrow> u32 \<Rightarrow> u32" where
  "config_write a v regs = regs(a := if a AND 0xfc = 0x04 then command_status (regs a) v else v)"

definition demo_bridge :: "(u32 \<times> (u32 \<Rightarrow> u32)) bus" where
  "demo_bridge = \<lparr>
     bus_in8 = (\<lambda>p h. (0, h)), bus_out8 = (\<lambda>p v h. h),
     bus_in32 = (\<lambda>p (a, regs). (if p = 0xcfc then regs a else 0, (a, regs))),
     bus_out32 = (\<lambda>p v (a, regs). if p = 0xcf8 then (v, regs) else if p = 0xcfc then (a, config_write a v regs) else (a, regs))\<rparr>"

lemma demo_bridge_mechanism: "config_mechanism demo_bridge snd config_write"
  by (auto simp: config_mechanism_def demo_bridge_def in32_def out32_def)

definition demo_registers :: "u32 \<Rightarrow> u32" where
  "demo_registers = (\<lambda>_. 0xffffffff)(0x80000000 := 0x00041033, 0x80000004 := 0xa9100000, 0x80000008 := 0x0c033000, 0x80000010 := 0xfe000000)"

lemma demo_first: "List.find (\<lambda>f. xhci_base demo_registers f \<noteq> None) (scan_order demo_registers) = Some (0, 0, 0)"
proof -
  have base: "xhci_base demo_registers (0, 0, 0) = Some 0xfe000000"
    by (simp add: xhci_base_def demo_registers_def config_address_def bar_address_def Let_def drop_bit_eq_div bit_iff_odd_drop_bit)
  have order: "scan_order demo_registers = (0, 0, 0) # tl (scan_order demo_registers)"
    unfolding scan_order_def upt_conv_Cons [of 0 256, simplified] upt_conv_Cons [of 0 32, simplified]
    by (simp add: device_functions_def del: upt_rec_numeral upt_Suc)
  show ?thesis
    by (subst order) (simp add: base)
qed

section \<open>Properties\<close>

text \<open>
  C33. On any host bridge with configuration mechanism 1, the search returns the first function, by bus, device and function
  number, that is a memory-mapped xHCI controller of an accepted kind; functions after the first are searched only on
  devices that declare several. The address returned is non-zero and 16-byte aligned. If nothing is found, no register is
  changed. Otherwise the registers change by one 32-bit write, to the register at offset 4 of the function returned. Its lower half,
  the command register, is written as it was read with bus mastering and memory decoding turned on. Its upper half, the status register, is
  written back as it was read, so the status bits that were set and that clear when a one is written to them are cleared.
\<close>

theorem find_xhci_first:
  assumes "config_mechanism b cfg w" "run_state (find_xhci_controller b) h = (r, h')"
  shows "(case List.find (\<lambda>f. xhci_base (cfg h) f \<noteq> None) (scan_order (cfg h)) of
      None \<Rightarrow> r = None \<and> cfg h' = cfg h
    | Some (bus, device, function) \<Rightarrow> (\<exists>base written.
        r = Some \<lparr>x_bus = bus, x_device = device, x_function = function, mmio_base = base\<rparr> \<and>
        xhci_base (cfg h) (bus, device, function) = Some base \<and> base \<noteq> 0 \<and> base AND 0x0f = 0 \<and> device < 32 \<and> function < 8 \<and>
        cfg h' = w (config_address bus device function 0x04) written (cfg h) \<and>
        written = cfg h (config_address bus device function 0x04) OR 0x06 \<and>
        take_bit 16 written = take_bit 16 (cfg h (config_address bus device function 0x04)) OR 0x06 \<and>
        drop_bit 16 written = drop_bit 16 (cfg h (config_address bus device function 0x04))))"
proof -
  have run: "(r, cfg h') = search w (cfg h) (scan_order (cfg h))"
    using searches_find [OF assms(1)] assms(2) by (simp add: searches_def gives_def prod_eq_iff) (metis fst_conv snd_conv)
  have "drop_bit 16 (0x06 :: u32) = 0"
    by (simp add: drop_bit_eq_div)
  then have halves: "take_bit 16 (cs OR 0x06) = take_bit 16 cs OR 0x06" "drop_bit 16 (cs OR 0x06) = drop_bit 16 cs" for cs :: u32
    by (simp_all add: take_bit_or drop_bit_or)
  show ?thesis
  proof (cases "List.find (\<lambda>f. xhci_base (cfg h) f \<noteq> None) (scan_order (cfg h))")
    case None
    with run show ?thesis by (simp add: search_def)
  next
    case (Some f)
    then have "f \<in> set (scan_order (cfg h))" "xhci_base (cfg h) f \<noteq> None"
      by (auto simp: find_Some_iff)
    with run Some show ?thesis
      using xhci_base_usable [of "cfg h" f] in_scan_order by (cases f) (auto simp: search_def enable_def halves)
  qed
qed

text \<open>
  Witness of C33: a bridge whose first function is a controller with its registers at 0xfe000000 and with four error bits in its
  status. The search turns on the two command bits and clears the error bits.
\<close>

theorem find_xhci_first_witness:
  "\<exists>a. run_state (find_xhci_controller demo_bridge) (0, demo_registers) =
     (Some \<lparr>x_bus = 0, x_device = 0, x_function = 0, mmio_base = 0xfe000000\<rparr>, (a, demo_registers(0x80000004 := 0x00100006)))"
proof -
  obtain r h' where run: "run_state (find_xhci_controller demo_bridge) (0, demo_registers) = (r, h')"
    by (rule prod.exhaust)
  have base: "xhci_base demo_registers (0, 0, 0) = Some 0xfe000000"
    by (simp add: xhci_base_def demo_registers_def config_address_def bar_address_def Let_def drop_bit_eq_div bit_iff_odd_drop_bit)
  have "config_address 0 0 0 0x04 = 0x80000004"
    "config_write 0x80000004 (demo_registers 0x80000004 OR 0x06) demo_registers = demo_registers(0x80000004 := 0x00100006)"
    by (simp_all add: config_address_def config_write_def command_status_def demo_registers_def)
  then show ?thesis
    using find_xhci_first [OF demo_bridge_mechanism run, unfolded snd_conv demo_first option.case prod.case] base run
    by (cases h') auto
qed

text \<open>
  A configuration address is valid, and names the bus, the device, the function and the aligned register
  that it was built from: the five fields do not overlap.
\<close>

lemma config_address_fields:
  assumes "device < 32" "function < 8"
  shows "bit (config_address bus device function offset) 31 \<and>
    ucast (drop_bit 16 (config_address bus device function offset)) = bus \<and>
    ucast (drop_bit 11 (config_address bus device function offset) AND 0x1f) = device \<and>
    ucast (drop_bit 8 (config_address bus device function offset) AND 0x07) = function \<and>
    ucast (config_address bus device function offset) = offset AND 0xfc"
proof -
  let ?a = "config_address bus device function offset"
  have top: "n < k" if "unat x < 2 ^ k" "bit x n" for x :: u8 and n k
  proof -
    have "odd (unat x div 2 ^ n)"
      using that(2) by (simp add: bit_unsigned_iff flip: bit_iff_odd)
    then have "(2 :: nat) ^ n < 2 ^ k"
      using that(1) by (metis div_less even_zero leI le_less_trans)
    then show ?thesis by simp
  qed
  have fields: "bit device n \<Longrightarrow> n < 5" "bit function n \<Longrightarrow> n < 3" "bit bus n \<Longrightarrow> n < 8" "bit offset n \<Longrightarrow> n < 8" for n
    using top [of device 5 n] top [of "function" 3 n] assms bit_imp_le_length [of bus n] bit_imp_le_length [of offset n]
    by (simp_all add: word_less_nat_alt)
  have masks: "bit (0x80000000 :: u32) n \<longleftrightarrow> n = 31" "bit (0x1f :: u32) n \<longleftrightarrow> n < 5" "bit (0x07 :: u32) n \<longleftrightarrow> n < 3" for n
    using bit_exp_iff [of 31 n, where 'a = "32 word"] bit_mask_iff [of 5 n, where 'a = "32 word"] bit_mask_iff [of 3 n, where 'a = "32 word"]
    by (auto simp: mask_eq_exp_minus_1)
  have align: "bit (0xfc :: u32) n \<longleftrightarrow> 2 \<le> n \<and> n < 8" "bit (0xfc :: u8) n \<longleftrightarrow> 2 \<le> n \<and> n < 8" for n
  proof -
    have eq: "(0xfc :: u32) = push_bit 2 (mask 6)" "(0xfc :: u8) = push_bit 2 (mask 6)"
      by (simp_all add: mask_eq_exp_minus_1)
    show "bit (0xfc :: u32) n \<longleftrightarrow> 2 \<le> n \<and> n < 8" "bit (0xfc :: u8) n \<longleftrightarrow> 2 \<le> n \<and> n < 8"
      by (simp_all only: eq bit_push_bit_iff bit_mask_iff) auto
  qed
  have no: "5 \<le> n \<Longrightarrow> \<not> bit device n" "3 \<le> n \<Longrightarrow> \<not> bit function n" "8 \<le> n \<Longrightarrow> \<not> bit bus n" "8 \<le> n \<Longrightarrow> \<not> bit offset n" for n
    using fields [of n] by auto
  have shifted: "bit (push_bit 16 (ucast bus :: u32)) n \<longleftrightarrow> 16 \<le> n \<and> bit bus (n - 16)"
    "bit (push_bit 11 (ucast device :: u32)) n \<longleftrightarrow> 11 \<le> n \<and> bit device (n - 11)"
    "bit (push_bit 8 (ucast function :: u32)) n \<longleftrightarrow> 8 \<le> n \<and> bit function (n - 8)"
    for n
    using fields(3) [of "n - 16"] fields(1) [of "n - 11"] fields(2) [of "n - 8"] by (auto simp: bit_simps)
  have register_bits: "bit (ucast offset AND 0xfc :: u32) n \<longleftrightarrow> 2 \<le> n \<and> bit offset n" for n
    using fields(4) [of n] unfolding bit_and_iff align bit_unsigned_iff by auto
  have bits: "bit ?a n \<longleftrightarrow> n = 31 \<or> 16 \<le> n \<and> bit bus (n - 16) \<or> 11 \<le> n \<and> bit device (n - 11) \<or> 8 \<le> n \<and> bit function (n - 8) \<or>
      2 \<le> n \<and> bit offset n" for n
    unfolding config_address_def bit_or_iff masks shifted register_bits by blast
  have "ucast (drop_bit 16 ?a) = bus"
    by (rule bit_word_eqI) (simp add: bit_unsigned_iff bit_drop_bit_eq bits no)
  moreover have "ucast (drop_bit 11 ?a AND 0x1f) = device"
    by (rule bit_word_eqI) (simp only: bit_unsigned_iff bit_and_iff masks bit_drop_bit_eq comp_def bits, auto simp: no dest: fields)
  moreover have "ucast (drop_bit 8 ?a AND 0x07) = function"
    by (rule bit_word_eqI) (simp only: bit_unsigned_iff bit_and_iff masks bit_drop_bit_eq comp_def bits, auto simp: no dest: fields)
  moreover have "ucast ?a = offset AND 0xfc"
    by (rule bit_word_eqI) (simp only: bit_unsigned_iff bit_and_iff align bits, auto simp: no dest: fields)
  ultimately show ?thesis
    using bits [of 31] by simp
qed

end
