(* ===== verification/Kernel.thy ===== *)
theory Kernel
  imports Shell_Correct Memory Interrupts
begin

text \<open>
  The kernel as a whole (\<open>kernel/src/main.rs\<close>): the bring-up in \<open>kernel_main\<close> as the sequence of its actions,
  and the running system, in which timer and keyboard interrupts interleave with the loop of the shell.
\<close>

section \<open>Bring-up\<close>

text \<open>
  What \<open>kernel_main\<close> does, in order. \<open>InitGdt\<close> and \<open>InitIdt\<close> stand for \<open>gdt_init\<close> and \<open>interrupts_init\<close>, \<open>MapHeap\<close> for a
  successful \<open>init_heap\<close>. The other operations run on the devices as they are recorded: \<open>InitSerial\<close> is \<open>serial_init\<close>, \<open>InitFramebuffer\<close>
  is \<open>framebuffer_init\<close>, \<open>InitKeyboard\<close> is \<open>initialize_controller\<close>, \<open>InitHardware\<close> is \<open>initialize_hardware\<close> without its last
  instruction, which is \<open>EnableInterrupts\<close>, and \<open>Output\<close> is a console operation.
\<close>

datatype kernel_action =
    DisableInterrupts
  | EnableInterrupts
  | InitSerial
  | InitFramebuffer
  | InitGdt
  | InitIdt
  | Breakpoint
  | MapHeap
  | InitKeyboard
  | InitHardware
  | Output console_op
  | PanicOutput str

text \<open>
  A panic carries its message where the code gives it one. The state of bring-up is the static \<open>WRITER\<close> of the
  framebuffer and the devices behind the ports; what interrupts do to the devices between two accesses is part of the bus.
\<close>

datatype 'a boot_result = Running 'a | Panicked "str option"

type_synonym 'h boot_state = "fb_writer option \<times> 'h"
type_synonym ('h, 'a) boot = "'h boot_state \<Rightarrow> kernel_action list \<times> ('a \<times> 'h boot_state) boot_result"

definition boot_return :: "'a \<Rightarrow> ('h, 'a) boot" where
  "boot_return x = (\<lambda>s. ([], Running (x, s)))"

definition boot_bind :: "('h, 'a) boot \<Rightarrow> ('a \<Rightarrow> ('h, 'b) boot) \<Rightarrow> ('h, 'b) boot" where
  "boot_bind m f = (\<lambda>s.
     case m s of
       (as, Running (x, s')) \<Rightarrow> (case f x s' of (bs, r) \<Rightarrow> (as @ bs, r))
     | (as, Panicked p) \<Rightarrow> (as, Panicked p))"

definition act :: "kernel_action list \<Rightarrow> ('h, unit) boot" where
  "act as = (\<lambda>s. (as, Running ((), s)))"

definition boot_panic :: "str option \<Rightarrow> ('h, 'a) boot" where
  "boot_panic message = (\<lambda>s. ([], Panicked message))"

text \<open>A driver on the ports, the set-up of the framebuffer, and console operations, which panic where drawing does.\<close>

definition boot_io :: "kernel_action \<Rightarrow> ('h, 'a) state \<Rightarrow> ('h, 'a) boot" where
  "boot_io a m = (\<lambda>(w, h). case run_state m h of (x, h') \<Rightarrow> ([a], Running (x, w, h')))"

definition boot_framebuffer :: "u8 list \<Rightarrow> frame_info \<Rightarrow> ('h, unit) boot" where
  "boot_framebuffer buf i = (\<lambda>(w, h). ([InitFramebuffer], Running ((), framebuffer_init buf i, h)))"

definition boot_op :: "'h bus \<Rightarrow> font \<Rightarrow> console_op \<Rightarrow> ('h, unit) boot" where
  "boot_op b f op = (\<lambda>(w, h).
     case run_state (console_step b f op w) h of
       (Ok w', h') \<Rightarrow> ([Output op], Running ((), w', h'))
     | _ \<Rightarrow> ([Output op], Panicked None))"

fun boot_output :: "'h bus \<Rightarrow> font \<Rightarrow> console_op list \<Rightarrow> ('h, unit) boot" where
  "boot_output b f [] = boot_return ()"
| "boot_output b f (op # ops) = boot_bind (boot_op b f op) (\<lambda>_. boot_output b f ops)"

text \<open>\<open>Option::expect\<close> and \<open>Result::expect\<close>, and calls that may panic themselves.\<close>

definition expect_some :: "string \<Rightarrow> 'a option \<Rightarrow> ('h, 'a) boot" where
  "expect_some message v = (case v of Some x \<Rightarrow> boot_return x | None \<Rightarrow> boot_panic (Some (lit message)))"

definition expect_result :: "string \<Rightarrow> ('e \<Rightarrow> str) \<Rightarrow> ('e, 'a) outcome \<Rightarrow> ('h, 'a) boot" where
  "expect_result message debug v =
     (case v of
        Ok x \<Rightarrow> boot_return x
      | Err e \<Rightarrow> boot_panic (Some (lit (message @ '': '') @ debug e))
      | Panic \<Rightarrow> boot_panic None)"

definition boot_total :: "'a may_panic \<Rightarrow> ('h, 'a) boot" where
  "boot_total v = (case v of Ok x \<Rightarrow> boot_return x | _ \<Rightarrow> boot_panic None)"

definition boot_defined :: "'a option \<Rightarrow> ('h, 'a) boot" where
  "boot_defined v = (case v of Some x \<Rightarrow> boot_return x | None \<Rightarrow> boot_panic None)"

text \<open>
  A file-system call whose closure prints: what it printed precedes the error. The walk only reads the volume, so its prints may follow it.
\<close>

definition expect_printed :: "'h bus \<Rightarrow> font \<Rightarrow> string \<Rightarrow> (console_op list, 'a) fs_run \<Rightarrow> ('h, unit) boot" where
  "expect_printed b f message v =
     (case v of
        Ok (ops, _) \<Rightarrow> boot_output b f ops
      | Err (ops, e) \<Rightarrow> boot_bind (boot_output b f ops) (\<lambda>_. boot_panic (Some (lit (message @ '': '') @ debug_fs_error e)))
      | Panic \<Rightarrow> boot_panic None)"

record 'k boot_info =
  bi_framebuffer :: "(u8 list \<times> frame_info) option"
  bi_ramdisk_addr :: "u64 option"
  bi_ramdisk_len :: u64
  bi_physical_memory_offset :: "u64 option"
  bi_memory_regions :: "'k region list"

datatype fault_test = FaultTestPage | FaultTestGpf | FaultTestDouble

text \<open>
  What bring-up reads from outside: the ports and the font, the parameters of \<open>memory::init\<close> and \<open>init_heap\<close> (\<open>mc_virt_new\<close> is
  \<open>VirtAddr::new\<close>, \<open>None\<close> where it panics), memory, the address the breakpoint handler prints, the requests the three collections
  make of the heap, the counters read after interrupts are enabled, and the fault test selected at compile time.
\<close>

record ('h, 'k, 'f, 'p, 'm, 'e) machine =
  mc_bus :: "'h bus"
  mc_font :: font
  mc_usable :: 'k
  mc_frame_of :: "u64 \<Rightarrow> 'f option"
  mc_page_of :: "u64 \<Rightarrow> 'p"
  mc_pages :: "'p \<Rightarrow> 'p \<Rightarrow> 'p list"
  mc_map_to :: "'p \<Rightarrow> 'f \<Rightarrow> page_flag set \<Rightarrow> 'm \<times> 'k frame_allocator \<Rightarrow> ('e, 'm \<times> 'k frame_allocator) outcome"
  mc_exhausted :: 'e
  mc_debug :: "'e \<Rightarrow> str"
  mc_cr3 :: u64
  mc_virt_new :: "u64 \<Rightarrow> u64 option"
  mc_virt_add :: "u64 \<Rightarrow> u64 \<Rightarrow> u64 option"
  mc_offset_page_table :: "u64 \<Rightarrow> u64 \<Rightarrow> 'm"
  mc_memory :: "u64 \<Rightarrow> u8"
  mc_breakpoint_ip :: str
  mc_layouts :: "layout list"
  mc_ticks :: "u64 \<times> u64"
  mc_dropped :: usize
  mc_fault_test :: "fault_test option"

abbreviation console :: "('h, 'k, 'f, 'p, 'm, 'e) machine \<Rightarrow> console_op list \<Rightarrow> ('h, unit) boot" where
  "console mc \<equiv> boot_output (mc_bus mc) (mc_font mc)"

fun boot_allocate :: "layout list \<Rightarrow> bump \<Rightarrow> ('h, bump) boot" where
  "boot_allocate [] a = boot_return a"
| "boot_allocate (l # ls) a =
     (case alloc (\<lambda>_. False) a l of
        Some (Ok (p, a')) \<Rightarrow> if p = 0 then boot_panic None else boot_allocate ls a'
      | _ \<Rightarrow> boot_panic None)"

definition boot_ls_visitor :: "console_op list dir_visitor" where
  "boot_ls_visitor = (\<lambda>ops e.
     case entry_name e of
       Ok name \<Rightarrow> Some (ops @ [println (lit ''  '' @ ls_line e name)], True)
     | Err (x :: unit) \<Rightarrow> None
     | Panic \<Rightarrow> None)"

definition boot_cat_visitor :: "console_op list byte_visitor" where
  "boot_cat_visitor = (\<lambda>ops bytes.
     Some (ops @ [Print (case from_utf8 bytes of Some t \<Rightarrow> t | None \<Rightarrow> lit ''<non-UTF-8 file data>'')]))"

text \<open>How bring-up ends when it does not panic: a fault test raises its exception, or the shell starts.\<close>

datatype boot_end = Faults fault_test | Shell fat32 system_info bump

definition run_requested_fault_test :: "fault_test option \<Rightarrow> (console_op list \<times> fault_test) option" where
  "run_requested_fault_test t =
     (case t of
        Some FaultTestPage \<Rightarrow> Some ([serial_println (lit ''FAULT_TEST_PAGE_BEGIN'')], FaultTestPage)
      | Some FaultTestGpf \<Rightarrow> Some ([serial_println (lit ''FAULT_TEST_GPF_BEGIN'')], FaultTestGpf)
      | Some FaultTestDouble \<Rightarrow> Some ([serial_println (lit ''FAULT_TEST_DOUBLE_BEGIN'')], FaultTestDouble)
      | None \<Rightarrow> None)"

text \<open>The parts of \<open>kernel_main\<close>: up to the first text on the screen, up to the heap, up to the data volume, and the devices.\<close>

definition boot_screen :: "('h, 'k, 'f, 'p, 'm, 'e) machine \<Rightarrow> 'k boot_info \<Rightarrow> ('h, unit) boot" where
  "boot_screen mc bi =
     boot_bind (act [DisableInterrupts]) (\<lambda>_.
     boot_bind (boot_io InitSerial (serial_init (mc_bus mc))) (\<lambda>_.
     boot_bind (expect_some ''UEFI did not provide a framebuffer'' (bi_framebuffer bi)) (\<lambda>(buf, i).
     boot_bind (boot_framebuffer buf i) (\<lambda>_.
     console mc
       [ClearScreen,
        println (lit ''Hello from kernel''),
        println (lit ''Sol OS: x86_64 UEFI framebuffer online'')]))))"

definition boot_memory :: "('h, 'k, 'f, 'p, 'm, 'e) machine \<Rightarrow> 'k boot_info \<Rightarrow> ('h, 'k frame_allocator \<times> bump) boot" where
  "boot_memory mc bi =
     boot_bind (act [InitGdt, InitIdt, Breakpoint]) (\<lambda>_.
     boot_bind (console mc (breakpoint_handler (mc_breakpoint_ip mc))) (\<lambda>_.
     boot_bind (console mc [println (lit ''GDT/TSS/IDT initialized; breakpoint handler returned'')]) (\<lambda>_.
     boot_bind (expect_some ''bootloader did not map physical memory'' (bi_physical_memory_offset bi)) (\<lambda>physical_memory_offset.
     boot_bind (boot_defined (mc_virt_new mc physical_memory_offset)) (\<lambda>offset.
     boot_bind (boot_defined (memory_init (mc_virt_add mc) (mc_offset_page_table mc) (mc_cr3 mc) offset)) (\<lambda>mapper.
     boot_bind (expect_result ''heap mapping failed'' (mc_debug mc)
       (init_heap (mc_usable mc) (mc_frame_of mc) (mc_page_of mc) (mc_pages mc) (mc_map_to mc) (mc_exhausted mc)
          (mapper, frame_allocator_init (bi_memory_regions bi)) bump_new)) (\<lambda>((mapper, fa), heap).
     boot_bind (act [MapHeap]) (\<lambda>_.
     boot_bind (boot_allocate (mc_layouts mc) heap) (\<lambda>heap.
     boot_return (fa, heap))))))))))"

definition boot_volume :: "('h, 'k, 'f, 'p, 'm, 'e) machine \<Rightarrow> 'k boot_info \<Rightarrow> 'k frame_allocator \<Rightarrow> bump \<Rightarrow> ('h, fat32) boot" where
  "boot_volume mc bi fa heap =
     boot_bind (boot_total (usable_frame_count (mc_usable mc) (mc_frame_of mc) fa)) (\<lambda>count.
     boot_bind (console mc
       [println (lit ''Heap: '' @ decimal (unat (bump_capacity heap div 1024)) @ lit '' KiB mapped, '' @ decimal count @
          lit '' usable frames ('' @ decimal (unat (allocated_frames fa)) @ lit '' consumed); alloc online''),
        serial_println (lit ''SOL_OS_M3_OK vec_len=5 box=42 heap_used='' @ decimal (unat (bump_used heap)))]) (\<lambda>_.
     boot_bind (expect_result ''bootloader did not provide the FAT32 ramdisk'' debug_storage_error
       (from_boot_info (mc_memory mc) (bi_ramdisk_addr bi) (bi_ramdisk_len bi))) (\<lambda>data_device.
     boot_bind (expect_result ''FAT32 mount failed'' debug_fs_error (mount (ram_device data_device))) (\<lambda>fs.
     boot_bind (console mc [println (lit ''FAT32 data volume mounted: '' @ decimal (unat (ram_sector_count data_device)) @
       lit '' sectors, root cluster '' @ decimal (unat (root_cluster fs)))]) (\<lambda>_.
     boot_bind (expect_printed (mc_bus mc) (mc_font mc) ''root directory read failed''
       (list_dir fs (encode_utf8 (lit ''/'')) boot_ls_visitor [])) (\<lambda>_.
     boot_bind (console mc [Print (lit ''HELLO.TXT: '')]) (\<lambda>_.
     boot_bind (expect_printed (mc_bus mc) (mc_font mc) ''HELLO.TXT read failed''
       (read_file fs (encode_utf8 (lit ''HELLO.TXT'')) boot_cat_visitor [])) (\<lambda>_.
     boot_bind (console mc [println [], serial_println (lit ''SOL_OS_M7_OK root_and_hello_read'')]) (\<lambda>_.
     boot_return fs)))))))))"

definition boot_setup :: "('h, 'k, 'f, 'p, 'm, 'e) machine \<Rightarrow> 'k boot_info \<Rightarrow> ('h, 'k frame_allocator \<times> bump \<times> fat32) boot" where
  "boot_setup mc bi =
     boot_bind (boot_screen mc bi) (\<lambda>_.
     boot_bind (boot_memory mc bi) (\<lambda>(fa, heap).
     boot_bind (boot_volume mc bi fa heap) (\<lambda>fs.
     boot_return (fa, heap, fs))))"

definition debug_bool :: "bool \<Rightarrow> str" where
  "debug_bool b = (if b then lit ''true'' else lit ''false'')"

definition boot_devices :: "('h, 'k, 'f, 'p, 'm, 'e) machine \<Rightarrow> ('h, unit) boot" where
  "boot_devices mc =
     boot_bind (boot_io InitKeyboard (initialize_controller (mc_bus mc))) (\<lambda>ps2_configured.
     boot_bind (boot_io InitHardware (initialize_hardware (mc_bus mc))) (\<lambda>_.
     boot_bind (act [EnableInterrupts]) (\<lambda>_.
     console mc
       [println (lit ''PIT and PS/2 IRQ1 enabled; keyboard input will echo below.''),
        serial_println (lit ''SOL_OS_M4_READY ps2_set1='' @ debug_bool ps2_configured @
          lit '' ticks='' @ decimal (unat (ticks (fst (mc_ticks mc)))) @
          lit '' uptime='' @ decimal (unat (uptime_seconds (snd (mc_ticks mc)))) @
          lit '' dropped='' @ decimal (unat (mc_dropped mc)))])))"

definition kernel_main :: "('h, 'k, 'f, 'p, 'm, 'e) machine \<Rightarrow> 'k boot_info \<Rightarrow> ('h, boot_end) boot" where
  "kernel_main mc bi =
     boot_bind (boot_setup mc bi) (\<lambda>(fa, heap, fs).
     case run_requested_fault_test (mc_fault_test mc) of
       Some (ops, t) \<Rightarrow> boot_bind (console mc ops) (\<lambda>_. boot_return (Faults t))
     | None \<Rightarrow>
         boot_bind (boot_devices mc) (\<lambda>_.
         boot_bind (boot_total (usable_frame_count (mc_usable mc) (mc_frame_of mc) fa)) (\<lambda>count.
         boot_return (Shell fs \<lparr>usable_frame_total = of_nat count, frames_consumed_at_boot = allocated_frames fa\<rparr> heap))))"

text \<open>The panic handler, before the processor halts for good; \<open>message\<close> is the rendering of the panic.\<close>

definition panic_handler :: "str \<Rightarrow> kernel_action list" where
  "panic_handler message =
     [DisableInterrupts,
      Output (serial_println (lit ''KERNEL PANIC: '' @ message)),
      PanicOutput (0x0a # lit ''KERNEL PANIC: '' @ message @ [0x0a])]"

section \<open>The running system\<close>

text \<open>
  The shell's loop polls the queue, and when it is empty executes \<open>sti; hlt\<close>: \<open>Deciding\<close> is the moment
  between the two, \<open>Waiting\<close> the halted processor, which the next interrupt resumes.
\<close>

datatype shell_phase = Polling | Deciding | Waiting

record kernel =
  k_ticks :: u64
  k_kbd :: kbd
  k_editor :: editor
  k_output :: "console_op list"
  k_phase :: shell_phase
  k_end :: command_end
  k_system :: system_info
  k_heap :: bump

definition kernel_new :: "system_info \<Rightarrow> bump \<Rightarrow> kernel" where
  "kernel_new system heap = \<lparr>k_ticks = 0, k_kbd = kbd_new, k_editor = editor_new, k_output = greeting, k_phase = Polling,
     k_end = Continue, k_system = system, k_heap = heap\<rparr>"

text \<open>
  The interrupts, and a step of the shell: one poll of the queue with the handling of the event it gives. The number
  is of the timer interrupts that arrive between the two readings of the counter by \<open>uptime\<close>.
\<close>

datatype kernel_label = TimerIrq | KeyboardIrq u8 | ShellStep nat

definition resume :: "shell_phase \<Rightarrow> shell_phase" where
  "resume p = (if p = Waiting then Polling else p)"

definition reading :: "kernel \<Rightarrow> nat \<Rightarrow> shell_env" where
  "reading s n = \<lparr>env_system = k_system s, env_heap = k_heap s, env_ticks = (k_ticks s, (tick ^^ n) (k_ticks s))\<rparr>"

fun kernel_event :: "fat32 \<Rightarrow> kernel_label \<Rightarrow> kernel \<Rightarrow> kernel may_panic" where
  "kernel_event fs TimerIrq s = Ok (s\<lparr>k_ticks := tick (k_ticks s), k_phase := resume (k_phase s)\<rparr>)"
| "kernel_event fs (KeyboardIrq scancode) s =
     obind (handle_scancode (k_kbd s) scancode) (\<lambda>k. Ok (s\<lparr>k_kbd := k, k_phase := resume (k_phase s)\<rparr>))"
| "kernel_event fs (ShellStep n) s =
     (case k_phase s of
        Polling \<Rightarrow>
          obind (next_event (k_kbd s)) (\<lambda>(event, k).
          case event of
            None \<Rightarrow> Ok (s\<lparr>k_kbd := k, k_phase := Deciding\<rparr>)
          | Some ev \<Rightarrow>
              obind (shell_event fs (reading s n) ev (k_editor s)) (\<lambda>(ops, e, ending).
              Ok (s\<lparr>k_kbd := k, k_editor := e, k_output := k_output s @ ops, k_end := ending,
                k_ticks := (tick ^^ n) (k_ticks s)\<rparr>)))
      | Deciding \<Rightarrow> Ok (s\<lparr>k_phase := Waiting\<rparr>)
      | Waiting \<Rightarrow> Ok s)"

text \<open>A command that stops the machine disables interrupts, so nothing happens after it.\<close>

fun kernel_exec :: "fat32 \<Rightarrow> kernel_label list \<Rightarrow> kernel \<Rightarrow> kernel may_panic" where
  "kernel_exec fs [] s = Ok s"
| "kernel_exec fs (l # ls) s =
     (if k_end s = Continue then obind (kernel_event fs l s) (kernel_exec fs ls) else Ok s)"

end
