(* ===== verification/Kernel_Correct.thy ===== *)
theory Kernel_Correct
  imports Kernel
begin

text \<open>
  Correctness of the running system: it never panics, prints the session of the
  keys decoded from the scancodes in the order they came, and every queued key is
  eventually handled.
\<close>

section \<open>The running system\<close>

text \<open>The keys a run of the keyboard handed to the shell, and the scancodes it was fed.\<close>

definition taken :: "key_event option list \<Rightarrow> key_event list" where
  "taken rs = map the (filter (\<lambda>r. r \<noteq> None) rs)"

fun scans :: "kbd_op list \<Rightarrow> u8 list" where
  "scans [] = []"
| "scans (Scan c # ops) = c # scans ops"
| "scans (Next # ops) = scans ops"

fun scancodes :: "kernel_label list \<Rightarrow> u8 list" where
  "scancodes [] = []"
| "scancodes (KeyboardIrq c # ls) = c # scancodes ls"
| "scancodes (TimerIrq # ls) = scancodes ls"
| "scancodes (ShellStep n # ls) = scancodes ls"

lemma taken_simps [simp]: "taken [] = []" "taken (None # rs) = taken rs" "taken (Some x # rs) = x # taken rs"
  by (simp_all add: taken_def)

lemma next_event_cases:
  assumes "queue_ok (queue k)"
  obtains "queue_contents (queue k) = []" "next_event k = Ok (None, k)"
    | x q where "queue_contents (queue k) = x # queue_contents q" "queue_ok q" "next_event k = Ok (Some x, k\<lparr>queue := q\<rparr>)"
proof (cases "queue_contents (queue k)")
  case Nil
  then show ?thesis
    using that(1) kbdq.deq_empty [OF assms] by (simp add: next_event_def)
next
  case (Cons x xs)
  then obtain q where "queue_pop (queue k) = Ok (Some x, q)" "queue_ok q" "queue_contents q = xs"
    using kbdq.deq_front [OF assms] by blast
  then show ?thesis
    using that(2) [of x q] Cons by (simp add: next_event_def)
qed


text \<open>The effect of one event on the shell, and what it means for a session.\<close>

lemma shell_event_sim:
  assumes "volume_ok fs" "edits e l"
  obtains ops e' l' ending where "shell_event fs env ev e = Ok (ops, e', ending)" "edits e' l'"
    "\<And>evs. session fs ((ev, env) # evs) l =
       (if ending = Continue then (ops @ fst (session fs evs l'), snd (session fs evs l')) else (ops, l', ending))"
proof (cases "ev = Enter")
  case True
  obtain e' where sub: "submit e = Ok (line_of l, e')" "edits e' (snd (enter_step l))"
    using submit_sim [OF assms(2)] by metis
  obtain ops ending where exe: "execute fs env (line_of l) = Ok (ops, ending)"
    using execute_total [OF assms(1)] unfolding finishes_def by metis
  show ?thesis
    using that [of "println [] # ops @ (if ending = Continue then prompt else [])" e' ending "snd (enter_step l)"] True sub exe
    by (cases ending) (simp_all add: shell_event_def case_prod_beta)
next
  case False
  obtain e' where "edit_event ev e = Ok (fst (key_step ev l), e')" "edits e' (snd (key_step ev l))"
    using edit_event_sim [OF assms(2) False] by (auto simp: sim_def)
  then show ?thesis
    using that [of "fst (key_step ev l)" e' Continue "snd (key_step ev l)"] False by (simp add: shell_event_def case_prod_beta)
qed

abbreviation decoded :: "kbd \<Rightarrow> kbd_op list \<Rightarrow> key_event option list \<times> key_event list" where
  "decoded k ops \<equiv> fifo_run 255 (decode_ops (shift_on k) (caps_on k) (extended_prefix k) ops) (queue_contents (queue k))"

lemma decoded_Next:
  "queue_contents (queue k) = [] \<Longrightarrow> decoded k (Next # ops) = (None # fst (decoded k ops), snd (decoded k ops))"
  "queue_contents (queue k) = x # queue_contents q \<Longrightarrow>
   decoded k (Next # ops) = (Some x # fst (decoded (k\<lparr>queue := q\<rparr>) ops), snd (decoded (k\<lparr>queue := q\<rparr>) ops))"
  by (simp_all add: case_prod_beta Let_def shift_on_def caps_on_def)

lemma scancode_decoded:
  assumes "queue_ok (queue k)"
  obtains k' where "handle_scancode k c = Ok k'" "queue_ok (queue k')" "\<And>ops. decoded k (Scan c # ops) = decoded k' ops"
proof -
  obtain k' where "handle_scancode k c = Ok k'" "queue_ok (queue k')"
    using handle_scancode_refines [OF assms] by metis
  moreover from this have "decoded k (Scan c # ops) = decoded k' ops" for ops
    using handle_scancode_refines [OF assms, of c ops] by (metis outcome.inject(1))
  ultimately show thesis
    by (rule that)
qed

definition kernel_ok :: "kernel \<Rightarrow> line_state \<Rightarrow> bool" where
  "kernel_ok s l \<longleftrightarrow> queue_ok (queue (k_kbd s)) \<and> edits (k_editor s) l"

text \<open>What a run from one state to another amounts to: the events taken, and the accesses of the keyboard.\<close>

definition runs_to :: "fat32 \<Rightarrow> kernel \<Rightarrow> line_state \<Rightarrow> kernel_label list \<Rightarrow> kernel \<Rightarrow> (key_event \<times> shell_env) list \<Rightarrow> kbd_op list \<Rightarrow> bool" where
  "runs_to fs s l ls s' evs ops \<longleftrightarrow>
     kernel_exec fs ls s = Ok s' \<and> kernel_ok s' (fst (snd (session fs evs l))) \<and>
     k_output s' = k_output s @ fst (session fs evs l) \<and> k_end s' = snd (snd (session fs evs l)) \<and>
     map fst evs = taken (fst (decoded (k_kbd s) ops)) \<and>
     queue_contents (queue (k_kbd s')) = snd (decoded (k_kbd s) ops) \<and>
     (\<exists>rest. scancodes ls = scans ops @ rest \<and> (k_end s' = Continue \<longrightarrow> rest = []))"

lemma runs_silent:
  assumes "runs_to fs s1 l ls s' evs ops" "kernel_event fs lb s = Ok s1" "k_end s = Continue"
    "k_kbd s1 = k_kbd s" "k_output s1 = k_output s" "scancodes (lb # ls) = scancodes ls"
  shows "runs_to fs s l (lb # ls) s' evs ops"
  using assms by (auto simp: runs_to_def)

lemma runs_scan:
  assumes "runs_to fs s1 l ls s' evs ops" "handle_scancode (k_kbd s) c = Ok (k_kbd s1)" "k_end s = Continue"
    "decoded (k_kbd s) (Scan c # ops) = decoded (k_kbd s1) ops" "s1 = s\<lparr>k_kbd := k_kbd s1, k_phase := resume (k_phase s)\<rparr>"
  shows "runs_to fs s l (KeyboardIrq c # ls) s' evs (Scan c # ops)"
proof -
  have "kernel_event fs (KeyboardIrq c) s = Ok s1"
    using assms(2,5) by simp
  moreover have "k_output s1 = k_output s"
    using assms(5) by (metis kernel.select_convs(4) kernel.surjective kernel.update_convs(2) kernel.update_convs(5))
  ultimately show ?thesis
    using assms(1,3,4) by (auto simp: runs_to_def simp del: decode_ops.simps)
qed

lemma runs_key:
  assumes fs: "volume_ok fs" and s: "kernel_ok s l" "k_end s = Continue" "k_phase s = Polling"
    and x: "queue_contents (queue (k_kbd s)) = x # queue_contents q'" "queue_ok q'"
      "next_event (k_kbd s) = Ok (Some x, k_kbd s\<lparr>queue := q'\<rparr>)"
    and IH: "\<And>s1 l1. kernel_ok s1 l1 \<Longrightarrow> k_end s1 = Continue \<Longrightarrow> \<exists>s' evs ops. runs_to fs s1 l1 ls s' evs ops"
  shows "\<exists>s' evs ops. runs_to fs s l (ShellStep n # ls) s' evs ops"
proof -
  have e: "edits (k_editor s) l"
    using s(1) by (simp add: kernel_ok_def)
  let ?k = "k_kbd s\<lparr>queue := q'\<rparr>" and ?env = "reading s n"
  obtain ops e' l' ending where sh: "shell_event fs ?env x (k_editor s) = Ok (ops, e', ending)" "edits e' l'"
    "\<And>evs. session fs ((x, ?env) # evs) l =
       (if ending = Continue then (ops @ fst (session fs evs l'), snd (session fs evs l')) else (ops, l', ending))"
    by (rule shell_event_sim [OF fs e, where env = ?env and ev = x]) (rule that)
  let ?s = "s\<lparr>k_kbd := ?k, k_editor := e', k_output := k_output s @ ops, k_end := ending, k_ticks := (tick ^^ n) (k_ticks s)\<rparr>"
  have step: "kernel_event fs (ShellStep n) s = Ok ?s"
    using s(3) x(3) sh(1) by simp
  show ?thesis
  proof (cases "ending = Continue")
    case True
    then obtain s' evs kops where "runs_to fs ?s l' ls s' evs kops"
      using IH [of ?s l'] x(2) sh(2) by (auto simp: kernel_ok_def)
    then have "runs_to fs s l (ShellStep n # ls) s' ((x, ?env) # evs) (Next # kops)"
      using True step s(2) sh(3) decoded_Next(2) [OF x(1)] by (auto simp: runs_to_def simp del: decode_ops.simps kernel_event.simps)
    then show ?thesis by blast
  next
    case False
    then have "kernel_exec fs ls ?s = Ok ?s"
      by (cases ls) simp_all
    then have "runs_to fs s l (ShellStep n # ls) ?s [(x, ?env)] [Next]"
      using False step s(2) sh(2) sh(3) [of "[]"] decoded_Next(2) [OF x(1), of "[]"] x(2)
      by (auto simp: runs_to_def kernel_ok_def simp del: kernel_event.simps)
    then show ?thesis by blast
  qed
qed

lemma runs_step:
  assumes fs: "volume_ok fs" and s: "kernel_ok s l" "k_end s = Continue"
    and IH: "\<And>s1 l1. kernel_ok s1 l1 \<Longrightarrow> k_end s1 = Continue \<Longrightarrow> \<exists>s' evs ops. runs_to fs s1 l1 ls s' evs ops"
  shows "\<exists>s' evs ops. runs_to fs s l (ShellStep n # ls) s' evs ops"
proof (cases "k_phase s = Polling")
  case False
  let ?s = "s\<lparr>k_phase := Waiting\<rparr>"
  have "k_phase s = Waiting \<Longrightarrow> ?s = s"
    by (cases s) simp
  then have "kernel_event fs (ShellStep n) s = Ok ?s"
    using False by (cases "k_phase s") simp_all
  moreover obtain s' evs ops where "runs_to fs ?s l ls s' evs ops"
    using IH [of ?s l] s by (auto simp: kernel_ok_def)
  ultimately show ?thesis
    using runs_silent [of fs ?s l ls s' evs ops "ShellStep n" s] s(2) by auto
next
  case True
  have q: "queue_ok (queue (k_kbd s))"
    using s(1) by (simp add: kernel_ok_def)
  show ?thesis
  proof (rule next_event_cases [OF q])
    assume "queue_contents (queue (k_kbd s)) = []" and none: "next_event (k_kbd s) = Ok (None, k_kbd s)"
    let ?s = "s\<lparr>k_kbd := k_kbd s, k_phase := Deciding\<rparr>"
    have "kernel_event fs (ShellStep n) s = Ok ?s"
      using True none by simp
    moreover obtain s' evs ops where "runs_to fs ?s l ls s' evs ops"
      using IH [of ?s l] s by (auto simp: kernel_ok_def)
    ultimately show ?thesis
      using runs_silent [of fs ?s l ls s' evs ops "ShellStep n" s] s(2) by auto
  next
    fix x q'
    assume x: "queue_contents (queue (k_kbd s)) = x # queue_contents q'" "queue_ok q'"
      "next_event (k_kbd s) = Ok (Some x, k_kbd s\<lparr>queue := q'\<rparr>)"
    show ?thesis
      by (rule runs_key [OF fs s True x IH])
  qed
qed

lemma kernel_exec_runs:
  assumes "volume_ok fs" "kernel_ok s l" "k_end s = Continue"
  shows "\<exists>s' evs ops. runs_to fs s l ls s' evs ops"
  using assms(2,3)
proof (induction ls arbitrary: s l)
  case Nil
  then show ?case
    by (intro exI [of _ s] exI [of _ "[]"]) (simp add: runs_to_def)
next
  case (Cons lb ls)
  show ?case
  proof (cases lb)
    case TimerIrq
    let ?s = "s\<lparr>k_ticks := tick (k_ticks s), k_phase := resume (k_phase s)\<rparr>"
    obtain s' evs ops where "runs_to fs ?s l ls s' evs ops"
      using Cons.IH [of ?s l] Cons.prems by (auto simp: kernel_ok_def)
    then show ?thesis
      using runs_silent [of fs ?s l ls s' evs ops TimerIrq s] Cons.prems(2) TimerIrq by auto
  next
    case (KeyboardIrq c)
    obtain k where k: "handle_scancode (k_kbd s) c = Ok k" "queue_ok (queue k)" "\<And>ops. decoded (k_kbd s) (Scan c # ops) = decoded k ops"
      using scancode_decoded Cons.prems(1) unfolding kernel_ok_def by metis
    let ?s = "s\<lparr>k_kbd := k, k_phase := resume (k_phase s)\<rparr>"
    obtain s' evs ops where "runs_to fs ?s l ls s' evs ops"
      using Cons.IH [of ?s l] Cons.prems k(2) by (auto simp: kernel_ok_def)
    then show ?thesis
      using runs_scan [of fs ?s l ls s' evs ops s c] Cons.prems(2) k KeyboardIrq by auto
  next
    case (ShellStep n)
    then show ?thesis
      using runs_step [OF assms(1) Cons.prems Cons.IH] by blast
  qed
qed

section \<open>Keys are printable\<close>

lemma extended_no_character: "extended_event_for_set_1 c \<noteq> Some (Character b)"
proof -
  have "list_all (\<lambda>(_, e). \<forall>b. e \<noteq> Character b) extended_keys"
    by (simp add: extended_keys_def)
  then show ?thesis
    using table_entry by (fastforce simp: extended_event_for_set_1_def)
qed

lemma ascii_printable:
  assumes "ascii_for_set_1 c shift caps = Some (Character b)"
  shows "printable b"
proof -
  have letter: "printable b" if "letter_for_set_1 c u = Some (Character b)" for u
    using letter_event [OF that] by (auto simp: printable_def word_le_nat_alt split: if_splits)
  show ?thesis
    using assms letter table_entry [OF _ table_printable(1), of c]
    by (auto simp: ascii_for_set_1_def printable_def split: if_splits option.splits)
qed

lemma decode_printable:
  "Enq (Character b) \<in> set (decode_ops shift caps ext ops) \<Longrightarrow> printable b"
  by (induction shift caps ext ops rule: decode_ops.induct)
    (auto simp: enq_event_def extended_no_character ascii_printable dest: sym [of "Some _"] split: if_splits option.splits)

lemma fifo_run_source:
  "set (taken (fst (fifo_run cap ops xs))) \<subseteq> set xs \<union> {e. Enq e \<in> set ops}"
  by (induction cap ops xs rule: fifo_run.induct) (fastforce split: list.splits if_splits prod.splits)+

section \<open>Draining the queue\<close>

text \<open>A step that takes no key only changes the phase.\<close>

lemma idle_step:
  assumes "queue_ok (queue (k_kbd s))" "queue_contents (queue (k_kbd s)) = [] \<or> k_phase s \<noteq> Polling"
  shows "kernel_event fs (ShellStep n) s = Ok (s\<lparr>k_phase := if k_phase s = Polling then Deciding else Waiting\<rparr>)"
proof (cases "k_phase s")
  case Polling
  then have "next_event (k_kbd s) = Ok (None, k_kbd s)"
    using assms by (cases rule: next_event_cases [OF assms(1)]) simp_all
  moreover have "s\<lparr>k_kbd := k_kbd s, k_phase := Deciding\<rparr> = s\<lparr>k_phase := Deciding\<rparr>"
    by (cases s) simp
  ultimately show ?thesis
    using Polling by simp
next
  case Waiting
  moreover from this have "s\<lparr>k_phase := Waiting\<rparr> = s"
    by (cases s) simp
  ultimately show ?thesis by simp
qed simp

text \<open>One poll of a queue that is not empty takes its first key.\<close>

lemma poll_takes:
  assumes fs: "volume_ok fs" and s: "kernel_ok s l" and q: "queue_contents (queue (k_kbd s)) \<noteq> []" and p: "k_phase s = Polling"
  obtains s' l' where "kernel_event fs (ShellStep n) s = Ok s'" "kernel_ok s' l'" "k_phase s' = Polling"
    "queue_contents (queue (k_kbd s')) = tl (queue_contents (queue (k_kbd s)))"
proof -
  have ok: "queue_ok (queue (k_kbd s))" and e: "edits (k_editor s) l"
    using s by (simp_all add: kernel_ok_def)
  show thesis
  proof (rule next_event_cases [OF ok])
    fix x q'
    assume x: "queue_contents (queue (k_kbd s)) = x # queue_contents q'" "queue_ok q'"
      "next_event (k_kbd s) = Ok (Some x, k_kbd s\<lparr>queue := q'\<rparr>)"
    obtain ops e' ending l' where sh: "shell_event fs (reading s n) x (k_editor s) = Ok (ops, e', ending)" "edits e' l'"
      by (rule shell_event_sim [OF fs e]) (rule that)
    let ?s = "s\<lparr>k_kbd := k_kbd s\<lparr>queue := q'\<rparr>, k_editor := e', k_output := k_output s @ ops, k_end := ending,
      k_ticks := (tick ^^ n) (k_ticks s)\<rparr>"
    have "kernel_event fs (ShellStep n) s = Ok ?s"
      using p x(3) sh(1) by simp
    then show thesis
      using that [of ?s l'] p x sh(2) by (simp add: kernel_ok_def)
  qed (use q in simp)
qed

lemma drains:
  assumes "volume_ok fs"
  shows "kernel_ok s l \<Longrightarrow> length (queue_contents (queue (k_kbd s))) \<le> m \<Longrightarrow>
    k_phase s = Polling \<or> queue_contents (queue (k_kbd s)) = [] \<Longrightarrow>
    \<exists>s'. kernel_exec fs (replicate m (ShellStep n)) s = Ok s' \<and> (k_end s' \<noteq> Continue \<or> queue_contents (queue (k_kbd s')) = [])"
proof (induction m arbitrary: s l)
  case 0
  then show ?case by simp
next
  case (Suc m)
  show ?case
  proof (cases "queue_contents (queue (k_kbd s)) = []")
    case True
    have "queue_ok (queue (k_kbd s))"
      using Suc.prems(1) by (simp add: kernel_ok_def)
    then obtain p where p: "kernel_event fs (ShellStep n) s = Ok (s\<lparr>k_phase := p\<rparr>)"
      using idle_step True by blast
    have "\<exists>s'. kernel_exec fs (replicate m (ShellStep n)) (s\<lparr>k_phase := p\<rparr>) = Ok s' \<and>
        (k_end s' \<noteq> Continue \<or> queue_contents (queue (k_kbd s')) = [])"
      using Suc.prems(1) True by (intro Suc.IH [of _ l]) (simp_all add: kernel_ok_def)
    with p show ?thesis
      by (simp del: kernel_event.simps)
  next
    case False
    then obtain s1 l1 where s1: "kernel_event fs (ShellStep n) s = Ok s1" "kernel_ok s1 l1" "k_phase s1 = Polling"
      "queue_contents (queue (k_kbd s1)) = tl (queue_contents (queue (k_kbd s)))"
      using poll_takes [OF assms Suc.prems(1) False] Suc.prems(3) by metis
    have "\<exists>s'. kernel_exec fs (replicate m (ShellStep n)) s1 = Ok s' \<and>
        (k_end s' \<noteq> Continue \<or> queue_contents (queue (k_kbd s')) = [])"
      using Suc.prems(2) s1 by (intro Suc.IH [of _ l1]) simp_all
    with s1(1) show ?thesis
      by (simp del: kernel_event.simps)
  qed
qed

text \<open>A halted processor, or one about to halt, is polling again after the next timer interrupt.\<close>

lemma timer_resumes:
  assumes fs: "volume_ok fs" and s: "kernel_ok s l" "k_end s = Continue"
  shows "\<exists>s1. kernel_event fs (ShellStep n) s = Ok s1 \<and>
    (k_end s1 \<noteq> Continue \<or> (\<exists>s2 l2. kernel_event fs TimerIrq s1 = Ok s2 \<and> kernel_ok s2 l2 \<and>
       length (queue_contents (queue (k_kbd s2))) \<le> length (queue_contents (queue (k_kbd s))) \<and>
       (k_phase s2 = Polling \<or> queue_contents (queue (k_kbd s2)) = [])))"
proof (cases "queue_contents (queue (k_kbd s)) = [] \<or> k_phase s \<noteq> Polling")
  case True
  then show ?thesis
    using idle_step [of s fs n] s(1) by (auto simp: kernel_ok_def resume_def simp del: kernel_event.simps(3))
next
  case False
  then obtain s1 l1 where "kernel_event fs (ShellStep n) s = Ok s1" "kernel_ok s1 l1" "k_phase s1 = Polling"
    "queue_contents (queue (k_kbd s1)) = tl (queue_contents (queue (k_kbd s)))"
    using poll_takes [OF fs s(1), of n] by blast
  then show ?thesis
    by (auto simp: kernel_ok_def resume_def simp del: kernel_event.simps(3))
qed

section \<open>The halt\<close>

text \<open>
  The interrupt flag is set while the loop polls, so a key can arrive between the poll that found
  the queue empty and the halt: the processor then sleeps with a key in the queue, until the next interrupt.
\<close>

lemma kernel_new_ok: "kernel_ok (kernel_new system heap) line_new"
  using queue_new_ok edits_new by (simp add: kernel_ok_def kernel_new_def kbd_new_def)

lemma kernel_new_flags:
  "shift_on (k_kbd (kernel_new system heap)) = False" "caps_on (k_kbd (kernel_new system heap)) = False"
  "extended_prefix (k_kbd (kernel_new system heap)) = False" "queue_contents (queue (k_kbd (kernel_new system heap))) = []"
  "k_end (kernel_new system heap) = Continue" "k_output (kernel_new system heap) = greeting"
  using queue_new_ok by (simp_all add: kernel_new_def kbd_new_def shift_on_def caps_on_def)

lemma halts_with_a_key:
  "\<exists>s. kernel_exec fs [ShellStep 0, KeyboardIrq 0x1e, ShellStep 0] (kernel_new system heap) = Ok s \<and>
     k_phase s = Waiting \<and> k_end s = Continue \<and> queue_contents (queue (k_kbd s)) = [Character 0x61]"
proof -
  let ?s = "kernel_new system heap"
  have first: "kernel_event fs (ShellStep 0) ?s = Ok (?s\<lparr>k_phase := Deciding\<rparr>)"
    using idle_step [of ?s fs 0] kernel_new_ok kernel_new_flags by (simp add: kernel_ok_def kernel_new_def del: kernel_event.simps)
  obtain k where k: "handle_scancode (k_kbd ?s) 0x1e = Ok k" "queue_ok (queue k)" "\<And>ops. decoded (k_kbd ?s) (Scan 0x1e # ops) = decoded k ops"
    using scancode_decoded kernel_new_ok unfolding kernel_ok_def by metis
  have "snd (decoded (k_kbd ?s) [Scan 0x1e]) = [Character 0x61]"
    unfolding kernel_new_flags by (simp add: ascii_for_set_1_def symbol_keys_def letter_for_set_1_def letter_keys_def enq_event_def)
  then have "queue_contents (queue k) = [Character 0x61]"
    unfolding k(3) by simp
  then show ?thesis
    using first k(1) kernel_new_flags(5) by (simp add: resume_def del: kernel_event.simps(3)) (simp add: kernel_new_def)
qed

section \<open>Properties of the running system\<close>

text \<open>
  C3. However timer interrupts, keyboard interrupts and the steps of the shell interleave, the kernel never
  panics. What it has printed is the session of the keys the shell took; those are the keys decoded from the received
  scancodes, in order, as a queue of 255 hands them out; and the line being edited is printable ASCII. Until
  a command stops the machine, every scancode received has been decoded.
\<close>

theorem kernel_refines:
  assumes "ram_ok d" "mount (ram_device d) = Ok fs"
  shows "\<exists>s evs ops. kernel_exec fs ls (kernel_new system heap) = Ok s \<and>
    k_output s = greeting @ fst (session fs evs line_new) \<and> k_end s = snd (snd (session fs evs line_new)) \<and>
    map fst evs = taken (fst (fifo_run 255 (decode_ops False False False ops) [])) \<and>
    (\<exists>rest. scancodes ls = scans ops @ rest \<and> (k_end s = Continue \<longrightarrow> rest = [])) \<and>
    list_all printable (take (e_length (k_editor s)) (e_line (k_editor s)))"
proof -
  have ok: "volume_ok fs"
    using ram.mount_ok [OF assms] by blast
  obtain s evs ops where run: "runs_to fs (kernel_new system heap) line_new ls s evs ops"
    using kernel_exec_runs [OF ok kernel_new_ok, of system heap ls] by (auto simp: kernel_new_flags)
  note facts = run [unfolded runs_to_def kernel_new_flags]
  let ?l = "fst (snd (session fs evs line_new))"
  have "printable b" if "(Character b, env) \<in> set evs" for b env
  proof -
    have "Character b \<in> set (taken (fst (fifo_run 255 (decode_ops False False False ops) [])))"
      using facts that by (metis image_eqI fst_conv list.set_map)
    then show ?thesis
      using fifo_run_source [of 255 "decode_ops False False False ops" "[]"] decode_printable by auto
  qed
  then have "list_all (\<lambda>(ev, env). \<forall>b. ev = Character b \<longrightarrow> printable b) evs"
    by (auto simp: list_all_iff)
  then have "list_all printable (line_of ?l)"
    using session_printable [OF ok edits_new line_printable_new] by (simp add: line_printable_def)
  moreover have "take (e_length (k_editor s)) (e_line (k_editor s)) = line_of ?l"
    using facts by (intro edits_line) (simp add: kernel_ok_def)
  ultimately have "list_all printable (take (e_length (k_editor s)) (e_line (k_editor s)))"
    by simp
  then show ?thesis
    using facts by blast
qed

text \<open>Witness of C3: a timer interrupt, the key \<open>a\<close> and a step of the shell.\<close>

theorem kernel_refines_witness:
  "\<exists>s. kernel_exec demo_fs [TimerIrq, KeyboardIrq 0x1e, ShellStep 0] (kernel_new (env_system demo_env) (env_heap demo_env)) = Ok s \<and>
     list_all printable (take (e_length (k_editor s)) (e_line (k_editor s)))"
  using kernel_refines [OF demo_disk_ok demo_mount, of "[TimerIrq, KeyboardIrq 0x1e, ShellStep 0]" "env_system demo_env" "env_heap demo_env"]
  by blast

text \<open>
  C10. Every key in the queue is handled: from any reachable state, even one in which the processor has halted with keys
  waiting, a step of the shell, one timer interrupt, and as many further steps as there are keys leave the queue
  empty, unless one of the keys ran a command that stops the machine.
\<close>

theorem queued_keys_handled:
  assumes "ram_ok d" "mount (ram_device d) = Ok fs"
    and "kernel_exec fs ls (kernel_new system heap) = Ok s" "k_end s = Continue"
  shows "\<exists>s'. kernel_exec fs (ShellStep n # TimerIrq # replicate (length (queue_contents (queue (k_kbd s)))) (ShellStep n)) s = Ok s' \<and>
    (k_end s' \<noteq> Continue \<or> queue_contents (queue (k_kbd s')) = [])"
proof -
  have ok: "volume_ok fs"
    using ram.mount_ok [OF assms(1,2)] by blast
  obtain evs ops where "runs_to fs (kernel_new system heap) line_new ls s evs ops"
    using kernel_exec_runs [OF ok kernel_new_ok, of system heap ls] assms(3) by (auto simp: kernel_new_flags runs_to_def)
  then obtain l where l: "kernel_ok s l"
    unfolding runs_to_def by blast
  obtain s1 where s1: "kernel_event fs (ShellStep n) s = Ok s1"
    "k_end s1 \<noteq> Continue \<or> (\<exists>s2 l2. kernel_event fs TimerIrq s1 = Ok s2 \<and> kernel_ok s2 l2 \<and>
       length (queue_contents (queue (k_kbd s2))) \<le> length (queue_contents (queue (k_kbd s))) \<and>
       (k_phase s2 = Polling \<or> queue_contents (queue (k_kbd s2)) = []))"
    using timer_resumes [OF ok l assms(4)] by blast
  then show ?thesis
    using assms(4) drains [OF ok] by (fastforce simp del: kernel_event.simps)
qed

text \<open>Witness of C10: the key that arrived just before the halt.\<close>

theorem queued_keys_handled_witness:
  "\<exists>s s'. kernel_exec demo_fs [ShellStep 0, KeyboardIrq 0x1e, ShellStep 0] (kernel_new (env_system demo_env) (env_heap demo_env)) = Ok s \<and>
     k_phase s = Waiting \<and> queue_contents (queue (k_kbd s)) = [Character 0x61] \<and>
     kernel_exec demo_fs [ShellStep 0, TimerIrq, ShellStep 0] s = Ok s' \<and>
     (k_end s' \<noteq> Continue \<or> queue_contents (queue (k_kbd s')) = [])"
proof -
  obtain s where s: "kernel_exec demo_fs [ShellStep 0, KeyboardIrq 0x1e, ShellStep 0] (kernel_new (env_system demo_env) (env_heap demo_env)) = Ok s"
    "k_phase s = Waiting" "k_end s = Continue" "queue_contents (queue (k_kbd s)) = [Character 0x61]"
    using halts_with_a_key by blast
  have "length (queue_contents (queue (k_kbd s))) = 1"
    using s(4) by simp
  with queued_keys_handled [OF demo_disk_ok demo_mount s(1,3), of 0] s show ?thesis
    by (simp del: kernel_exec.simps)
qed

end
