(* ===== verification/Image_Builder.thy ===== *)
theory Image_Builder
  imports Disk_Image "HOL-Library.List_Lexorder"
begin

text \<open>
  The build script (\<open>build.rs\<close>): it copies the host directory \<open>disk_files\<close> into a new FAT32 volume, tells Cargo
  which paths the image depends on, has the loader's crate make the boot image, and assembles the final disk image.
  The crates \<open>fatfs\<close> and \<open>fscommon\<close> are parameters, and so is the FAT volume with loader and kernel that
  the loader's crate makes.
\<close>

section \<open>Host directories\<close>

text \<open>
  A host directory as \<open>read_dir\<close> lists it, in no particular order. Names are bytes. An entry that is neither a
  directory nor a regular file, such as a symbolic link, is \<open>HostOther\<close>. A directory that is listed can be read.
\<close>

datatype host_node = HostFile "u8 list" | HostDir "(u8 list \<times> host_node) list" | HostOther

type_synonym listing = "(u8 list \<times> host_node) list"

definition read_dir :: "path \<Rightarrow> host_node option \<Rightarrow> (io_error, listing) outcome" where
  "read_dir p node = (case node of
       Some (HostDir es) \<Rightarrow> Ok es
     | Some _ \<Rightarrow> Err (OtherError p)
     | None \<Rightarrow> Err (NotFound p))"

section \<open>The FAT crate\<close>

datatype fat_type = Fat12 | Fat16 | Fat32

text \<open>An open file system \<open>'v\<close>, its directories \<open>'d\<close> and files \<open>'f\<close>.\<close>

record ('v, 'd, 'f) fat_crate =
  format_volume :: "fat_type \<Rightarrow> str \<Rightarrow> u8 list \<Rightarrow> (io_error, u8 list) outcome"
  open_volume :: "u8 list \<Rightarrow> (io_error, 'v) outcome"
  volume_type :: "'v \<Rightarrow> fat_type"
  root_dir :: "'v \<Rightarrow> 'd"
  create_dir :: "'d \<Rightarrow> str \<Rightarrow> 'v \<Rightarrow> (io_error, 'd \<times> 'v) outcome"
  create_file :: "'d \<Rightarrow> str \<Rightarrow> 'v \<Rightarrow> (io_error, 'f \<times> 'v) outcome"
  write_file :: "'f \<Rightarrow> u8 list \<Rightarrow> 'v \<Rightarrow> (io_error, 'v) outcome"
  flush_file :: "'f \<Rightarrow> 'v \<Rightarrow> (io_error, 'v) outcome"
  unmount :: "'v \<Rightarrow> (io_error, u8 list) outcome"

section \<open>Copying and watching\<close>

lemma for_each_cong [fundef_cong]:
  assumes "xs = ys" "s = t" "\<And>x u. x \<in> set ys \<Longrightarrow> body x u = body' x u"
  shows "for_each body xs s = for_each body' ys t"
proof -
  have "for_each body xs u = for_each body' xs u" if "\<And>x u. x \<in> set xs \<Longrightarrow> body x u = body' x u" for u
    using that by (induction xs arbitrary: u) (simp_all cong: obind_cong)
  then show ?thesis
    using assms by simp
qed

lemma child_smaller:
  "(name, HostDir children) \<in> set (sort_key fst es) \<Longrightarrow>
   size_list (size_prod (\<lambda>_. 0) size) children < size_list (size_prod (\<lambda>_. 0) size) es"
  by (induction es) (auto simp: set_insort_key)

function copy_host_tree :: "('v, 'd, 'f) fat_crate \<Rightarrow> listing \<Rightarrow> 'd \<Rightarrow> 'v \<Rightarrow> (io_error, 'v) outcome" where
  "copy_host_tree c entries destination v =
     for_each (\<lambda>entry v.
       obind (ok_or (from_utf8 (fst entry)) (InvalidData (lit ''non-UTF-8 data filename''))) (\<lambda>name.
       case snd entry of
         HostDir children \<Rightarrow>
           obind (create_dir c destination name v) (\<lambda>(child, v). copy_host_tree c children child v)
       | HostFile source \<Rightarrow>
           obind (create_file c destination name v) (\<lambda>(target, v).
           obind (write_file c target source v) (flush_file c target))
       | HostOther \<Rightarrow> Ok v)) (sort_key fst entries) v"
  by pat_completeness auto
termination
  by (relation "measure (\<lambda>(c, es, d, v). size_list (size_prod (\<lambda>_. 0) size) es)") (auto intro: child_smaller)

declare copy_host_tree.simps [simp del]

text \<open>
  The lines the script prints for Cargo. A watched path is the path of the directory the walk started from and the
  names below it.
\<close>

datatype cargo_line =
    RerunIfEnvChanged str
  | RerunIfChanged path "u8 list list"
  | RustcEnv str path
  | CargoWarning str path

function watch_host_tree :: "path \<Rightarrow> u8 list list \<Rightarrow> listing \<Rightarrow> cargo_line list" where
  "watch_host_tree tree directory entries =
     RerunIfChanged tree directory # concat (map (\<lambda>entry.
       RerunIfChanged tree (directory @ [fst entry]) #
       (case snd entry of
          HostDir children \<Rightarrow> watch_host_tree tree (directory @ [fst entry]) children
        | _ \<Rightarrow> [])) (sort_key fst entries))"
  by pat_completeness auto
termination
  by (relation "measure (\<lambda>(t, d, es). size_list (size_prod (\<lambda>_. 0) size) es)") (auto intro: child_smaller)

declare watch_host_tree.simps [simp del]

section \<open>The script\<close>

definition build_data_volume :: "('v, 'd, 'f) fat_crate \<Rightarrow> path \<Rightarrow> path \<Rightarrow> host_node option \<Rightarrow> files \<Rightarrow> (io_error, files) outcome" where
  "build_data_volume c output data_files host fs =
     (let fs = open_truncated output fs; disk = set_len DATA_PARTITION_BYTES [] in
     obind (format_volume c Fat32 (lit ''SOL_DATA   '') disk) (\<lambda>disk.
     obind (open_volume c disk) (\<lambda>filesystem.
     if volume_type c filesystem \<noteq> Fat32 then Err (InvalidData (lit ''data partition was not formatted as FAT32''))
     else
       let root = root_dir c filesystem in
       obind (read_dir data_files host) (\<lambda>entries.
       obind (copy_host_tree c entries root filesystem) (\<lambda>filesystem.
       obind (unmount c filesystem) (\<lambda>disk.
       Ok (fs(output \<mapsto> disk))))))))"

record boot_config =
  minimum_framebuffer_width :: "nat option"
  minimum_framebuffer_height :: "nat option"
  frame_buffer_logging :: bool
  serial_logging :: bool

definition sol_boot_config :: boot_config where
  "sol_boot_config = \<lparr>minimum_framebuffer_width = Some 1024, minimum_framebuffer_height = Some 768,
     frame_buffer_logging = False, serial_logging = False\<rparr>"

text \<open>
  The environment of the script: the variables Cargo sets, the host's \<open>disk_files\<close>, the name of the temporary
  file, and the FAT volume with the loader, the kernel and the configuration that the loader's crate puts into it.
\<close>

record build_env =
  var_kernel :: "path option"
  var_out_dir :: "path option"
  var_manifest_dir :: "path option"
  host_tree :: "path \<Rightarrow> host_node option"
  temp_file :: path
  create_fat_filesystem_image :: "path \<Rightarrow> boot_config \<Rightarrow> files \<Rightarrow> (io_error, u8 list) outcome"

definition create_uefi_image :: "gpt_crate \<Rightarrow> build_env \<Rightarrow> path \<Rightarrow> boot_config \<Rightarrow> path \<Rightarrow> files \<Rightarrow> (io_error, files) outcome" where
  "create_uefi_image g env kernel_path config image_path fs =
     obind (create_fat_filesystem_image env kernel_path config fs) (\<lambda>fat_partition.
     obind (create_gpt_disk g (temp_file env) image_path (fs(temp_file env \<mapsto> fat_partition))) (\<lambda>fs.
     Ok (fs(temp_file env := None))))"

definition build_main :: "('v, 'd, 'f) fat_crate \<Rightarrow> gpt_crate \<Rightarrow> build_env \<Rightarrow> files \<Rightarrow> (cargo_line list \<times> files) may_panic" where
  "build_main c g env fs =
     obind (or_panic (var_kernel env)) (\<lambda>kernel.
     obind (or_panic (var_out_dir env)) (\<lambda>out_dir.
     obind (or_panic (var_manifest_dir env)) (\<lambda>manifest_dir.
     let base_image = join out_dir ''bootloader-base.img''; data_volume = join out_dir ''sol-data.fat'';
         data_files = join manifest_dir ''disk_files''; final_image = join (join manifest_dir ''build'') ''sol-os.img'' in
     obind (expect_ok (read_dir data_files (host_tree env data_files))) (\<lambda>entries.
     obind (expect_ok (build_data_volume c data_volume data_files (host_tree env data_files) fs)) (\<lambda>fs.
     obind (expect_ok (create_uefi_image g env kernel sol_boot_config base_image fs)) (\<lambda>fs.
     obind (expect_ok (assemble_two_partition_image g base_image final_image data_volume fs)) (\<lambda>fs.
     Ok ([RerunIfEnvChanged (lit ''CARGO_FEATURE_FAULT_TEST_DOUBLE''), RerunIfEnvChanged (lit ''CARGO_FEATURE_FAULT_TEST_GPF''),
          RerunIfEnvChanged (lit ''CARGO_FEATURE_FAULT_TEST_PAGE'')] @
         watch_host_tree data_files [] entries @
         [RustcEnv (lit ''SOL_OS_IMAGE'') final_image, CargoWarning (lit ''bootable image: '') final_image], fs))))))))"

end
