(* ===== verification/Gpt_Example.thy ===== *)
theory Gpt_Example
  imports Disk_Image
begin

text \<open>
  A partition table in bytes that does what \<open>gpt_documented\<close> asks: 128 entries of fixed width in the blocks
  before the first partition, and first-fit placement. It shows that the hypotheses on the crate can hold together.
\<close>

section \<open>Fixed-width fields\<close>

primrec le_bytes :: "nat \<Rightarrow> nat \<Rightarrow> u8 list" where
  "le_bytes 0 x = []"
| "le_bytes (Suc n) x = of_nat (x mod 256) # le_bytes n (x div 256)"

primrec from_le :: "u8 list \<Rightarrow> nat" where
  "from_le [] = 0"
| "from_le (b # bs) = unat b + 256 * from_le bs"

lemma length_le_bytes [simp]: "length (le_bytes n x) = n"
  by (induction n arbitrary: x) simp_all

lemma from_le_le_bytes: "x < 256 ^ n \<Longrightarrow> from_le (le_bytes n x) = x"
proof (induction n arbitrary: x)
  case (Suc n)
  then have "x div 256 < 256 ^ n"
    by (simp add: less_mult_imp_div_less mult.commute)
  then show ?case
    using Suc.IH [of "x div 256"] by (simp add: unat_of_nat)
qed simp

text \<open>The \<open>k\<close>-th of a list of fields of the same width.\<close>

definition field :: "nat \<Rightarrow> nat \<Rightarrow> u8 list \<Rightarrow> u8 list" where
  "field w k bs = take w (drop (w * k) bs)"

lemma field_concat: "\<forall>x \<in> set xs. length x = w \<Longrightarrow> k < length xs \<Longrightarrow> field w k (concat xs @ rest) = xs ! k"
  unfolding field_def by (rule nth_piece)

definition encode_name :: "str \<Rightarrow> u8 list" where
  "encode_name t = concat (map (le_bytes 2) (t @ replicate (36 - length t) 0))"

definition encode_entry :: "nat \<times> partition \<Rightarrow> u8 list" where
  "encode_entry e = (let (i, p) = e in
     le_bytes 8 i @ le_bytes 16 (unat (part_type_guid p)) @ le_bytes 8 (first_lba p) @ le_bytes 8 (last_lba p) @
     le_bytes 8 (length (part_name p)) @ encode_name (part_name p))"

definition decode_entry :: "u8 list \<Rightarrow> nat \<times> partition" where
  "decode_entry bs = (from_le (take 8 bs),
     \<lparr>part_type_guid = of_nat (from_le (take 16 (drop 8 bs))),
      part_name = map (\<lambda>k. from_le (field 2 k (drop 48 bs))) [0..<from_le (take 8 (drop 40 bs))],
      first_lba = from_le (take 8 (drop 24 bs)), last_lba = from_le (take 8 (drop 32 bs))\<rparr>)"

lemma length_encode_name [simp]: "length t \<le> 36 \<Longrightarrow> length (encode_name t) = 72"
  by (simp add: encode_name_def length_pieces [where w = 2])

lemma length_encode_entry [simp]: "length (part_name (snd e)) \<le> 36 \<Longrightarrow> length (encode_entry e) = 120"
  by (simp add: encode_entry_def case_prod_beta)

lemma decode_name:
  assumes "list_all (\<lambda>c. 0 < c \<and> c < 2 ^ 16) t"
  shows "map (\<lambda>k. from_le (field 2 k (encode_name t))) [0..<length t] = t"
proof (rule nth_equalityI)
  fix k
  assume k: "k < length (map (\<lambda>k. from_le (field 2 k (encode_name t))) [0..<length t])"
  have "\<forall>x \<in> set (map (le_bytes 2) (t @ replicate (36 - length t) 0)). length x = 2"
    by auto
  then have "field 2 k (encode_name t) = map (le_bytes 2) (t @ replicate (36 - length t) 0) ! k"
    using field_concat [of _ 2 k "[]"] k unfolding encode_name_def by (metis append_Nil2 length_append length_map length_upt minus_nat.diff_0 trans_less_add1)
  also have "\<dots> = le_bytes 2 (t ! k)"
    using k by (simp add: nth_append)
  finally show "map (\<lambda>k. from_le (field 2 k (encode_name t))) [0..<length t] ! k = t ! k"
    using k assms by (simp add: from_le_le_bytes list_all_length)
qed simp

lemma decode_encode_entry:
  assumes "fits_table n e" "n < 2 ^ 55"
  shows "decode_entry (encode_entry e) = e"
proof -
  obtain i p where e: "e = (i, p)"
    by fastforce
  have bounds: "i < 256 ^ 8" "unat (part_type_guid p) < 256 ^ 16" "first_lba p < 256 ^ 8" "last_lba p < 256 ^ 8" "length (part_name p) < 256 ^ 8"
    using assms unsigned_less [of "part_type_guid p"] by (auto simp: e fits_table_def)
  have name: "list_all (\<lambda>c. 0 < c \<and> c < 2 ^ 16) (part_name p)"
    using assms(1) by (simp add: e fits_table_def)
  show ?thesis
    using bounds by (simp add: e decode_entry_def encode_entry_def from_le_le_bytes decode_name [OF name])
qed

section \<open>The table\<close>

definition encode_table :: "(nat \<times> partition) list \<Rightarrow> u8 list" where
  "encode_table ps = set_len (33 * 512) (le_bytes 120 (length ps) @ concat (map encode_entry ps))"

definition decode_table :: "u8 list \<Rightarrow> (nat \<times> partition) list" where
  "decode_table bs = map (\<lambda>k. decode_entry (field 120 k (drop 120 bs))) [0..<from_le (take 120 bs)]"

lemma length_encode_table [simp]: "length (encode_table ps) = 33 * 512"
  by (simp add: encode_table_def)

lemma decode_encode_table:
  assumes "list_all (fits_table n) ps" "n < 2 ^ 55" "length ps \<le> 128"
  shows "decode_table (encode_table ps) = ps"
proof -
  let ?es = "map encode_entry ps"
  have widths: "\<forall>x \<in> set ?es. length x = 120"
    using assms(1) by (auto simp: list_all_iff fits_table_def)
  have len: "length (concat ?es) = 120 * length ps"
    using length_pieces [OF widths] by simp
  have whole: "encode_table ps = le_bytes 120 (length ps) @ concat ?es @ replicate (16776 - 120 * length ps) 0"
    using assms(3) len by (simp add: encode_table_def set_len_def)
  have "length ps < 256 ^ 120"
    using assms(3) by (rule order_le_less_trans) simp
  then have count: "from_le (take 120 (encode_table ps)) = length ps"
    by (simp add: whole from_le_le_bytes)
  have "decode_entry (field 120 k (drop 120 (encode_table ps))) = ps ! k" if "k < length ps" for k
  proof -
    have "field 120 k (drop 120 (encode_table ps)) = encode_entry (ps ! k)"
      using field_concat [OF widths, of k] that by (simp add: whole)
    then show ?thesis
      using decode_encode_entry [OF _ assms(2), of "ps ! k"] assms(1) that by (simp add: list_all_length)
  qed
  then show ?thesis
    unfolding decode_table_def count by (intro nth_equalityI) simp_all
qed

definition fresh_id :: "(nat \<times> partition) list \<Rightarrow> nat option" where
  "fresh_id ps = find (\<lambda>i. i \<notin> fst ` set ps) [1..<129]"

lemma fresh_id:
  assumes "length ps < 128"
  obtains i where "fresh_id ps = Some i" "i \<notin> fst ` set ps" "i < 2 ^ 32"
proof (cases "fresh_id ps")
  case None
  then have "{1..<129} \<subseteq> fst ` set ps"
    unfolding fresh_id_def find_None_iff by auto
  then have "card {1..<129 :: nat} \<le> card (fst ` set ps)"
    by (rule card_mono [rotated]) simp
  also have "\<dots> \<le> length ps"
    by (meson card_image_le card_length finite_set le_trans)
  finally show ?thesis
    using assms by simp
next
  case (Some i)
  then have "i \<in> set [1..<129]" "i \<notin> fst ` set ps"
    unfolding fresh_id_def find_Some_iff by (auto simp del: upt_rec_numeral)
  then show ?thesis
    using that Some by simp
qed

definition example_add :: "str \<Rightarrow> nat \<Rightarrow> guid \<Rightarrow> nat \<Rightarrow> nat option \<Rightarrow> gpt_disk \<Rightarrow> (io_error, nat \<times> gpt_disk) outcome" where
  "example_add name bytes guid flags alignment t =
     (case find (\<lambda>lba. aligned_at alignment lba \<and> free_at t (bytes div 512) lba) [0..<length (gd_device t) div 512] of
        None \<Rightarrow> Err NoSpace
      | Some lba \<Rightarrow> obind (ok_or (fresh_id (gd_partitions t)) NoSpace) (\<lambda>i. Ok (i, t\<lparr>gd_partitions := insort_key fst
          (i, \<lparr>part_type_guid = guid, part_name = name, first_lba = lba, last_lba = lba + bytes div 512 - 1\<rparr>) (gd_partitions t)\<rparr>)))"

definition example_gpt :: gpt_crate where
  "example_gpt = \<lparr>type_EFI = 0xc12a7328f81f11d2ba4b00a0c93ec93b, type_BASIC = 0xebd0a0a2b9e5443387c068b6b72699c7,
     overwrite_lba0 = (\<lambda>n d. Ok (write_all_at d 510 [0x55, 0xaa])),
     create_from_device = (\<lambda>d. Ok \<lparr>gd_device = d, gd_partitions = []\<rparr>),
     open_table = (\<lambda>d. Ok \<lparr>gd_device = d, gd_partitions = decode_table (take (33 * 512) (drop 512 d))\<rparr>),
     update_partitions = (\<lambda>ps t. Ok (t\<lparr>gd_partitions := ps\<rparr>)),
     add_partition = example_add,
     write_table = (\<lambda>t. Ok (write_all_at (gd_device t) 512 (encode_table (gd_partitions t)))),
     bytes_start = (\<lambda>p. Ok (512 * first_lba p)),
     bytes_len = (\<lambda>p. Ok (512 * (last_lba p + 1 - first_lba p)))\<rparr>"

lemma example_adds:
  assumes "length (gd_partitions t) < 128" "0 < n" "aligned_at alignment room" "free_at t n room"
  shows "\<exists>i lba. example_add name (512 * n) guid flags alignment t =
       Ok (i, t\<lparr>gd_partitions := insort_key fst
         (i, \<lparr>part_type_guid = guid, part_name = name, first_lba = lba, last_lba = lba + n - 1\<rparr>) (gd_partitions t)\<rparr>) \<and>
     i \<notin> fst ` set (gd_partitions t) \<and> i < 2 ^ 32 \<and> aligned_at alignment lba \<and> free_at t n lba \<and>
     (\<forall>l < lba. \<not> (aligned_at alignment l \<and> free_at t n l))"
proof -
  let ?P = "\<lambda>lba. aligned_at alignment lba \<and> free_at t n lba"
  have "room < length (gd_device t) div 512"
    using assms(2,4) by (simp add: free_at_def)
  then have "find ?P [0..<length (gd_device t) div 512] \<noteq> None"
    using assms(3,4) unfolding find_None_iff by auto
  then obtain lba where lba: "find ?P [0..<length (gd_device t) div 512] = Some lba"
    by blast
  then have "?P lba" "\<forall>l < lba. \<not> ?P l"
    unfolding find_Some_iff by auto
  moreover obtain i where "fresh_id (gd_partitions t) = Some i" "i \<notin> fst ` set (gd_partitions t)" "i < 2 ^ 32"
    by (rule fresh_id [OF assms(1)]) (rule that)
  ultimately show ?thesis
    using lba by (intro exI [of _ i] exI [of _ lba]) (simp add: example_add_def)
qed

lemma example_reads:
  assumes "table_ok t" "same_outside (gd_partitions t) (write_all_at (gd_device t) 512 (encode_table (gd_partitions t))) d"
  shows "decode_table (take (33 * 512) (drop 512 d)) = gd_partitions t"
proof -
  let ?ps = "gd_partitions t"
  let ?w = "write_all_at (gd_device t) 512 (encode_table ?ps)"
  have t: "list_all (fits_table (length (gd_device t) div 512)) ?ps" "length (gd_device t) div 512 < 2 ^ 55" "length ?ps \<le> 128"
    "512 * 68 \<le> length (gd_device t)"
    using assms(1) unfolding table_ok_def Let_def by auto
  have len: "length ?w = length (gd_device t)"
    using t(4) by (intro write_all_at_length) simp
  have table: "d ! (512 + k) = encode_table ?ps ! k" if "k < 33 * 512" for k
  proof -
    have "\<forall>e \<in> set ?ps. \<not> in_partition (512 + k) (snd e)"
      using t(1) that by (auto simp: list_all_iff fits_table_def in_partition_def)
    then have "d ! (512 + k) = ?w ! (512 + k)"
      using assms(2) len t(4) that unfolding same_outside_def by auto
    then show ?thesis
      using write_all_at_nth [of 512 "encode_table ?ps" "gd_device t" "512 + k"] t(4) that by simp
  qed
  have "length d = length (gd_device t)"
    using assms(2) len by (simp add: same_outside_def)
  then have "take (33 * 512) (drop 512 d) = encode_table ?ps"
    using table t(4) by (intro nth_equalityI) simp_all
  then show ?thesis
    using decode_encode_table [OF t(1-3)] by simp
qed

lemma example_documented: "gpt_documented example_gpt"
proof -
  have fits: "512 + length (encode_table (gd_partitions t)) \<le> length (gd_device t)" if "table_ok t" for t
    using that unfolding table_ok_def Let_def by auto
  have rewritten: "\<exists>d. write_table example_gpt t = Ok d \<and> length d = length (gd_device t) \<and>
        (\<forall>d'. same_outside (gd_partitions t) d d' \<longrightarrow> open_table example_gpt d' = Ok \<lparr>gd_device = d', gd_partitions = gd_partitions t\<rparr>)"
    if "table_ok t" for t
    using example_reads [OF that] fits [OF that]
    by (intro exI [of _ "write_all_at (gd_device t) 512 (encode_table (gd_partitions t))"]) (simp add: example_gpt_def)
  have add: "add_partition example_gpt = example_add"
    by (simp add: example_gpt_def)
  have "type_BASIC example_gpt = 0xebd0a0a2b9e5443387c068b6b72699c7" "type_EFI example_gpt \<noteq> type_BASIC example_gpt"
    by (simp_all add: example_gpt_def)
  moreover have "\<exists>d'. overwrite_lba0 example_gpt n d = Ok d' \<and> length d' = length d" if "512 \<le> length d" for n d
    using that by (simp add: example_gpt_def)
  moreover have "\<exists>t. create_from_device example_gpt d = Ok t \<and> length (gd_device t) = length d" for d
    by (simp add: example_gpt_def)
  moreover have "update_partitions example_gpt [] t = Ok (t\<lparr>gd_partitions := []\<rparr>)" for t
    by (simp add: example_gpt_def)
  moreover have "bytes_start example_gpt p = Ok (512 * first_lba p) \<and> bytes_len example_gpt p = Ok (512 * (last_lba p + 1 - first_lba p))" for p
    by (simp add: example_gpt_def)
  ultimately show ?thesis
    unfolding gpt_documented_def add using rewritten example_adds by (intro conjI allI impI; (elim conjE)?; blast)
qed

end
