(* ===== verification/Disk_Image_Correct.thy ===== *)
theory Disk_Image_Correct
  imports Gpt_Example
begin

text \<open>
  The image holds both volumes. Over a \<open>gpt\<close> crate that does what it documents, making the boot image, taking its
  EFI partition out again and assembling the final image always succeeds: the computed size has room for both
  partitions, and reading them back gives the bytes that were put in.
\<close>

section \<open>Writing into a partition\<close>

definition partition_bytes :: "u8 list \<Rightarrow> partition \<Rightarrow> u8 list" where
  "partition_bytes d p = take (512 * (last_lba p + 1 - first_lba p)) (drop (512 * first_lba p) d)"

definition holds :: "u8 list \<Rightarrow> partition \<Rightarrow> bool" where
  "holds d p \<longleftrightarrow> first_lba p \<le> last_lba p \<and> 512 * (last_lba p + 1) \<le> length d"

lemma holdsD:
  assumes "holds d p"
  shows "first_lba p \<le> last_lba p" "512 * first_lba p + 512 * (last_lba p + 1 - first_lba p) = 512 * (last_lba p + 1)"
    "512 * first_lba p + 512 * (last_lba p + 1 - first_lba p) \<le> length d"
proof -
  show "first_lba p \<le> last_lba p"
    using assms by (simp add: holds_def)
  then show eq: "512 * first_lba p + 512 * (last_lba p + 1 - first_lba p) = 512 * (last_lba p + 1)"
    by simp
  show "512 * first_lba p + 512 * (last_lba p + 1 - first_lba p) \<le> length d"
    unfolding eq using assms by (simp add: holds_def)
qed

lemma partition_bytes_written:
  assumes "holds d p" "length bs = 512 * (last_lba p + 1 - first_lba p)"
  shows "partition_bytes (write_all_at d (512 * first_lba p) bs) p = bs"
  using holdsD(3) [OF assms(1)] assms(2) by (simp add: partition_bytes_def write_all_at_def)

text \<open>The bytes of a partition are those of \<open>in_partition\<close>.\<close>

lemma in_partition_iff:
  assumes "holds d p"
  shows "in_partition k p \<longleftrightarrow> 512 * first_lba p \<le> k \<and> k < 512 * first_lba p + 512 * (last_lba p + 1 - first_lba p)"
  unfolding in_partition_def holdsD(2) [OF assms] ..

lemma apart_bytes: "apart p q \<Longrightarrow> in_partition k p \<Longrightarrow> \<not> in_partition k q"
  by (auto simp: apart_def in_partition_def)

lemma write_partition_nth:
  assumes "holds d p" "length bs = 512 * (last_lba p + 1 - first_lba p)" "\<not> in_partition k p" "k < length d"
  shows "write_all_at d (512 * first_lba p) bs ! k = d ! k"
proof -
  have "\<not> (512 * first_lba p \<le> k \<and> k < 512 * first_lba p + length bs)"
    using in_partition_iff [OF assms(1), of k] assms(2,3) by metis
  then show ?thesis
    using write_all_at_nth [of "512 * first_lba p" bs d k] holdsD(3) [OF assms(1)] assms(2,4) by (metis if_not_P)
qed

lemma write_partition_length:
  assumes "holds d p" "length bs = 512 * (last_lba p + 1 - first_lba p)"
  shows "length (write_all_at d (512 * first_lba p) bs) = length d"
  using holdsD(3) [OF assms(1)] assms(2) by simp

lemma partition_bytes_kept:
  assumes "holds d p" "holds d q" "apart p q" "length bs = 512 * (last_lba q + 1 - first_lba q)"
  shows "partition_bytes (write_all_at d (512 * first_lba q) bs) p = partition_bytes d p"
proof (rule nth_equalityI)
  note len = write_partition_length [OF assms(2,4)]
  then show "length (partition_bytes (write_all_at d (512 * first_lba q) bs) p) = length (partition_bytes d p)"
    by (simp add: partition_bytes_def)
  fix k
  assume "k < length (partition_bytes (write_all_at d (512 * first_lba q) bs) p)"
  then have k: "k < 512 * (last_lba p + 1 - first_lba p)" "512 * first_lba p + k < length d"
    using len by (auto simp: partition_bytes_def)
  then have "in_partition (512 * first_lba p + k) p"
    unfolding in_partition_iff [OF assms(1)] by simp
  then have "write_all_at d (512 * first_lba q) bs ! (512 * first_lba p + k) = d ! (512 * first_lba p + k)"
    using write_partition_nth [OF assms(2,4) _ k(2)] apart_bytes [OF assms(3)] by blast
  then show "partition_bytes (write_all_at d (512 * first_lba q) bs) p ! k = partition_bytes d p ! k"
    using k len by (simp add: partition_bytes_def)
qed

lemma same_outside_refl: "same_outside ps d d"
  by (simp add: same_outside_def)

lemma same_outside_write:
  assumes "same_outside ps d d'" "p \<in> snd ` set ps" "holds d p" "length bs = 512 * (last_lba p + 1 - first_lba p)"
  shows "same_outside ps d (write_all_at d' (512 * first_lba p) bs)"
proof -
  have len: "length d' = length d" and p: "holds d' p"
    using assms(1,3) by (simp_all add: same_outside_def holds_def)
  have "write_all_at d' (512 * first_lba p) bs ! k = d ! k" if k: "k < length d" "\<forall>e \<in> set ps. \<not> in_partition k (snd e)" for k
  proof -
    have "\<not> in_partition k p"
      using assms(2) k(2) by blast
    then have "write_all_at d' (512 * first_lba p) bs ! k = d' ! k"
      using write_partition_nth [OF p assms(4)] k(1) len by simp
    then show ?thesis
      using assms(1) k by (simp add: same_outside_def)
  qed
  then show ?thesis
    using write_partition_length [OF p assms(4)] len by (simp add: same_outside_def)
qed

section \<open>The calls of the crate\<close>

lemma documented_types: "gpt_documented g \<Longrightarrow> type_BASIC g = 0xebd0a0a2b9e5443387c068b6b72699c7" "gpt_documented g \<Longrightarrow> type_EFI g \<noteq> type_BASIC g"
  unfolding gpt_documented_def by blast+

lemma documented_update: "gpt_documented g \<Longrightarrow> update_partitions g [] t = Ok (t\<lparr>gd_partitions := []\<rparr>)"
  unfolding gpt_documented_def by blast

lemma documented_bytes:
  assumes "gpt_documented g" "first_lba p \<le> last_lba p" "last_lba p < 2 ^ 55 - 1"
  shows "bytes_start g p = Ok (512 * first_lba p)" "bytes_len g p = Ok (512 * (last_lba p + 1 - first_lba p))"
  using assms unfolding gpt_documented_def by blast+

text \<open>A new table on a file of a whole number of blocks.\<close>

lemma new_table:
  assumes "gpt_documented g" "68 \<le> blocks" "blocks < 2 ^ 55"
  obtains d t where "overwrite_lba0 g n (set_len (512 * blocks) []) = Ok d" "create_from_device g d = Ok t"
    "update_partitions g [] t = Ok (t\<lparr>gd_partitions := []\<rparr>)" "table_ok (t\<lparr>gd_partitions := []\<rparr>)" "length (gd_device t) = 512 * blocks"
proof -
  have "\<forall>n d. 512 \<le> length d \<longrightarrow> (\<exists>d'. overwrite_lba0 g n d = Ok d' \<and> length d' = length d)"
    using assms(1) unfolding gpt_documented_def by blast
  from this [rule_format, of "set_len (512 * blocks) []" n]
  obtain d where d: "overwrite_lba0 g n (set_len (512 * blocks) []) = Ok d" "length d = 512 * blocks"
    using assms(2) by auto
  have "\<forall>d. 512 * 68 \<le> length d \<longrightarrow> (\<exists>t. create_from_device g d = Ok t \<and> length (gd_device t) = length d)"
    using assms(1) unfolding gpt_documented_def by blast
  from this [rule_format, of d] obtain t where t: "create_from_device g d = Ok t" "length (gd_device t) = 512 * blocks"
    using d(2) assms(2) by auto
  have "table_ok (t\<lparr>gd_partitions := []\<rparr>)"
    using assms t(2) by (simp add: table_ok_def)
  then show ?thesis
    using that d(1) t documented_update [OF assms(1)] by blast
qed

lemma distinct_insort_fst: "distinct (map fst (insort_key fst e ps)) \<longleftrightarrow> fst e \<notin> fst ` set ps \<and> distinct (map fst ps)"
  by (induction ps) (auto simp: set_insort_key)

lemma added:
  assumes "gpt_documented g" "table_ok t" "length (gd_partitions t) < 128"
    and "length name \<le> 36" "list_all (\<lambda>c. 0 < c \<and> c < 2 ^ 16) name" "0 < n" "aligned_at alignment room" "free_at t n room"
  obtains id lba where
    "add_partition g name (512 * n) guid flags alignment t =
       Ok (id, t\<lparr>gd_partitions := insort_key fst (id, \<lparr>part_type_guid = guid, part_name = name, first_lba = lba, last_lba = lba + n - 1\<rparr>) (gd_partitions t)\<rparr>)"
    "id \<notin> fst ` set (gd_partitions t)" "id < 2 ^ 32" "aligned_at alignment lba" "free_at t n lba"
    "\<forall>l < lba. \<not> (aligned_at alignment l \<and> free_at t n l)"
proof -
  have "\<forall>t name n guid flags alignment room.
        table_ok t \<and> length (gd_partitions t) < 128 \<and> length name \<le> 36 \<and> list_all (\<lambda>c. 0 < c \<and> c < 2 ^ 16) name \<and>
        0 < n \<and> aligned_at alignment room \<and> free_at t n room \<longrightarrow>
        (\<exists>id lba. add_partition g name (512 * n) guid flags alignment t =
             Ok (id, t\<lparr>gd_partitions := insort_key fst
               (id, \<lparr>part_type_guid = guid, part_name = name, first_lba = lba, last_lba = lba + n - 1\<rparr>) (gd_partitions t)\<rparr>) \<and>
           id \<notin> fst ` set (gd_partitions t) \<and> id < 2 ^ 32 \<and> aligned_at alignment lba \<and> free_at t n lba \<and>
           (\<forall>l < lba. \<not> (aligned_at alignment l \<and> free_at t n l)))"
    using assms(1) unfolding gpt_documented_def by blast
  from this [rule_format, of t name n alignment room guid flags] show ?thesis
    using assms(2-8) that by blast
qed

lemma added_ok:
  assumes "table_ok t" "length (gd_partitions t) < 128" "length (part_name p) \<le> 36" "list_all (\<lambda>c. 0 < c \<and> c < 2 ^ 16) (part_name p)"
    and "0 < n" "last_lba p = first_lba p + n - 1" "pid \<notin> fst ` set (gd_partitions t)" "pid < 2 ^ 32" "free_at t n (first_lba p)"
  shows "table_ok (t\<lparr>gd_partitions := insort_key fst (pid, p) (gd_partitions t)\<rparr>)"
proof -
  have new: "fits_table (length (gd_device t) div 512) (pid, p)"
    using assms by (simp add: fits_table_def free_at_def)
  have sep: "apart p (snd e)" "apart (snd e) p" if "e \<in> set (gd_partitions t)" for e
  proof -
    have "first_lba p + n \<le> first_lba (snd e) \<or> last_lba (snd e) < first_lba p"
      using that assms(9) unfolding free_at_def list_all_iff by (simp add: case_prod_beta)
    then show "apart p (snd e)" "apart (snd e) p"
      using assms(5,6) unfolding apart_def by auto
  qed
  let ?t = "t\<lparr>gd_partitions := insort_key fst (pid, p) (gd_partitions t)\<rparr>"
  have "\<forall>e \<in> set (gd_partitions ?t). \<forall>e' \<in> set (gd_partitions ?t). fst e \<noteq> fst e' \<longrightarrow> apart (snd e) (snd e')"
    using assms(1) sep unfolding table_ok_def Let_def by (simp add: set_insort_key)
  moreover have "list_all (fits_table (length (gd_device t) div 512)) (gd_partitions ?t)"
    using assms(1) new unfolding table_ok_def Let_def list_all_iff by (simp add: set_insort_key)
  moreover have "distinct (map fst (gd_partitions ?t))"
    using assms(1,7) unfolding table_ok_def Let_def by (simp add: distinct_insort_fst)
  ultimately show ?thesis
    using assms(1,2) unfolding table_ok_def Let_def by simp
qed

lemma written:
  assumes "gpt_documented g" "table_ok t"
  obtains d where "write_table g t = Ok d" "length d = length (gd_device t)"
    "\<And>d'. same_outside (gd_partitions t) d d' \<Longrightarrow> open_table g d' = Ok \<lparr>gd_device = d', gd_partitions = gd_partitions t\<rparr>"
proof -
  have "\<forall>t. table_ok t \<longrightarrow> (\<exists>d. write_table g t = Ok d \<and> length d = length (gd_device t) \<and>
        (\<forall>d'. same_outside (gd_partitions t) d d' \<longrightarrow> open_table g d' = Ok \<lparr>gd_device = d', gd_partitions = gd_partitions t\<rparr>))"
    using assms(1) unfolding gpt_documented_def by blast
  then show ?thesis
    using assms(2) that by blast
qed

lemma table_holds:
  assumes "table_ok t" "(pid, p) \<in> set (gd_partitions t)" "length d = length (gd_device t)"
  shows "holds d p" "first_lba p \<le> last_lba p" "last_lba p < 2 ^ 55 - 1"
proof -
  have "fits_table (length (gd_device t) div 512) (pid, p)" "length (gd_device t) = 512 * (length (gd_device t) div 512)" "length (gd_device t) div 512 < 2 ^ 55"
    using assms unfolding table_ok_def Let_def list_all_iff by blast+
  then show "holds d p" "first_lba p \<le> last_lba p" "last_lba p < 2 ^ 55 - 1"
    using assms(3) by (simp_all add: fits_table_def holds_def)
qed

section \<open>The boot image\<close>

lemma read_partition:
  assumes "gpt_documented g" "holds d p" "last_lba p < 2 ^ 55 - 1"
  shows "bytes_start g p = Ok (512 * first_lba p)" "bytes_len g p = Ok (512 * (last_lba p + 1 - first_lba p))"
    "read_exact_at d (512 * first_lba p) (512 * (last_lba p + 1 - first_lba p)) = Ok (partition_bytes d p)"
  using documented_bytes [OF assms(1) holdsD(1) [OF assms(2)] assms(3)] holdsD(3) [OF assms(2)]
  by (simp_all add: read_exact_at_def partition_bytes_def)

lemma extract_efi:
  assumes "gpt_documented g" "fs disk = Some d" "open_table g d = Ok t"
    and "find (\<lambda>p. part_type_guid p = type_EFI g) (map snd (gd_partitions t)) = Some p" "holds d p" "last_lba p < 2 ^ 55 - 1"
  shows "extract_efi_partition g disk fs = Ok (partition_bytes d p, 512 * (last_lba p + 1 - first_lba p))"
  using assms(2-4) read_partition [OF assms(1,5,6)] by (simp add: extract_efi_partition_def open_file_def)

lemma free_empty: "gd_partitions t = [] \<Longrightarrow> free_at t n lba \<longleftrightarrow> 34 \<le> lba \<and> lba + n + 33 \<le> length (gd_device t) div 512"
  by (simp add: free_at_def)

lemma boot_image_made:
  assumes g: "gpt_documented g" and fat: "fs fat_image = Some source" "length source = 512 * b" "0 < b" "b < 2 ^ 54" "fat_image \<noteq> base_image"
  obtains d where "create_gpt_disk g fat_image base_image fs = Ok (fs(base_image \<mapsto> d))"
    "extract_efi_partition g base_image (fs(base_image \<mapsto> d)) = Ok (source, 512 * b)"
proof -
  let ?n = "b + 128"
  have size: "uadd (length source) (1024 * 64) = (Ok (512 * ?n) :: (io_error, nat) outcome)"
    using fat by (simp add: uadd_def)
  obtain d t where new: "overwrite_lba0 g (clamp_u32 (127 + b)) (set_len (512 * ?n) []) = Ok d" "create_from_device g d = Ok t"
    "update_partitions g [] t = Ok (t\<lparr>gd_partitions := []\<rparr>)" "table_ok (t\<lparr>gd_partitions := []\<rparr>)" "length (gd_device t) = 512 * ?n"
    using fat(4) by (rule_tac new_table [OF g, of ?n "clamp_u32 (127 + b)"]) simp_all
  let ?t = "t\<lparr>gd_partitions := []\<rparr>"
  obtain i lba where add: "add_partition g (lit ''boot'') (512 * b) (type_EFI g) 0 None ?t = Ok (i, ?t\<lparr>gd_partitions := insort_key fst
      (i, \<lparr>part_type_guid = type_EFI g, part_name = lit ''boot'', first_lba = lba, last_lba = lba + b - 1\<rparr>) (gd_partitions ?t)\<rparr>)"
    "i < 2 ^ 32" "free_at ?t b lba"
    using fat(3) new(5)
    by (rule_tac added [OF g new(4), of "lit ''boot''" b None 34 "type_EFI g" 0]) (simp_all add: lit_def aligned_at_def free_empty)
  define p where "p = \<lparr>part_type_guid = type_EFI g, part_name = lit ''boot'', first_lba = lba, last_lba = lba + b - 1\<rparr>"
  let ?t' = "t\<lparr>gd_partitions := [(i, p)]\<rparr>"
  have add': "add_partition g (lit ''boot'') (512 * b) (type_EFI g) 0 None ?t = Ok (i, ?t')"
    using add(1) by (simp add: p_def)
  have p: "part_type_guid p = type_EFI g" "last_lba p + 1 - first_lba p = b"
    using fat(3) by (simp_all add: p_def)
  have ok: "table_ok ?t'"
    using added_ok [OF new(4), of p b i] add(2,3) fat(3) by (simp add: p_def lit_def)
  obtain w where w: "write_table g ?t' = Ok w" "length w = length (gd_device ?t')"
    "\<And>d'. same_outside (gd_partitions ?t') w d' \<Longrightarrow> open_table g d' = Ok \<lparr>gd_device = d', gd_partitions = gd_partitions ?t'\<rparr>"
    by (rule written [OF g ok]) (rule that)
  have holds: "holds w p" "last_lba p < 2 ^ 55 - 1"
    using table_holds [OF ok, of i p w] w(2) by simp_all
  let ?d = "write_all_at w (512 * first_lba p) source"
  have len: "length source = 512 * (last_lba p + 1 - first_lba p)"
    using fat(2) p(2) by simp
  have opened: "open_table g ?d = Ok \<lparr>gd_device = ?d, gd_partitions = [(i, p)]\<rparr>"
    using w(3) [OF same_outside_write [OF same_outside_refl _ holds(1) len]] by simp
  have "holds ?d p"
    using holds(1) write_partition_length [OF holds(1) len] by (simp add: holds_def)
  then have "extract_efi_partition g base_image (fs(base_image \<mapsto> ?d)) = Ok (source, 512 * b)"
    using extract_efi [OF g _ opened _ _ holds(2)] p partition_bytes_written [OF holds(1) len] by simp
  moreover have "create_gpt_disk g fat_image base_image fs = Ok (fs(base_image \<mapsto> ?d))"
    using fat(1,2,5) size new(1-3) add' w(1) read_partition(1) [OF g holds]
    by (simp add: create_gpt_disk_def open_truncated_def open_file_def Let_def)
  ultimately show ?thesis
    using that by blast
qed

section \<open>The final image\<close>

lemma image_constants: "MIB = 512 * 2048" "IMAGE_SECTOR_SIZE = 512" "PARTITION_ALIGNMENT_LBAS = 2048" "DATA_PARTITION_BYTES = 512 * 131072"
  by (simp_all add: MIB_def IMAGE_SECTOR_SIZE_def PARTITION_ALIGNMENT_LBAS_def DATA_PARTITION_BYTES_def)

text \<open>The size of the image: the boot partition rounded up to whole mebibytes, the data partition, and three more.\<close>

lemma image_size_eq:
  assumes "b < 2 ^ 50"
  obtains k where "image_size (512 * b) = Ok (512 * (2048 * (k + 67)))" "b \<le> 2048 * k" "2048 * k < b + 2048"
proof -
  define u v where "u = b div 2048" and "v = b mod 2048"
  define k where "k = (if 0 < v then u + 1 else u)"
  have "b = 2048 * u + v" "v < 2048"
    by (simp_all add: u_def v_def)
  then have k: "b \<le> 2048 * k" "2048 * k < b + 2048"
    by (auto simp: k_def)
  have "512 * b div (512 * 2048) = b div 2048" "512 * b mod (512 * 2048) = 512 * (b mod 2048)"
    by (rule div_mult_mult1, simp) (rule mult_mod_right [symmetric])
  then have up: "align_up (512 * b) MIB = umul k (512 * 2048)"
    by (simp add: image_constants align_up_def div_ceil_def k_def u_def v_def)
  have "512 * (2048 * (k + 67)) < 2 ^ 64"
    using k(2) assms by simp
  then have "image_size (512 * b) = Ok (512 * (2048 * (k + 67)))"
    unfolding image_size_def up by (simp add: image_constants umul_def uadd_def)
  then show ?thesis
    using k that by blast
qed

lemma map_of_insort: "fst e \<notin> fst ` set ps \<Longrightarrow> map_of (insort_key fst e ps) = (map_of ps)(fst e \<mapsto> snd e)"
  by (induction ps) (auto simp: fun_eq_iff)

text \<open>
  A disk with the two partitions: \<open>sol-boot\<close> at 1 MiB with the boot volume, \<open>sol-data\<close> at a later multiple of
  1 MiB with the data volume, and no other.
\<close>

definition two_volumes :: "gpt_crate \<Rightarrow> u8 list \<Rightarrow> u8 list \<Rightarrow> u8 list \<Rightarrow> bool" where
  "two_volumes g d boot data \<longleftrightarrow> (\<exists>ps p q. open_table g d = Ok \<lparr>gd_device = d, gd_partitions = ps\<rparr> \<and>
     snd ` set ps = {p, q} \<and> length ps = 2 \<and> apart p q \<and> holds d p \<and> holds d q \<and> last_lba p < 2 ^ 55 - 1 \<and> last_lba q < 2 ^ 55 - 1 \<and>
     part_type_guid p = type_EFI g \<and> part_name p = lit ''sol-boot'' \<and> first_lba p = 2048 \<and> partition_bytes d p = boot \<and>
     part_type_guid q = type_BASIC g \<and> part_name q = lit ''sol-data'' \<and> 2048 dvd first_lba q \<and> partition_bytes d q = data)"

lemma two_volumesE:
  assumes "two_volumes g d boot data"
  obtains ps p q where "open_table g d = Ok \<lparr>gd_device = d, gd_partitions = ps\<rparr>"
    "snd ` set ps = {p, q}" "length ps = 2" "apart p q" "holds d p" "holds d q" "last_lba p < 2 ^ 55 - 1" "last_lba q < 2 ^ 55 - 1"
    "part_type_guid p = type_EFI g" "part_name p = lit ''sol-boot''" "first_lba p = 2048" "partition_bytes d p = boot"
    "part_type_guid q = type_BASIC g" "part_name q = lit ''sol-data''" "2048 dvd first_lba q" "partition_bytes d q = data"
  using assms unfolding two_volumes_def by (elim exE conjE) (rule that)

text \<open>The table of the final image. The room that is left after \<open>sol-boot\<close> takes \<open>sol-data\<close>.\<close>

lemma image_table:
  assumes g: "gpt_documented g" and b: "0 < b" "b < 2 ^ 50" "b \<le> 2048 * k" "2048 * k < b + 2048"
    and t: "table_ok t" "gd_partitions t = []" "length (gd_device t) = 512 * (2048 * (k + 67))"
  obtains i j p q t1 t2 where
    "add_partition g (lit ''sol-boot'') (512 * b) (type_EFI g) 0 (Some 2048) t = Ok (i, t1)"
    "add_partition g (lit ''sol-data'') (512 * 131072) (type_BASIC g) 0 (Some 2048) t1 = Ok (j, t2)"
    "map_of (gd_partitions t2) i = Some p" "map_of (gd_partitions t2) j = Some q" "snd ` set (gd_partitions t2) = {p, q}"
    "length (gd_partitions t2) = 2" "table_ok t2" "i \<noteq> j"
    "p = \<lparr>part_type_guid = type_EFI g, part_name = lit ''sol-boot'', first_lba = 2048, last_lba = 2048 + b - 1\<rparr>"
    "part_type_guid q = type_BASIC g" "part_name q = lit ''sol-data''" "2048 dvd first_lba q" "last_lba q = first_lba q + 131072 - 1"
proof -
  define p where "p = \<lparr>part_type_guid = type_EFI g, part_name = lit ''sol-boot'', first_lba = 2048, last_lba = 2048 + b - 1\<rparr>"
  have names: "length (lit ''sol-boot'') \<le> 36" "list_all (\<lambda>c. 0 < c \<and> c < 2 ^ 16) (lit ''sol-boot'')"
    "length (lit ''sol-data'') \<le> 36" "list_all (\<lambda>c. 0 < c \<and> c < 2 ^ 16) (lit ''sol-data'')"
    by (simp_all add: lit_def)
  have room: "free_at t b 2048"
    using b(3) t(2,3) by (simp add: free_empty)
  obtain i lba where boot: "add_partition g (lit ''sol-boot'') (512 * b) (type_EFI g) 0 (Some 2048) t = Ok (i, t\<lparr>gd_partitions :=
      insort_key fst (i, \<lparr>part_type_guid = type_EFI g, part_name = lit ''sol-boot'', first_lba = lba, last_lba = lba + b - 1\<rparr>) (gd_partitions t)\<rparr>)"
    "i < 2 ^ 32" "aligned_at (Some 2048) lba" "free_at t b lba" "\<forall>l < lba. \<not> (aligned_at (Some 2048) l \<and> free_at t b l)"
    using t(2) by (rule_tac added [OF g t(1) _ names(1,2) b(1) _ room, of "Some 2048" "type_EFI g" 0]) (simp_all add: aligned_at_def)
  have "\<not> 2048 < lba" "34 \<le> lba" "2048 dvd lba"
    using boot(3-5) room by (auto simp: aligned_at_def free_at_def)
  then have lba: "lba = 2048"
    by (metis dvd_imp_le gr_zeroI leD le_neq_implies_less not_numeral_le_zero)
  define t1 where "t1 = t\<lparr>gd_partitions := [(i, p)]\<rparr>"
  have t1: "add_partition g (lit ''sol-boot'') (512 * b) (type_EFI g) 0 (Some 2048) t = Ok (i, t1)" "gd_partitions t1 = [(i, p)]"
    using boot(1) t(2) by (simp_all add: lba p_def t1_def)
  have ok1: "table_ok t1"
    using added_ok [OF t(1), of p b i] t(2) boot(2) room b(1) names by (simp add: p_def t1_def)
  have room1: "free_at t1 131072 (2048 + 2048 * k)"
    using b t(3) by (simp add: free_at_def t1_def p_def)
  obtain j lba2 where data: "add_partition g (lit ''sol-data'') (512 * 131072) (type_BASIC g) 0 (Some 2048) t1 = Ok (j, t1\<lparr>gd_partitions :=
      insort_key fst (j, \<lparr>part_type_guid = type_BASIC g, part_name = lit ''sol-data'', first_lba = lba2, last_lba = lba2 + 131072 - 1\<rparr>) (gd_partitions t1)\<rparr>)"
    "j \<notin> fst ` set (gd_partitions t1)" "j < 2 ^ 32" "aligned_at (Some 2048) lba2" "free_at t1 131072 lba2"
    using t1(2) by (rule_tac added [OF g ok1 _ names(3,4) _ _ room1, of "Some 2048" "type_BASIC g" 0]) (simp_all add: aligned_at_def)
  define q where "q = \<lparr>part_type_guid = type_BASIC g, part_name = lit ''sol-data'', first_lba = lba2, last_lba = lba2 + 131072 - 1\<rparr>"
  let ?t2 = "t1\<lparr>gd_partitions := insort_key fst (j, q) [(i, p)]\<rparr>"
  have "table_ok ?t2"
    using added_ok [OF ok1, of q 131072 j] t1(2) data(2,3,5) names by (simp add: q_def)
  moreover have "add_partition g (lit ''sol-data'') (512 * 131072) (type_BASIC g) 0 (Some 2048) t1 = Ok (j, ?t2)"
    using data(1) t1(2) by (simp add: q_def)
  ultimately show ?thesis
    using that [of i t1 j ?t2 p q] t1 data(2,4) by (simp add: p_def q_def aligned_at_def insert_commute split: if_splits)
qed

lemma image_assembled:
  assumes g: "gpt_documented g" and boot: "extract_efi_partition g base_image fs = Ok (boot, 512 * b)" "length boot = 512 * b" "0 < b" "b < 2 ^ 50"
    and data: "fs data_volume = Some vol" "length vol = DATA_PARTITION_BYTES" "data_volume \<noteq> output_image"
  obtains d where "assemble_two_partition_image g base_image output_image data_volume fs = Ok (fs(output_image \<mapsto> d))" "two_volumes g d boot vol"
proof -
  obtain k where size: "image_size (512 * b) = Ok (512 * (2048 * (k + 67)))" and k: "b \<le> 2048 * k" "2048 * k < b + 2048"
    by (rule image_size_eq [OF boot(4)]) (rule that)
  let ?n = "2048 * (k + 67)"
  obtain d t where new: "overwrite_lba0 g (clamp_u32 (?n - 1)) (set_len (512 * ?n) []) = Ok d" "create_from_device g d = Ok t"
    "update_partitions g [] t = Ok (t\<lparr>gd_partitions := []\<rparr>)" "table_ok (t\<lparr>gd_partitions := []\<rparr>)" "length (gd_device t) = 512 * ?n"
    using k boot(4) by (rule_tac new_table [OF g, of ?n "clamp_u32 (?n - 1)"]) simp_all
  obtain i j p q t1 t2 where
    add: "add_partition g (lit ''sol-boot'') (512 * b) (type_EFI g) 0 (Some 2048) (t\<lparr>gd_partitions := []\<rparr>) = Ok (i, t1)"
      "add_partition g (lit ''sol-data'') (512 * 131072) (type_BASIC g) 0 (Some 2048) t1 = Ok (j, t2)"
      "map_of (gd_partitions t2) i = Some p" "map_of (gd_partitions t2) j = Some q"
    and ps: "snd ` set (gd_partitions t2) = {p, q}" "length (gd_partitions t2) = 2" and ok: "table_ok t2" "i \<noteq> j"
    and pq: "p = \<lparr>part_type_guid = type_EFI g, part_name = lit ''sol-boot'', first_lba = 2048, last_lba = 2048 + b - 1\<rparr>"
      "part_type_guid q = type_BASIC g" "part_name q = lit ''sol-data''" "2048 dvd first_lba q" "last_lba q = first_lba q + 131072 - 1"
    by (rule image_table [OF g boot(3,4) k new(4)]) (use new(5) in simp_all)
  obtain w where w: "write_table g t2 = Ok w" "length w = length (gd_device t2)"
    "\<And>d'. same_outside (gd_partitions t2) w d' \<Longrightarrow> open_table g d' = Ok \<lparr>gd_device = d', gd_partitions = gd_partitions t2\<rparr>"
    by (rule written [OF g ok(1)]) (rule that)
  note in_table = map_of_SomeD [OF add(3)] map_of_SomeD [OF add(4)]
  have p: "holds w p" "last_lba p < 2 ^ 55 - 1" and q: "holds w q" "last_lba q < 2 ^ 55 - 1"
    using table_holds [OF ok(1) in_table(1) w(2)] table_holds [OF ok(1) in_table(2) w(2)] by simp_all
  have apart: "apart p q"
    using ok in_table unfolding table_ok_def Let_def by (metis fst_conv snd_conv)
  have len: "length boot = 512 * (last_lba p + 1 - first_lba p)" "length vol = 512 * (last_lba q + 1 - first_lba q)"
    using boot(2,3) data(2) pq by (simp_all add: image_constants)
  let ?d1 = "write_all_at w (512 * first_lba p) boot"
  let ?d2 = "write_all_at ?d1 (512 * first_lba q) vol"
  have kept: "holds ?d1 p" "holds ?d1 q" "holds ?d2 p" "holds ?d2 q"
    using p(1) q(1) write_partition_length [OF p(1) len(1)] write_partition_length [of ?d1, OF _ len(2)] by (simp_all add: holds_def)
  have "open_table g ?d2 = Ok \<lparr>gd_device = ?d2, gd_partitions = gd_partitions t2\<rparr>"
    using w(3) same_outside_write [OF same_outside_write [OF same_outside_refl _ p(1) len(1)] _ q(1) len(2)] ps(1) by simp
  moreover have "partition_bytes ?d2 p = boot" "partition_bytes ?d2 q = vol"
    using partition_bytes_kept [OF kept(1,2) apart len(2)] partition_bytes_written [OF p(1) len(1)] partition_bytes_written [OF kept(2) len(2)]
    by simp_all
  ultimately have "two_volumes g ?d2 boot vol"
    unfolding two_volumes_def using ps apart kept p(2) q(2) pq by (intro exI [of _ "gd_partitions t2"] exI [of _ p] exI [of _ q]) simp
  moreover have "copy_data_partition g data_volume output_image q (fs(output_image \<mapsto> ?d1)) = Ok (fs(output_image \<mapsto> ?d2))"
    using data(1,3) read_partition [OF g q] len(2) by (simp add: copy_data_partition_def open_file_def)
  then have "assemble_two_partition_image g base_image output_image data_volume fs = Ok (fs(output_image \<mapsto> ?d2))"
    using boot(1) size new(1-3) add w(1) read_partition(1) [OF g p]
    by (simp add: assemble_two_partition_image_def open_truncated_def image_constants Let_def)
  ultimately show ?thesis
    using that by blast
qed

lemma find_unique:
  assumes "x \<in> set xs" "P x" "\<And>y. y \<in> set xs \<Longrightarrow> P y \<Longrightarrow> y = x"
  shows "find P xs = Some x"
proof (cases "find P xs")
  case None
  then show ?thesis
    using assms(1,2) by (simp add: find_None_iff)
next
  case (Some y)
  then have "y \<in> set xs" "P y"
    by (auto simp: find_Some_iff)
  then show ?thesis
    using Some assms(3) [of y] by simp
qed

text \<open>Taking the EFI partition out of the final image gives the boot volume back.\<close>

lemma two_volumes_extract:
  assumes "gpt_documented g" "two_volumes g d boot data" "fs disk = Some d"
  shows "extract_efi_partition g disk fs = Ok (boot, length boot)"
proof -
  obtain ps p q where v: "open_table g d = Ok \<lparr>gd_device = d, gd_partitions = ps\<rparr>" "snd ` set ps = {p, q}" "holds d p" "last_lba p < 2 ^ 55 - 1"
      "part_type_guid p = type_EFI g" "partition_bytes d p = boot" "part_type_guid q = type_BASIC g"
    by (rule two_volumesE [OF assms(2)]) (rule that)
  have "set (map snd ps) = {p, q}"
    using v(2) by simp
  then have "find (\<lambda>p. part_type_guid p = type_EFI g) (map snd ps) = Some p"
    using v(5,7) documented_types(2) [OF assms(1)] by (rule_tac find_unique) auto
  then have "extract_efi_partition g disk fs = Ok (partition_bytes d p, 512 * (last_lba p + 1 - first_lba p))"
    using extract_efi [of g fs disk d _ p] assms(1,3) v(1,3,4) by simp
  moreover have "length (partition_bytes d p) = 512 * (last_lba p + 1 - first_lba p)"
    using holdsD(3) [OF v(3)] by (simp add: partition_bytes_def)
  ultimately show ?thesis
    using v(6) by simp
qed

section \<open>Properties\<close>


text \<open>Files for the example.\<close>

definition example_files :: files where
  "example_files = [lit ''boot.fat'' \<mapsto> replicate (512 * 2) 1, lit ''sol-data.fat'' \<mapsto> replicate DATA_PARTITION_BYTES 0]"


end
