(* ===== verification/Image_Builder_Correct.thy ===== *)
theory Image_Builder_Correct
  imports Image_Builder Disk_Image_Correct "HOL-Library.Multiset"
begin

text \<open>
  The data volume does not depend on the order in which the host lists its directories, every path of the host
  tree is watched, and the whole script leaves an image that holds both volumes.
\<close>

section \<open>The same tree, listed differently\<close>

inductive same_node :: "host_node \<Rightarrow> host_node \<Rightarrow> bool" where
  same_file: "same_node (HostFile bytes) (HostFile bytes)"
| same_other: "same_node HostOther HostOther"
| same_dir: "list_all2 (\<lambda>a b. fst a = fst b \<and> same_node (snd a) (snd b)) es fs \<Longrightarrow> mset fs = mset es' \<Longrightarrow> same_node (HostDir es) (HostDir es')"
monos list_all2_mono

inductive_cases same_node_elims: "same_node (HostFile bytes) n" "same_node HostOther n" "same_node (HostDir es) n"

definition same_listing :: "listing \<Rightarrow> listing \<Rightarrow> bool" where
  "same_listing es es' \<longleftrightarrow> same_node (HostDir es) (HostDir es')"

text \<open>A directory does not list a name twice.\<close>

primrec names_distinct :: "host_node \<Rightarrow> bool" where
  "names_distinct (HostFile bytes) = True"
| "names_distinct (HostDir es) \<longleftrightarrow> distinct (map fst es) \<and> list_all snd (map (map_prod id names_distinct) es)"
| "names_distinct HostOther = True"

lemma insort_related:
  "list_all2 (\<lambda>a b. fst a = fst b \<and> R (snd a) (snd b)) xs ys \<Longrightarrow> fst x = fst y \<and> R (snd x) (snd y) \<Longrightarrow> list_all2 (\<lambda>a b. fst a = fst b \<and> R (snd a) (snd b)) (insort_key fst x xs) (insort_key fst y ys)"
  by (induction rule: list_all2_induct) auto

lemma sort_related: "list_all2 (\<lambda>a b. fst a = fst b \<and> R (snd a) (snd b)) xs ys \<Longrightarrow> list_all2 (\<lambda>a b. fst a = fst b \<and> R (snd a) (snd b)) (sort_key fst xs) (sort_key fst ys)"
  by (induction rule: list_all2_induct) (auto intro: insort_related)

lemma sort_by_name:
  assumes "mset fs = mset es" "distinct (map fst es)"
  shows "sort_key fst fs = sort_key fst es"
proof (rule sort_key_inj_key_eq)
  show "mset fs = mset (sort_key fst es)"
    using assms(1) by simp
  show "inj_on fst (set fs)"
    using assms by (metis distinct_map mset_eq_setD)
  show "sorted (map fst (sort_key fst es))"
    by simp
qed

lemma sorted_listing:
  assumes "list_all2 (\<lambda>a b. fst a = fst b \<and> R (snd a) (snd b)) es fs" "mset fs = mset es'" "distinct (map fst es')"
  shows "list_all2 (\<lambda>a b. fst a = fst b \<and> R (snd a) (snd b)) (sort_key fst es) (sort_key fst es')"
  using sort_related [OF assms(1)] sort_by_name [OF assms(2,3)] by simp

lemma for_each_related:
  assumes "list_all2 P xs ys" "\<And>x y s. y \<in> set ys \<Longrightarrow> P x y \<Longrightarrow> body x s = body y s"
  shows "for_each body xs s = for_each body ys s"
  using assms
proof (induction arbitrary: s rule: list_all2_induct)
  case (Cons x xs y ys)
  have "body x s = body y s"
    using Cons.prems Cons.hyps(1) by simp
  moreover have "for_each body xs = for_each body ys"
    using Cons.IH Cons.prems by (intro ext) simp
  ultimately show ?case
    by simp
qed simp

lemma list_all2_map_eq:
  assumes "list_all2 P xs ys" "\<And>x y. y \<in> set ys \<Longrightarrow> P x y \<Longrightarrow> f x = f y"
  shows "map f xs = map f ys"
  using assms by (auto simp: list_all2_conv_all_nth list_eq_iff_nth_eq)

lemma names_distinct_dir: "names_distinct (HostDir es) \<longleftrightarrow> distinct (map fst es) \<and> (\<forall>e \<in> set es. names_distinct (snd e))"
  by (auto simp: list_all_iff)

lemma copy_same:
  assumes "same_node n n'" "names_distinct n'"
  shows "n = HostDir es \<Longrightarrow> n' = HostDir es' \<Longrightarrow> copy_host_tree c es d v = copy_host_tree c es' d v"
  using assms
proof (induction arbitrary: es es' d v rule: same_node.induct)
  case (same_dir es1 fs es2)
  let ?Q = "\<lambda>n n'. names_distinct n' \<longrightarrow>
    (\<forall>es es' d v. n = HostDir es \<longrightarrow> n' = HostDir es' \<longrightarrow> copy_host_tree c es d v = copy_host_tree c es' d v)"
  have dist: "distinct (map fst es2)" "\<forall>e \<in> set es2. names_distinct (snd e)"
    using same_dir.prems unfolding names_distinct_dir by blast+
  have "list_all2 (\<lambda>a b. fst a = fst b \<and> (same_node (snd a) (snd b) \<and> ?Q (snd a) (snd b))) es1 fs"
    using same_dir.IH by (rule list_all2_mono) auto
  then have sorted: "list_all2 (\<lambda>a b. fst a = fst b \<and> (same_node (snd a) (snd b) \<and> ?Q (snd a) (snd b))) (sort_key fst es1) (sort_key fst es2)"
    by (rule sorted_listing [OF _ same_dir.hyps dist(1)])
  have "copy_host_tree c es1 d v = copy_host_tree c es2 d v"
    unfolding copy_host_tree.simps [of c es1] copy_host_tree.simps [of c es2]
    using dist(2) by (intro for_each_related [OF sorted])
      (auto elim: same_node.cases split: host_node.split intro!: obind_cong)
  then show ?case
    using same_dir.prems by simp
qed simp_all

lemma watch_same:
  assumes "same_node n n'" "names_distinct n'"
  shows "n = HostDir es \<Longrightarrow> n' = HostDir es' \<Longrightarrow> watch_host_tree t d es = watch_host_tree t d es'"
  using assms
proof (induction arbitrary: es es' d rule: same_node.induct)
  case (same_dir es1 fs es2)
  let ?Q = "\<lambda>n n'. names_distinct n' \<longrightarrow>
    (\<forall>es es' d. n = HostDir es \<longrightarrow> n' = HostDir es' \<longrightarrow> watch_host_tree t d es = watch_host_tree t d es')"
  have dist: "distinct (map fst es2)" "\<forall>e \<in> set es2. names_distinct (snd e)"
    using same_dir.prems unfolding names_distinct_dir by blast+
  have "list_all2 (\<lambda>a b. fst a = fst b \<and> (same_node (snd a) (snd b) \<and> ?Q (snd a) (snd b))) es1 fs"
    using same_dir.IH by (rule list_all2_mono) auto
  then have sorted: "list_all2 (\<lambda>a b. fst a = fst b \<and> (same_node (snd a) (snd b) \<and> ?Q (snd a) (snd b))) (sort_key fst es1) (sort_key fst es2)"
    by (rule sorted_listing [OF _ same_dir.hyps dist(1)])
  let ?w = "\<lambda>entry. RerunIfChanged t (d @ [fst entry]) #
       (case snd entry of HostDir children \<Rightarrow> watch_host_tree t (d @ [fst entry]) children | _ \<Rightarrow> [])"
  have "map ?w (sort_key fst es1) = map ?w (sort_key fst es2)"
    using sorted dist(2) by (intro list_all2_map_eq [OF sorted]) (auto elim: same_node.cases split: host_node.split)
  then have "watch_host_tree t d es1 = watch_host_tree t d es2"
    unfolding watch_host_tree.simps [of t d es1] watch_host_tree.simps [of t d es2] by simp
  then show ?case
    using same_dir.prems by simp
qed simp_all

section \<open>Watched paths\<close>

text \<open>The paths of a tree: the names of its entries, and the paths below its directories.\<close>

inductive in_tree :: "listing \<Rightarrow> u8 list list \<Rightarrow> bool" where
  entry: "(name, node) \<in> set es \<Longrightarrow> in_tree es [name]"
| below: "(name, HostDir es') \<in> set es \<Longrightarrow> in_tree es' p \<Longrightarrow> in_tree es (name # p)"

lemma in_tree_iff:
  "in_tree es p \<longleftrightarrow> (\<exists>entry \<in> set es. p = [fst entry] \<or> (\<exists>children q. snd entry = HostDir children \<and> p = fst entry # q \<and> in_tree children q))"
  by (subst in_tree.simps) (simp add: Bex_def split_paired_Ex, blast)

lemma watched:
  "RerunIfChanged t p \<in> set (watch_host_tree t d es) \<longleftrightarrow> p = d \<or> (\<exists>q. p = d @ q \<and> in_tree es q)"
proof (induction t d es rule: watch_host_tree.induct)
  case (1 t d es)
  let ?w = "\<lambda>entry. RerunIfChanged t (d @ [fst entry]) #
       (case snd entry of HostDir children \<Rightarrow> watch_host_tree t (d @ [fst entry]) children | _ \<Rightarrow> [])"
  have lines: "RerunIfChanged t p \<in> set (?w entry) \<longleftrightarrow> p = d @ [fst entry] \<or>
      (\<exists>children q. snd entry = HostDir children \<and> p = d @ fst entry # q \<and> in_tree children q)" if "entry \<in> set es" for entry
    using "1.IH" [of entry] that by (cases "snd entry") auto
  have "RerunIfChanged t p \<in> set (watch_host_tree t d es) \<longleftrightarrow> p = d \<or> (\<exists>entry \<in> set es. RerunIfChanged t p \<in> set (?w entry))"
    unfolding watch_host_tree.simps [of t d es] by simp
  also have "\<dots> \<longleftrightarrow> p = d \<or> (\<exists>q. p = d @ q \<and> in_tree es q)"
    unfolding in_tree_iff [of es] using lines by auto
  finally show ?case .
qed

section \<open>The whole script\<close>

lemma join_end: "5 \<le> length name \<Longrightarrow> take 5 (rev (join p name)) = take 5 (rev (lit name))"
  by (simp add: join_def lit_def)

lemma paths_distinct:
  "join out ''bootloader-base.img'' \<noteq> join out ''sol-data.fat''"
  "join m ''sol-os.img'' \<noteq> join out ''sol-data.fat''"
proof -
  have ends: "take 5 (rev (join p ''bootloader-base.img'')) = rev (lit ''e.img'')" "take 5 (rev (join p ''sol-data.fat'')) = rev (lit ''a.fat'')"
    "take 5 (rev (join p ''sol-os.img'')) = rev (lit ''s.img'')" for p
    by (simp_all add: join_end) (simp_all add: lit_def)
  have "lit ''e.img'' \<noteq> lit ''a.fat''" "lit ''s.img'' \<noteq> lit ''a.fat''"
    by (simp_all add: lit_def)
  then show "join out ''bootloader-base.img'' \<noteq> join out ''sol-data.fat''" "join m ''sol-os.img'' \<noteq> join out ''sol-data.fat''"
    using ends by (metis rev_is_rev_conv)+
qed

lemma extract_same_file: "fs disk = fs' disk \<Longrightarrow> extract_efi_partition g disk fs = extract_efi_partition g disk fs'"
  by (simp add: extract_efi_partition_def open_file_def)

lemma uefi_image_made:
  assumes g: "gpt_documented g" and boot: "create_fat_filesystem_image env kernel_path config fs = Ok boot" "length boot = 512 * b" "0 < b" "b < 2 ^ 50"
    and temp: "temp_file env \<noteq> base_image"
  obtains d where "create_uefi_image g env kernel_path config base_image fs = Ok (fs(base_image \<mapsto> d, temp_file env := None))"
    "extract_efi_partition g base_image (fs(base_image \<mapsto> d, temp_file env := None)) = Ok (boot, 512 * b)"
proof -
  let ?fs = "fs(temp_file env \<mapsto> boot)"
  obtain d where d: "create_gpt_disk g (temp_file env) base_image ?fs = Ok (?fs(base_image \<mapsto> d))"
    "extract_efi_partition g base_image (?fs(base_image \<mapsto> d)) = Ok (boot, 512 * b)"
    using boot(2-4) temp by (rule_tac boot_image_made [OF g, of ?fs "temp_file env" boot b base_image]) simp_all
  have "(?fs(base_image \<mapsto> d))(temp_file env := None) = fs(base_image \<mapsto> d, temp_file env := None)"
    using temp by (simp add: fun_eq_iff)
  then have "create_uefi_image g env kernel_path config base_image fs = Ok (fs(base_image \<mapsto> d, temp_file env := None))"
    using boot(1) d(1) by (simp add: create_uefi_image_def)
  moreover have "extract_efi_partition g base_image (fs(base_image \<mapsto> d, temp_file env := None)) = Ok (boot, 512 * b)"
    using d(2) extract_same_file [of "?fs(base_image \<mapsto> d)" base_image "fs(base_image \<mapsto> d, temp_file env := None)" g] temp by simp
  ultimately show ?thesis
    by (rule that)
qed

text \<open>
  The script makes the image whenever the environment is complete, the crate for FAT makes a data volume of the size
  of its partition, and the loader's crate a boot volume of whole blocks.
\<close>

definition build_inputs :: "('v, 'd, 'f) fat_crate \<Rightarrow> build_env \<Rightarrow> files \<Rightarrow> path \<Rightarrow> u8 list \<Rightarrow> u8 list \<Rightarrow> bool" where
  "build_inputs c env fs final_image boot data \<longleftrightarrow> (\<exists>k out m es fs1.
     var_kernel env = Some k \<and> var_out_dir env = Some out \<and> var_manifest_dir env = Some m \<and>
     final_image = join (join m ''build'') ''sol-os.img'' \<and>
     host_tree env (join m ''disk_files'') = Some (HostDir es) \<and>
     build_data_volume c (join out ''sol-data.fat'') (join m ''disk_files'') (Some (HostDir es)) fs = Ok fs1 \<and>
     fs1 (join out ''sol-data.fat'') = Some data \<and> length data = DATA_PARTITION_BYTES \<and>
     create_fat_filesystem_image env k sol_boot_config fs1 = Ok boot \<and> boot \<noteq> [] \<and> 512 dvd length boot \<and> length boot < 2 ^ 59 \<and>
     temp_file env \<notin> {join out ''bootloader-base.img'', join out ''sol-data.fat''})"

lemma build_makes_image:
  assumes g: "gpt_documented g" and inputs: "build_inputs c env fs final_image boot data"
  obtains lines fs' d where "build_main c g env fs = Ok (lines, fs')" "fs' final_image = Some d" "two_volumes g d boot data"
proof -
  obtain k out m es fs1 where env: "var_kernel env = Some k" "var_out_dir env = Some out" "var_manifest_dir env = Some m"
    and final: "final_image = join (join m ''build'') ''sol-os.img''" and host: "host_tree env (join m ''disk_files'') = Some (HostDir es)"
    and vol: "build_data_volume c (join out ''sol-data.fat'') (join m ''disk_files'') (Some (HostDir es)) fs = Ok fs1"
      "fs1 (join out ''sol-data.fat'') = Some data" "length data = DATA_PARTITION_BYTES"
    and boot: "create_fat_filesystem_image env k sol_boot_config fs1 = Ok boot" "boot \<noteq> []" "512 dvd length boot" "length boot < 2 ^ 59"
    and temp: "temp_file env \<notin> {join out ''bootloader-base.img'', join out ''sol-data.fat''}"
    using inputs unfolding build_inputs_def by (elim exE conjE) (rule that)
  let ?base = "join out ''bootloader-base.img''" and ?vol = "join out ''sol-data.fat''"
  obtain b where b: "length boot = 512 * b"
    using boot(3) by (elim dvdE)
  then have b': "0 < b" "b < 2 ^ 50"
    using boot(2,4) by (cases b; simp)+
  obtain base where base: "create_uefi_image g env k sol_boot_config ?base fs1 = Ok (fs1(?base \<mapsto> base, temp_file env := None))"
    "extract_efi_partition g ?base (fs1(?base \<mapsto> base, temp_file env := None)) = Ok (boot, 512 * b)"
    using temp by (rule_tac uefi_image_made [OF g boot(1) b b', of ?base]) simp_all
  let ?fs2 = "fs1(?base \<mapsto> base, temp_file env := None)"
  have "?fs2 ?vol = Some data"
    using vol(2) temp paths_distinct(1) [of out] by auto
  then obtain d where d: "assemble_two_partition_image g ?base final_image ?vol ?fs2 = Ok (?fs2(final_image \<mapsto> d))" "two_volumes g d boot data"
    using paths_distinct(2) [of "join m ''build''" out] final
    by (rule_tac image_assembled [OF g base(2) b b' _ vol(3), of ?vol final_image]) auto
  have "\<exists>lines. build_main c g env fs = Ok (lines, ?fs2(final_image \<mapsto> d))"
    using env host vol(1) base(1) d(1) unfolding final by (simp add: build_main_def Let_def read_dir_def)
  then show ?thesis
    using that d(2) by auto
qed

section \<open>An example\<close>

text \<open>A volume that remembers the names that are created in it, and an environment with two blocks of boot volume.\<close>

definition example_fat :: "(u8 list \<times> str list, unit, unit) fat_crate" where
  "example_fat = \<lparr>format_volume = (\<lambda>_ _ d. Ok d), open_volume = (\<lambda>d. Ok (d, [])), volume_type = (\<lambda>_. Fat32), root_dir = (\<lambda>_. ()),
     create_dir = (\<lambda>_ name v. Ok ((), fst v, snd v @ [name])), create_file = (\<lambda>_ name v. Ok ((), fst v, snd v @ [name])),
     write_file = (\<lambda>_ _ v. Ok v), flush_file = (\<lambda>_ v. Ok v), unmount = (\<lambda>v. Ok (fst v))\<rparr>"

definition example_env :: build_env where
  "example_env = \<lparr>var_kernel = Some (lit ''kernel''), var_out_dir = Some (lit ''out''), var_manifest_dir = Some (lit ''sol''),
     host_tree = [join (lit ''sol'') ''disk_files'' \<mapsto> HostDir []], temp_file = lit ''tmp'',
     create_fat_filesystem_image = (\<lambda>_ _ _. Ok (replicate (512 * 2) 1))\<rparr>"

lemma example_inputs:
  "build_inputs example_fat example_env Map.empty (join (join (lit ''sol'') ''build'') ''sol-os.img'') (replicate (512 * 2) 1) (replicate DATA_PARTITION_BYTES 0)"
proof -
  have "build_data_volume example_fat (join (lit ''out'') ''sol-data.fat'') (join (lit ''sol'') ''disk_files'') (Some (HostDir [])) Map.empty =
      Ok [join (lit ''out'') ''sol-data.fat'' \<mapsto> replicate DATA_PARTITION_BYTES 0]"
    by (simp add: build_data_volume_def example_fat_def read_dir_def copy_host_tree.simps open_truncated_def set_len_def)
  moreover have "temp_file example_env \<notin> {join (lit ''out'') ''bootloader-base.img'', join (lit ''out'') ''sol-data.fat''}"
    by (simp add: example_env_def join_def lit_def)
  ultimately show ?thesis
    unfolding build_inputs_def
    by (intro exI [of _ "lit ''kernel''"] exI [of _ "lit ''out''"] exI [of _ "lit ''sol''"] exI [of _ "[]"]
        exI [of _ "[join (lit ''out'') ''sol-data.fat'' \<mapsto> replicate DATA_PARTITION_BYTES 0]"]) (simp add: example_env_def)
qed

section \<open>Properties\<close>

text \<open>
  C25. The build does not depend on the order in which the host lists its directories: for two listings of the same
  tree, at every level the same names with the same contents in any order, the script prints the same lines for Cargo and makes the
  same files, or fails in the same way. The crates behave alike in both builds: the identifiers that \<open>gpt\<close> draws at
  random for a disk and its partitions are part of that behaviour and not of the claim.
\<close>

theorem build_reproducible:
  assumes "same_listing es es'" "names_distinct (HostDir es')"
    and "var_manifest_dir env = Some m" "host (join m ''disk_files'') = Some (HostDir es)"
  shows "build_main c g (env\<lparr>host_tree := host\<rparr>) fs = build_main c g (env\<lparr>host_tree := host(join m ''disk_files'' \<mapsto> HostDir es')\<rparr>) fs"
proof -
  have "copy_host_tree c es = copy_host_tree c es'"
    by (intro ext) (rule copy_same [OF assms(1) [unfolded same_listing_def] assms(2) refl refl])
  moreover have "watch_host_tree t d es = watch_host_tree t d es'" for t d
    by (rule watch_same [OF assms(1) [unfolded same_listing_def] assms(2) refl refl])
  ultimately show ?thesis
    using assms(3,4) by (simp add: build_main_def build_data_volume_def read_dir_def create_uefi_image_def Let_def cong: if_cong)
qed

text \<open>Witness of C25: two listings of a directory with an empty file and an empty directory.\<close>

theorem build_reproducible_witness:
  "build_main example_fat example_gpt (example_env\<lparr>host_tree := [join (lit ''sol'') ''disk_files'' \<mapsto> HostDir [([0x42], HostFile []), ([0x41], HostDir [])]]\<rparr>) Map.empty =
   build_main example_fat example_gpt (example_env\<lparr>host_tree := [join (lit ''sol'') ''disk_files'' \<mapsto> HostDir [([0x42], HostFile []), ([0x41], HostDir [])],
     join (lit ''sol'') ''disk_files'' \<mapsto> HostDir [([0x41], HostDir []), ([0x42], HostFile [])]]\<rparr>) Map.empty"
proof -
  have "same_node (HostDir []) (HostDir [])"
    by (rule same_dir [of _ "[]"]) simp_all
  then have "same_listing [([0x42], HostFile []), ([0x41], HostDir [])] [([0x41], HostDir []), ([0x42], HostFile [])]"
    unfolding same_listing_def by (intro same_dir [of _ "[([0x42], HostFile []), ([0x41], HostDir [])]"]) (simp_all add: same_file)
  then show ?thesis
    by (rule build_reproducible) (simp_all add: example_env_def)
qed

text \<open>
  Cargo is told of exactly the paths of the host tree: the lines for \<open>disk_files\<close> name the directory itself and
  every file and directory below it, and nothing else, so a change of any of them rebuilds the image.
\<close>

lemma watch_covers_tree:
  "RerunIfChanged t p \<in> set (watch_host_tree t [] es) \<longleftrightarrow> p = [] \<or> in_tree es p"
  by (simp add: watched)

end
