(* ===== verification/Data_Loader.thy ===== *)
theory Data_Loader
  imports Prelude
begin

text \<open>
  The hand-over of the data partition (\<open>vendor/bootloader/uefi/src/main.rs\<close>, the part this fork adds): while the
  firmware is still there, the loader looks for the GPT partition \<open>sol-data\<close>, reads all of it through the Block I/O
  protocol, and passes address and length on as the RAM disk. The firmware is a parameter.
\<close>

section \<open>The firmware\<close>

record gpt_entry =
  partition_type_guid :: "128 word"
  partition_name :: "u16 list"

record block_media =
  block_size :: u32
  last_block :: u64
  is_media_present :: bool
  is_logical_partition :: bool
  io_align :: u32
  media_id :: u32

text \<open>
  \<open>read_blocks id lba n\<close> fills a buffer of \<open>n\<close> bytes: the byte it puts at each position, or an error.
  \<open>allocate_pages n\<close> gives an address and the bytes that happen to be there.
\<close>

record block_io =
  bio_media :: block_media
  read_blocks :: "u32 \<Rightarrow> u64 \<Rightarrow> nat \<Rightarrow> (nat \<Rightarrow> u8) option"

record 'h firmware =
  locate_partitions :: "'h list option"
  partition_info :: "'h \<Rightarrow> gpt_entry option option"
  open_block_io :: "'h \<Rightarrow> block_io option"
  allocate_pages :: "nat \<Rightarrow> (u64 \<times> u8 list) option"

section \<open>The loader\<close>

datatype boot_mode = Disk | Tftp

definition SOL_DATA_PARTITION_TYPE :: "128 word" where
  "SOL_DATA_PARTITION_TYPE = 0xebd0a0a2b9e5443387c068b6b72699c7"

definition SOL_DATA_PARTITION_NAME :: "u8 list" where
  "SOL_DATA_PARTITION_NAME = map (of_nat \<circ> of_char) ''sol-data''"

definition LOADER_PAGE_SIZE :: u64 where
  "LOADER_PAGE_SIZE = 4096"

definition SOL_DATA_BYTES :: u64 where
  "SOL_DATA_BYTES = 64 * 1024 * 1024"

definition BLOCK_IO_CHUNK_BYTES :: nat where
  "BLOCK_IO_CHUNK_BYTES = 64 * 1024"

definition is_sol_data_partition_entry :: "gpt_entry \<Rightarrow> bool" where
  "is_sol_data_partition_entry entry =
     (if partition_type_guid entry \<noteq> SOL_DATA_PARTITION_TYPE then False
      else let name = partition_name entry in
        if length name \<le> length SOL_DATA_PARTITION_NAME then False
        else list_all (\<lambda>(character, expected). character = ucast expected)
               (zip (take (length SOL_DATA_PARTITION_NAME) name) SOL_DATA_PARTITION_NAME) \<and>
             name ! length SOL_DATA_PARTITION_NAME = 0)"

text \<open>The loop over the chunks of the buffer; \<open>index\<close> counts them.\<close>

fun read_chunks :: "block_io \<Rightarrow> u64 \<Rightarrow> nat \<Rightarrow> u8 list list \<Rightarrow> u8 list list option" where
  "read_chunks io block_bytes index [] = Some []"
| "read_chunks io block_bytes index (chunk # rest) =
     Option.bind (checked_mul (of_nat index) (of_nat BLOCK_IO_CHUNK_BYTES div block_bytes)) (\<lambda>lba.
     Option.bind (read_blocks io (media_id (bio_media io)) lba (length chunk)) (\<lambda>bytes.
     Option.bind (read_chunks io block_bytes (index + 1) rest) (\<lambda>chunks.
     Some (map bytes [0..<length chunk] # chunks))))"

definition load_partition :: "'h firmware \<Rightarrow> 'h \<Rightarrow> (u64 \<times> u8 list) option" where
  "load_partition fw handle =
     Option.bind (open_block_io fw handle) (\<lambda>io.
     let media = bio_media io; block_bytes = ucast (block_size media) :: u64 in
     Option.bind (checked_add (last_block media) 1) (\<lambda>block_count.
     Option.bind (checked_mul block_count block_bytes) (\<lambda>byte_len.
     if \<not> is_media_present media \<or> \<not> is_logical_partition media \<or> block_bytes \<noteq> 512 \<or>
        io_align media > ucast LOADER_PAGE_SIZE \<or> byte_len \<noteq> SOL_DATA_BYTES
     then None
     else
       Option.bind (allocate_pages fw (unat (byte_len div LOADER_PAGE_SIZE))) (\<lambda>(data_ptr, contents).
       Option.bind (read_chunks io block_bytes 0 (chunks BLOCK_IO_CHUNK_BYTES (take (unat byte_len) contents))) (\<lambda>data.
       Some (data_ptr, concat data))))))"

fun search_handles :: "'h firmware \<Rightarrow> 'h list \<Rightarrow> (u64 \<times> u8 list) option" where
  "search_handles fw [] = None"
| "search_handles fw (handle # handles) = (case partition_info fw handle of
       None \<Rightarrow> search_handles fw handles
     | Some info \<Rightarrow>
         if \<not> (case info of None \<Rightarrow> False | Some entry \<Rightarrow> is_sol_data_partition_entry entry)
         then search_handles fw handles
         else load_partition fw handle)"

definition load_sol_data_partition_from_disk :: "'h firmware \<Rightarrow> (u64 \<times> u8 list) option" where
  "load_sol_data_partition_from_disk fw = Option.bind (locate_partitions fw) (search_handles fw)"

definition load_sol_data_partition :: "'h firmware \<Rightarrow> boot_mode \<Rightarrow> (u64 \<times> u8 list) option" where
  "load_sol_data_partition fw mode = (case mode of
       Disk \<Rightarrow> load_sol_data_partition_from_disk fw
     | Tftp \<Rightarrow> None)"

text \<open>The fields of the system information for the kernel.\<close>

definition ramdisk_fields :: "(u64 \<times> u8 list) option \<Rightarrow> u64 option \<times> u64" where
  "ramdisk_fields ramdisk = (case ramdisk of
       Some (ptr, data) \<Rightarrow> (Some ptr, of_nat (length data))
     | None \<Rightarrow> (None, 0))"

section \<open>Reading all chunks\<close>

lemma read_chunks_spec:
  assumes "read_chunks io b index cs = Some ds"
  shows "list_all2 (\<lambda>c d. length d = length c) cs ds"
    "k < length ds \<Longrightarrow> \<exists>lba f. unat lba = (index + k) mod 2 ^ 64 * unat (of_nat BLOCK_IO_CHUNK_BYTES div b) \<and>
       read_blocks io (media_id (bio_media io)) lba (length (ds ! k)) = Some f \<and> ds ! k = map f [0..<length (ds ! k)]"
proof -
  have "list_all2 (\<lambda>c d. length d = length c) cs ds \<and> (\<forall>k < length ds. \<exists>lba f.
      unat lba = (index + k) mod 2 ^ 64 * unat (of_nat BLOCK_IO_CHUNK_BYTES div b) \<and>
      read_blocks io (media_id (bio_media io)) lba (length (ds ! k)) = Some f \<and> ds ! k = map f [0..<length (ds ! k)])"
    using assms
  proof (induction io b index cs arbitrary: ds rule: read_chunks.induct)
    case (2 io b index c cs)
    obtain lba f rest where step: "checked_mul (of_nat index) (of_nat BLOCK_IO_CHUNK_BYTES div b) = Some lba"
        "read_blocks io (media_id (bio_media io)) lba (length c) = Some f" "read_chunks io b (index + 1) cs = Some rest"
        "ds = map f [0..<length c] # rest"
      using "2.prems" by (auto simp: bind_eq_Some_conv)
    have lba: "unat lba = index mod 2 ^ 64 * unat (of_nat BLOCK_IO_CHUNK_BYTES div b)"
      using step(1) unfolding checked_mul_Some_iff by (simp add: unat_of_nat)
    show ?case
      using "2.IH" [OF step(1-3)] step lba by (auto simp: less_Suc_eq_0_disj)
  qed simp
  then show "list_all2 (\<lambda>c d. length d = length c) cs ds"
    "k < length ds \<Longrightarrow> \<exists>lba f. unat lba = (index + k) mod 2 ^ 64 * unat (of_nat BLOCK_IO_CHUNK_BYTES div b) \<and>
       read_blocks io (media_id (bio_media io)) lba (length (ds ! k)) = Some f \<and> ds ! k = map f [0..<length (ds ! k)]"
    by blast+
qed

text \<open>
  The device \<open>io\<close> has the contents \<open>part\<close> from its block 0 on: every transfer inside succeeds and gives these bytes.
\<close>

definition serves :: "block_io \<Rightarrow> u8 list \<Rightarrow> bool" where
  "serves io part \<longleftrightarrow> (\<forall>lba n. 512 * unat lba + n \<le> length part \<longrightarrow>
     (\<exists>f. read_blocks io (media_id (bio_media io)) lba n = Some f \<and> (\<forall>k < n. f k = part ! (512 * unat lba + k))))"

lemma serves_chunk:
  assumes "serves io part" "512 * unat lba + n \<le> length part"
  obtains f where "read_blocks io (media_id (bio_media io)) lba n = Some f" "map f [0..<n] = take n (drop (512 * unat lba) part)"
proof -
  obtain f where f: "read_blocks io (media_id (bio_media io)) lba n = Some f" "\<forall>k < n. f k = part ! (512 * unat lba + k)"
    using assms unfolding serves_def by blast
  have "map f [0..<n] = take n (drop (512 * unat lba) part)"
    using f(2) assms(2) by (intro nth_equalityI) simp_all
  then show ?thesis
    using that f(1) by blast
qed

lemma read_chunks_serves:
  assumes "serves io part" "length part < 2 ^ 64" "65536 * index + length xs = length part"
  shows "read_chunks io 512 index (chunks 65536 xs) = Some (chunks 65536 (drop (65536 * index) part))"
  using assms(3)
proof (induction "65536 :: nat" xs arbitrary: index rule: chunks.induct)
  case (1 xs)
  let ?part = "drop (65536 * index) part"
  show ?case
  proof (cases "xs = []")
    case True
    then show ?thesis
      using 1 by simp
  next
    case False
    then have "0 < length xs"
      by simp
    then have "65536 * index < length part"
      using 1(2) by linarith
    then have ne: "?part \<noteq> []"
      by simp
    have step: "chunks 65536 xs = take 65536 xs # chunks 65536 (drop 65536 xs)" "chunks 65536 ?part = take 65536 ?part # chunks 65536 (drop 65536 ?part)"
      using False ne by (simp_all add: chunks.simps [of _ xs] chunks.simps [of _ ?part])
    define lba :: u64 where "lba = of_nat (index * 128)"
    have index: "index * 128 < 2 ^ 64"
      using 1(2) assms(2) by simp
    then have unat: "unat lba = index * 128" "unat (of_nat index :: u64) = index"
      unfolding lba_def by (intro unat_of_nat_small; simp)+
    have mul: "checked_mul (of_nat index :: u64) (of_nat BLOCK_IO_CHUNK_BYTES div 512) = Some lba"
      unfolding checked_mul_Some_iff unat by (simp add: BLOCK_IO_CHUNK_BYTES_def)
    have n: "512 * unat lba + length (take 65536 xs) \<le> length part"
      using 1(2) by (simp add: unat)
    obtain f where f: "read_blocks io (media_id (bio_media io)) lba (length (take 65536 xs)) = Some f"
      "map f [0..<length (take 65536 xs)] = take (length (take 65536 xs)) (drop (512 * unat lba) part)"
      by (rule serves_chunk [OF assms(1) n]) (rule that)
    have "take (length (take 65536 xs)) (drop (512 * unat lba) part) = take 65536 ?part"
      using 1(2) by (simp add: unat min_def)
    moreover have "read_chunks io 512 (index + 1) (chunks 65536 (drop 65536 xs)) = Some (chunks 65536 (drop 65536 ?part))"
    proof (cases "65536 \<le> length xs")
      case True
      then show ?thesis
        using 1(1) [of "index + 1"] 1(2) False by simp
    next
      case False
      then show ?thesis
        using 1(2) by simp
    qed
    ultimately show ?thesis
      using mul f by (simp add: step)
  qed
qed

text \<open>A partition the loader accepts.\<close>

definition media_ok :: "block_media \<Rightarrow> bool" where
  "media_ok m \<longleftrightarrow> is_media_present m \<and> is_logical_partition m \<and> block_size m = 512 \<and> io_align m \<le> 4096 \<and> last_block m = 131071"

definition pages_for :: "'h firmware \<Rightarrow> u64 \<Rightarrow> bool" where
  "pages_for fw a \<longleftrightarrow> (\<exists>contents. allocate_pages fw 16384 = Some (a, contents) \<and> length contents = 16384 * 4096)"

lemma loader_constants:
  "SOL_DATA_BYTES = 67108864" "unat (SOL_DATA_BYTES div LOADER_PAGE_SIZE) = 16384" "unat SOL_DATA_BYTES = 67108864"
  "(ucast LOADER_PAGE_SIZE :: u32) = 4096" "BLOCK_IO_CHUNK_BYTES = 65536"
  by (simp_all add: SOL_DATA_BYTES_def LOADER_PAGE_SIZE_def BLOCK_IO_CHUNK_BYTES_def)

lemma ucast_512: "ucast b = (512 :: u64) \<longleftrightarrow> b = (512 :: u32)"
proof
  assume "ucast b = (512 :: u64)"
  then have "unat (ucast b :: u64) = 512"
    by simp
  then show "b = 512"
    by (simp add: word_unat_eq_iff)
qed simp

lemma byte_len_iff:
  "Option.bind (checked_add final 1) (\<lambda>n. checked_mul n 512) = Some (67108864 :: u64) \<longleftrightarrow> final = 131071"
proof
  assume "Option.bind (checked_add final 1) (\<lambda>n. checked_mul n 512) = Some (67108864 :: u64)"
  then have "unat final = 131071"
    by (auto simp: bind_eq_Some_conv rust_simps)
  then show "final = 131071"
    by (simp add: word_unat_eq_iff)
qed (simp add: checked_add_def checked_mul_def)

lemma load_partition_eq:
  "load_partition fw h = Some (a, data) \<longleftrightarrow> (\<exists>io contents cs. open_block_io fw h = Some io \<and> media_ok (bio_media io) \<and>
     allocate_pages fw 16384 = Some (a, contents) \<and> read_chunks io 512 0 (chunks 65536 (take 67108864 contents)) = Some cs \<and> data = concat cs)"
proof (cases "open_block_io fw h")
  case (Some io)
  let ?m = "bio_media io"
  show ?thesis
  proof (cases "is_media_present ?m \<and> is_logical_partition ?m \<and> block_size ?m = 512 \<and> io_align ?m \<le> 4096")
    case True
    then show ?thesis
      using Some byte_len_iff [of "last_block ?m"]
      by (auto simp: load_partition_def media_ok_def loader_constants LOADER_PAGE_SIZE_def Let_def bind_eq_Some_conv not_less)
  next
    case False
    then have "load_partition fw h = None"
      using Some by (auto simp: load_partition_def loader_constants ucast_512 Let_def not_le bind_eq_None_conv split: Option.bind_split)
    then show ?thesis
      using Some False by (auto simp: media_ok_def)
  qed
qed (simp add: load_partition_def)

lemma load_partition_serves:
  assumes "open_block_io fw h = Some io" "media_ok (bio_media io)" "serves io part" "length part = 67108864" "pages_for fw a"
  shows "load_partition fw h = Some (a, part)"
proof -
  obtain contents where contents: "allocate_pages fw 16384 = Some (a, contents)" "length contents = 67108864"
    using assms(5) by (auto simp: pages_for_def)
  have "read_chunks io 512 0 (chunks 65536 (take 67108864 contents)) = Some (chunks 65536 (drop (65536 * 0) part))"
    by (rule read_chunks_serves [OF assms(3)]) (simp_all add: assms(4) contents(2))
  then show ?thesis
    unfolding load_partition_eq using assms(1,2) contents(1) concat_chunks [of 65536 part] by auto
qed

text \<open>The search takes the first handle of a \<open>sol-data\<close> partition, and no other.\<close>

definition sol_handle :: "'h firmware \<Rightarrow> 'h \<Rightarrow> bool" where
  "sol_handle fw h \<longleftrightarrow> (case partition_info fw h of Some (Some entry) \<Rightarrow> is_sol_data_partition_entry entry | _ \<Rightarrow> False)"

lemma search_handles_find: "search_handles fw hs = Option.bind (find (sol_handle fw) hs) (load_partition fw)"
  by (induction hs) (auto simp: sol_handle_def split: option.splits)

lemma load_sol_data_eq:
  "load_sol_data_partition fw Disk = Option.bind (locate_partitions fw) (\<lambda>hs. Option.bind (find (sol_handle fw) hs) (load_partition fw))"
  by (simp add: load_sol_data_partition_def load_sol_data_partition_from_disk_def search_handles_find [abs_def])

lemma same_lengths:
  "list_all2 (\<lambda>c d. length d = length c) xs ys \<Longrightarrow> \<forall>c \<in> set xs. length c = w \<Longrightarrow> \<forall>d \<in> set ys. length d = w"
  by (induction rule: list_all2_induct) auto

text \<open>A firmware with a single partition, for the example.\<close>

definition one_device :: "u8 list \<Rightarrow> block_io" where
  "one_device part = \<lparr>bio_media = \<lparr>block_size = 512, last_block = 131071, is_media_present = True, is_logical_partition = True,
     io_align = 0, media_id = 0\<rparr>, read_blocks = (\<lambda>_ lba n. Some (\<lambda>k. part ! (512 * unat lba + k)))\<rparr>"

definition one_partition :: "u8 list \<Rightarrow> unit firmware" where
  "one_partition part = \<lparr>locate_partitions = Some [()],
     partition_info = (\<lambda>_. Some (Some \<lparr>partition_type_guid = SOL_DATA_PARTITION_TYPE, partition_name = map ucast SOL_DATA_PARTITION_NAME @ [0]\<rparr>)),
     open_block_io = (\<lambda>_. Some (one_device part)),
     allocate_pages = (\<lambda>n. Some (0x10000000, replicate (n * 4096) 0))\<rparr>"

lemma one_device_ok: "media_ok (bio_media (one_device part))" "serves (one_device part) part"
  by (simp_all add: one_device_def media_ok_def serves_def)

lemma one_partition_pages: "\<forall>n a contents. allocate_pages (one_partition part) n = Some (a, contents) \<longrightarrow> length contents = n * 4096"
  "pages_for (one_partition part) 0x10000000"
  by (auto simp: one_partition_def pages_for_def)

lemma one_partition_loads:
  assumes "length part = 67108864"
  shows "load_sol_data_partition (one_partition part) Disk = Some (0x10000000, part)"
proof -
  have "sol_handle (one_partition part) ()"
    by (simp add: sol_handle_def one_partition_def is_sol_data_partition_entry_def SOL_DATA_PARTITION_NAME_def)
  moreover have "open_block_io (one_partition part) () = Some (one_device part)" "locate_partitions (one_partition part) = Some [()]"
    by (simp_all add: one_partition_def)
  ultimately show ?thesis
    using load_partition_serves [OF _ one_device_ok assms one_partition_pages(2)] by (simp add: load_sol_data_eq)
qed

section \<open>Properties\<close>

text \<open>
  C12. The loader never hands over a partial or mixed snapshot. If it hands over data at all, the machine was booted from disk,
  the data are the 64 MiB of the first partition with the type and the exact name of \<open>sol-data\<close>, its Block I/O device
  has the expected geometry, and each of the 1024 chunks is what the device read at that chunk's block.
\<close>

theorem snapshot_complete:
  assumes "load_sol_data_partition fw mode = Some (a, data)"
    and "\<forall>n a contents. allocate_pages fw n = Some (a, contents) \<longrightarrow> length contents = n * 4096"
  shows "mode = Disk \<and> length data = 67108864 \<and> (\<exists>hs h io. locate_partitions fw = Some hs \<and> find (sol_handle fw) hs = Some h \<and>
    open_block_io fw h = Some io \<and> media_ok (bio_media io) \<and>
    (\<forall>k < 1024. \<exists>lba f. unat lba = 128 * k \<and> read_blocks io (media_id (bio_media io)) lba 65536 = Some f \<and>
       (\<forall>j < 65536. data ! (65536 * k + j) = f j)))"
proof -
  have mode: "mode = Disk"
    using assms(1) by (cases mode) (simp_all add: load_sol_data_partition_def)
  obtain hs h where h: "locate_partitions fw = Some hs" "find (sol_handle fw) hs = Some h" "load_partition fw h = Some (a, data)"
    using assms(1) unfolding mode load_sol_data_eq by (auto simp: bind_eq_Some_conv)
  obtain io contents cs where io: "open_block_io fw h = Some io" "media_ok (bio_media io)" "allocate_pages fw 16384 = Some (a, contents)"
    "read_chunks io 512 0 (chunks 65536 (take 67108864 contents)) = Some cs" "data = concat cs"
    using h(3) unfolding load_partition_eq by blast
  have "length contents = 67108864"
    using assms(2) io(3) by auto
  then have buffer: "\<forall>c \<in> set (chunks 65536 contents). length c = 65536" "length (chunks 65536 contents) = 1024"
    using chunks_eq_exact [of 65536 contents] chunks_exact_lengths [of _ 65536 contents] length_chunks_exact [of 65536 contents]
    by auto
  have lens: "list_all2 (\<lambda>c d. length d = length c) (chunks 65536 contents) cs"
    using read_chunks_spec(1) [OF io(4)] \<open>length contents = 67108864\<close> by simp
  then have pieces: "\<forall>c \<in> set cs. length c = 65536" "length cs = 1024"
    using same_lengths [OF lens buffer(1)] list_all2_lengthD [OF lens] buffer(2) by simp_all
  have whole: "length data = 67108864"
    using length_pieces [OF pieces(1)] pieces(2) io(5) by simp
  have "\<exists>lba f. unat lba = 128 * k \<and> read_blocks io (media_id (bio_media io)) lba 65536 = Some f \<and>
       (\<forall>j < 65536. data ! (65536 * k + j) = f j)" if k: "k < 1024" for k
  proof -
    have len: "length (cs ! k) = 65536"
      using pieces k by simp
    obtain lba f where f: "unat lba = (0 + k) mod 2 ^ 64 * unat (of_nat BLOCK_IO_CHUNK_BYTES div 512 :: u64)"
      "read_blocks io (media_id (bio_media io)) lba (length (cs ! k)) = Some f" "cs ! k = map f [0..<length (cs ! k)]"
      using read_chunks_spec(2) [OF io(4), of k] k pieces(2) by auto
    have "data ! (65536 * k + j) = f j" if "j < 65536" for j
    proof -
      have "data ! (65536 * k + j) = take 65536 (drop (65536 * k) data) ! j"
        using that k whole by simp
      also have "\<dots> = cs ! k ! j"
        using nth_piece [OF pieces(1), of k "[]"] k pieces(2) io(5) by simp
      also have "\<dots> = f j"
        by (subst f(3)) (use that len in simp)
      finally show ?thesis .
    qed
    then show ?thesis
      using f(1,2) len k by (intro exI [of _ lba] exI [of _ f]) (simp add: loader_constants)
  qed
  then show ?thesis
    using mode h(1,2) io(1,2) whole by blast
qed

text \<open>Witness of C12: a firmware whose only partition holds zeros.\<close>

theorem snapshot_complete_witness:
  "load_sol_data_partition (one_partition (replicate (unat SOL_DATA_BYTES) 0)) Disk = Some (0x10000000, replicate (unat SOL_DATA_BYTES) 0) \<and>
   length (replicate (unat SOL_DATA_BYTES) (0 :: u8)) = 67108864"
proof -
  let ?part = "replicate (unat SOL_DATA_BYTES) 0"
  have load: "load_sol_data_partition (one_partition ?part) Disk = Some (0x10000000, ?part)"
    by (rule one_partition_loads) (simp only: length_replicate loader_constants(3))
  show ?thesis
    using load snapshot_complete [OF load one_partition_pages(1)] by blast
qed

end
