(* ===== verification/Kernel_Boot.thy ===== *)
theory Kernel_Boot
  imports Kernel
begin

text \<open>
  Bring-up: the order of its actions on every machine, whatever fails, and that a machine with sound
  memory, a sound framebuffer and an intact data volume reaches the shell.
\<close>

section \<open>Sequences of actions\<close>

lemma boot_bind_Running:
  "boot_bind m f s = (as, Running y) \<longleftrightarrow>
     (\<exists>as1 x s' as2. m s = (as1, Running (x, s')) \<and> f x s' = (as2, Running y) \<and> as = as1 @ as2)"
  by (cases "m s") (auto simp: boot_bind_def split: boot_result.splits prod.splits)

lemma boot_bind_simps [simp]:
  "boot_bind (boot_return x) f = f x"
  "boot_bind (boot_panic p) g = boot_panic p"
  by (simp_all add: boot_bind_def boot_return_def boot_panic_def)

lemma boot_bind_act: "boot_bind (act as) f s = (as @ fst (f () s), snd (f () s))"
  by (simp add: boot_bind_def act_def split: prod.split)

lemma boot_bind_io:
  "boot_bind (boot_io a m) f (w, h) = (case run_state m h of (x, h') \<Rightarrow> (a # fst (f x (w, h')), snd (f x (w, h'))))"
  by (simp add: boot_bind_def boot_io_def split: prod.split)

lemma boot_bind_framebuffer:
  "boot_bind (boot_framebuffer buf i) f (w, h) =
     (InitFramebuffer # fst (f () (Some (writer_new buf i), h)), snd (f () (Some (writer_new buf i), h)))"
  by (simp add: boot_bind_def boot_framebuffer_def framebuffer_init_def split: prod.split)

lemma boot_bind_prefix: "\<exists>bs. fst (boot_bind m f s) = fst (m s) @ bs"
  by (auto simp: boot_bind_def split: prod.split boot_result.split)

lemma expect_simps [simp]:
  "expect_some msg (Some x) = boot_return x" "expect_some msg None = boot_panic (Some (lit msg))" "expect_result msg debug (Ok x) = boot_return x"
  "boot_total (Ok x) = boot_return x" "boot_defined (Some x) = boot_return x"
  "expect_printed b f msg (Ok (ops, y)) = boot_output b f ops"
  by (simp_all add: expect_some_def expect_result_def boot_total_def boot_defined_def expect_printed_def)

lemmas boot_basic_defs = boot_return_def boot_panic_def act_def boot_io_def boot_framebuffer_def

declare boot_output.simps [simp del]

text \<open>Console output is recorded up to the operation that panics.\<close>

lemma boot_op_acts: "fst (boot_op b f op s) = [Output op]" "snd (boot_op b f op s) = Panicked p \<Longrightarrow> p = None"
  by (auto simp: boot_op_def split: prod.splits outcome.splits)

lemma boot_output_acts:
  "boot_output b f ops s = (as, r) \<Longrightarrow> (\<forall>a \<in> set as. \<exists>op. a = Output op) \<and> (\<forall>p. r = Panicked p \<longrightarrow> p = None \<and> as \<noteq> [])"
proof (induction ops arbitrary: s as)
  case Nil
  then show ?case by (auto simp: boot_output.simps boot_return_def)
next
  case (Cons op ops)
  obtain r1 where op: "boot_op b f op s = ([Output op], r1)"
    using boot_op_acts(1) by (metis prod.collapse)
  show ?case
  proof (cases r1)
    case (Panicked p)
    then show ?thesis
      using Cons.prems op boot_op_acts(2) [of b f op s p] by (auto simp: boot_output.simps boot_bind_def)
  next
    case (Running x)
    then obtain s' bs where "boot_output b f ops s' = (bs, r)" "as = Output op # bs"
      using Cons.prems op by (auto simp: boot_output.simps boot_bind_def split: prod.splits)
    then show ?thesis
      using Cons.IH [of s' bs] by auto
  qed
qed

text \<open>Parts of bring-up that leave interrupts alone.\<close>

definition quiet :: "('h, 'a) boot \<Rightarrow> bool" where
  "quiet m \<longleftrightarrow> (\<forall>s. EnableInterrupts \<notin> set (fst (m s)))"

lemma boot_bind_assoc: "boot_bind (boot_bind m f) g = boot_bind m (\<lambda>x. boot_bind (f x) g)"
  by (rule ext) (simp add: boot_bind_def split: boot_result.split prod.split)

lemma quiet_bind [intro]: "quiet m \<Longrightarrow> (\<And>x. quiet (f x)) \<Longrightarrow> quiet (boot_bind m f)"
  unfolding quiet_def boot_bind_def
  by (auto split: boot_result.splits prod.splits) (metis fst_conv)+

lemma quiet_case:
  "(\<And>a b. quiet (g a b)) \<Longrightarrow> quiet (case p of (a, b) \<Rightarrow> g a b)"
  "(\<And>a b. quiet (k a b c)) \<Longrightarrow> quiet ((case q of (a, b) \<Rightarrow> k a b) c)"
  by (auto split: prod.split)

lemma quiet_output [intro]: "quiet (boot_output b f ops)"
  unfolding quiet_def using boot_output_acts by (metis kernel_action.distinct(39) prod.collapse)

lemma quiet_basic [intro]:
  "quiet (boot_return x)" "quiet (boot_panic p)" "EnableInterrupts \<notin> set as \<Longrightarrow> quiet (act as)"
  "EnableInterrupts \<noteq> a \<Longrightarrow> quiet (boot_io a m)" "quiet (boot_framebuffer buf i)"
  by (auto simp: quiet_def boot_basic_defs split: prod.split)

lemma quiet_expect [intro]:
  "quiet (expect_some msg v)" "quiet (expect_result msg debug r)" "quiet (expect_printed b f msg w)" "quiet (boot_total t)"
  "quiet (boot_defined d)"
  by (auto simp: expect_some_def expect_result_def expect_printed_def boot_total_def boot_defined_def split: option.split outcome.split)

lemma quiet_allocate [intro]: "quiet (boot_allocate ls a)"
  by (induction ls a rule: boot_allocate.induct) (auto split: option.split outcome.split prod.split)

lemma quiet_setup: "quiet (boot_setup mc bi)"
  unfolding boot_setup_def boot_screen_def boot_memory_def boot_volume_def
  by (intro quiet_bind quiet_basic quiet_expect quiet_output quiet_allocate quiet_case) simp_all

section \<open>Output that reaches the screen\<close>

definition outputs :: "kernel_action list \<Rightarrow> console_op list" where
  "outputs as = concat (map (\<lambda>a. case a of Output op \<Rightarrow> [op] | _ \<Rightarrow> []) as)"

lemma outputs_simps [simp]: "outputs [] = []" "outputs (as @ bs) = outputs as @ outputs bs" "outputs [Output op] = [op]"
  by (simp_all add: outputs_def)

text \<open>
  From every writer that is well-formed the part ends, with the result \<open>x\<close>, and its output is what the screen shows in addition.
\<close>

definition boots :: "font \<Rightarrow> frame_info \<Rightarrow> ('h, 'a) boot \<Rightarrow> 'a \<Rightarrow> bool" where
  "boots f i m x \<longleftrightarrow> (\<forall>w h. writer_ok f w \<and> info w = i \<longrightarrow>
     (\<exists>as w' h'. m (Some w, h) = (as, Running (x, Some w', h')) \<and> writer_ok f w' \<and> info w' = i \<and>
        screen_of w' = fold (spec_op f i) (outputs as) (screen_of w)))"

lemma bootsD:
  assumes "boots f i m x" "writer_ok f w" "info w = i"
  obtains as w' h' where "m (Some w, h) = (as, Running (x, Some w', h'))" "writer_ok f w'" "info w' = i"
    "screen_of w' = fold (spec_op f i) (outputs as) (screen_of w)"
  using assms unfolding boots_def by blast

lemma boots_bind:
  assumes m: "boots f i m x" and g: "boots f i (g x) y"
  shows "boots f i (boot_bind m g) y"
  unfolding boots_def
proof (intro allI impI, elim conjE)
  fix w h
  assume "writer_ok f w" "info w = i"
  then obtain as1 w1 h1 where 1: "m (Some w, h) = (as1, Running (x, Some w1, h1))" "writer_ok f w1" "info w1 = i"
      "screen_of w1 = fold (spec_op f i) (outputs as1) (screen_of w)"
    by (rule bootsD [OF m])
  obtain as2 w2 h2 where 2: "g x (Some w1, h1) = (as2, Running (y, Some w2, h2))" "writer_ok f w2" "info w2 = i"
      "screen_of w2 = fold (spec_op f i) (outputs as2) (screen_of w1)"
    by (rule bootsD [OF g 1(2,3)])
  have "boot_bind m g (Some w, h) = (as1 @ as2, Running (y, Some w2, h2))"
    using 1(1) 2(1) by (simp add: boot_bind_def)
  then show "\<exists>as w' h'. boot_bind m g (Some w, h) = (as, Running (y, Some w', h')) \<and> writer_ok f w' \<and> info w' = i \<and>
      screen_of w' = fold (spec_op f i) (outputs as) (screen_of w)"
    using 1(4) 2(2-4) by auto
qed

lemma boots_then: "boots f i m () \<Longrightarrow> boots f i (g ()) y \<Longrightarrow> boots f i (boot_bind m g) y"
  by (rule boots_bind)

lemma boots_return: "boots f i (boot_return x) x"
  by (simp add: boots_def boot_return_def)

lemma boots_act: "outputs as = [] \<Longrightarrow> boots f i (act as) ()"
  by (simp add: boots_def act_def)

lemma boots_io:
  assumes "outputs [a] = []" "\<And>x. boots f i (g x) y"
  shows "boots f i (boot_bind (boot_io a m) g) y"
  unfolding boots_def
proof (intro allI impI, elim conjE)
  fix w h
  assume w: "writer_ok f w" "info w = i"
  obtain x h1 where x: "run_state m h = (x, h1)"
    by (cases "run_state m h")
  obtain as w2 h2 where 2: "g x (Some w, h1) = (as, Running (y, Some w2, h2))" "writer_ok f w2" "info w2 = i"
      "screen_of w2 = fold (spec_op f i) (outputs as) (screen_of w)"
    by (rule bootsD [OF assms(2) w])
  then have "boot_bind (boot_io a m) g (Some w, h) = ([a] @ as, Running (y, Some w2, h2))"
    using x by (simp add: boot_bind_def boot_io_def)
  moreover have "outputs ([a] @ as) = outputs as"
    using assms(1) by (simp only: outputs_simps append_Nil)
  ultimately show "\<exists>as w' h'. boot_bind (boot_io a m) g (Some w, h) = (as, Running (y, Some w', h')) \<and> writer_ok f w' \<and> info w' = i \<and>
      screen_of w' = fold (spec_op f i) (outputs as) (screen_of w)"
    using 2 by metis
qed

lemma boots_op:
  assumes f: "font_ok f"
  shows "boots f i (boot_op b f op) ()"
  unfolding boots_def
proof (intro allI impI, elim conjE)
  fix w h
  assume w: "writer_ok f w" "info w = i"
  obtain w' where "fst (run_state (console_step b f op (Some w)) h) = Ok (Some w')" "writer_ok f w'" "info w' = i"
      "screen_of w' = spec_op f i op (screen_of w)"
    using console_step_shows [OF f w(1), of op b h] w(2) by (auto simp: shows_screen_def)
  then show "\<exists>as w' h'. boot_op b f op (Some w, h) = (as, Running ((), Some w', h')) \<and> writer_ok f w' \<and> info w' = i \<and>
      screen_of w' = fold (spec_op f i) (outputs as) (screen_of w)"
    by (cases "run_state (console_step b f op (Some w)) h") (auto simp: boot_op_def)
qed

lemma boots_output: "font_ok f \<Longrightarrow> boots f i (boot_output b f ops) ()"
  by (induction ops) (auto simp: boot_output.simps intro: boots_return boots_bind boots_op)

lemmas boots_intros = boots_io boots_then boots_return boots_act boots_output

text \<open>A part that ends leaves a well-formed writer well-formed.\<close>

definition keeps :: "font \<Rightarrow> ('h, 'a) boot \<Rightarrow> bool" where
  "keeps f m \<longleftrightarrow> (\<forall>w h as x w' h'. writer_ok f w \<and> m (Some w, h) = (as, Running (x, w', h')) \<longrightarrow> (\<exists>v. w' = Some v \<and> writer_ok f v))"

lemma keeps_bind: "keeps f m \<Longrightarrow> (\<And>x. keeps f (g x)) \<Longrightarrow> keeps f (boot_bind m g)"
  unfolding keeps_def boot_bind_Running by (metis surj_pair)

lemma keeps_case:
  "(\<And>a b. keeps f (g a b)) \<Longrightarrow> keeps f (case p of (a, b) \<Rightarrow> g a b)"
  "(\<And>a b. keeps f (k a b c)) \<Longrightarrow> keeps f ((case q of (a, b) \<Rightarrow> k a b) c)"
  by (auto split: prod.split)

lemma keeps_basic:
  "keeps f (boot_return x)" "keeps f (boot_panic p)" "keeps f (act as)" "keeps f (boot_io a m)"
  by (auto simp: keeps_def boot_basic_defs split: prod.splits)

lemma boots_keeps: "(\<And>i. boots f i m y) \<Longrightarrow> keeps f m"
  unfolding boots_def keeps_def by (metis Pair_inject boot_result.inject(1))

lemma keeps_output: "font_ok f \<Longrightarrow> keeps f (boot_output b f ops)"
  by (rule boots_keeps [OF boots_output])

lemma keeps_expect:
  "keeps f (expect_some msg v)" "keeps f (expect_result msg debug r)" "keeps f (boot_total t)" "keeps f (boot_defined d)"
  "font_ok f \<Longrightarrow> keeps f (expect_printed b f msg' w)"
  by (auto simp: expect_some_def expect_result_def boot_total_def boot_defined_def expect_printed_def
      intro: keeps_basic keeps_bind keeps_output split: option.split outcome.split)

lemma keeps_allocate: "keeps f (boot_allocate ls a)"
  by (induction ls a rule: boot_allocate.induct) (auto intro: keeps_basic split: option.split outcome.split prod.split)

lemma keeps_memory: "font_ok (mc_font mc) \<Longrightarrow> keeps (mc_font mc) (boot_memory mc bi)"
  unfolding boot_memory_def by (intro keeps_bind keeps_basic keeps_expect keeps_output keeps_allocate keeps_case)

lemma keeps_volume: "font_ok (mc_font mc) \<Longrightarrow> keeps (mc_font mc) (boot_volume mc bi fa heap)"
  unfolding boot_volume_def by (intro keeps_bind keeps_basic keeps_expect keeps_output keeps_case)

section \<open>Reaching the end\<close>

text \<open>A font with glyphs of one size, and a framebuffer, if there is one, whose buffer holds the picture its description promises.\<close>

definition sound_console :: "font \<Rightarrow> (u8 list \<times> frame_info) option \<Rightarrow> bool" where
  "sound_console f framebuffer \<longleftrightarrow> font_ok f \<and> (\<forall>buf i. framebuffer = Some (buf, i) \<longrightarrow> writer_ok f (writer_new buf i))"

lemma boot_screen_starts: "\<exists>rest. fst (boot_screen mc bi s) = DisableInterrupts # InitSerial # rest"
  by (cases s) (simp add: boot_screen_def boot_bind_act boot_bind_io split: prod.split)

lemma boot_setup_starts: "\<exists>rest. fst (boot_setup mc bi s) = DisableInterrupts # InitSerial # rest"
  using boot_screen_starts [of mc bi s]
    boot_bind_prefix [of "boot_screen mc bi" "\<lambda>_. boot_bind (boot_memory mc bi) (\<lambda>(fa, heap). boot_bind (boot_volume mc bi fa heap) (\<lambda>fs. boot_return (fa, heap, fs)))" s]
  unfolding boot_setup_def by (elim exE) simp

lemma boot_screen_eq:
  assumes "bi_framebuffer bi = Some (buf, i)"
  obtains ops h where "boot_screen mc bi s =
    ([DisableInterrupts, InitSerial, InitFramebuffer] @ fst (console mc ops (Some (writer_new buf i), h)),
     snd (console mc ops (Some (writer_new buf i), h)))"
proof -
  have "\<exists>ops h. boot_screen mc bi s =
      ([DisableInterrupts, InitSerial, InitFramebuffer] @ fst (console mc ops (Some (writer_new buf i), h)),
       snd (console mc ops (Some (writer_new buf i), h)))"
    using assms by (cases s) (simp add: boot_screen_def boot_bind_act boot_bind_io boot_bind_framebuffer split: prod.split, blast)
  then show thesis
    using that by blast
qed

lemma boot_screen_Running:
  assumes sound: "sound_console (mc_font mc) (bi_framebuffer bi)" and run: "boot_screen mc bi s = (as, Running (u, w, h))"
  shows "\<exists>v. w = Some v \<and> writer_ok (mc_font mc) v"
proof (cases "bi_framebuffer bi")
  case None
  then have "snd (boot_screen mc bi s) = Panicked (Some (lit ''UEFI did not provide a framebuffer''))"
    by (cases s) (simp add: boot_screen_def boot_bind_act boot_bind_io, simp add: boot_panic_def split: prod.split)
  with run show ?thesis by simp
next
  case (Some fb)
  obtain buf i where fb: "bi_framebuffer bi = Some (buf, i)"
    using Some by (cases fb) simp
  obtain ops h' where "snd (console mc ops (Some (writer_new buf i), h')) = Running (u, w, h)"
    by (rule boot_screen_eq [OF fb, of mc s]) (use run in simp)
  moreover have "writer_ok (mc_font mc) (writer_new buf i)" "keeps (mc_font mc) (console mc ops)"
    using sound fb keeps_output by (auto simp: sound_console_def)
  ultimately show ?thesis
    unfolding keeps_def by (metis prod.collapse)
qed

lemma boot_memory_Running:
  "boot_memory mc bi s = (as, Running x) \<Longrightarrow> {InitGdt, InitIdt, Breakpoint, MapHeap} \<subseteq> set as"
  by (auto simp: boot_memory_def boot_bind_Running act_def)

lemma boot_volume_Running:
  assumes "boot_volume mc bi fa heap s = (as, Running (fs, s'))"
  shows "\<exists>d. from_boot_info (mc_memory mc) (bi_ramdisk_addr bi) (bi_ramdisk_len bi) = Ok d \<and> mount (ram_device d) = Ok fs"
    "\<exists>count. usable_frame_count (mc_usable mc) (mc_frame_of mc) fa = Ok count"
  using assms
  by (auto simp: boot_volume_def boot_bind_Running expect_result_def boot_total_def boot_return_def boot_panic_def split: outcome.splits)

lemma boot_setup_Running:
  assumes "boot_setup mc bi s = (as, Running ((fa, heap, fs), w, h))"
  shows "{InitGdt, InitIdt, Breakpoint, MapHeap} \<subseteq> set as"
    "\<exists>d. from_boot_info (mc_memory mc) (bi_ramdisk_addr bi) (bi_ramdisk_len bi) = Ok d \<and> mount (ram_device d) = Ok fs"
    "\<exists>count. usable_frame_count (mc_usable mc) (mc_frame_of mc) fa = Ok count"
    "sound_console (mc_font mc) (bi_framebuffer bi) \<Longrightarrow> \<exists>v. w = Some v \<and> writer_ok (mc_font mc) v"
proof -
  obtain as1 u w1 h1 as2 w2 h2 as3 where parts: "boot_screen mc bi s = (as1, Running (u, w1, h1))"
      "boot_memory mc bi (w1, h1) = (as2, Running ((fa, heap), w2, h2))"
      "boot_volume mc bi fa heap (w2, h2) = (as3, Running (fs, w, h))" "as = as1 @ as2 @ as3"
    using assms by (auto simp: boot_setup_def boot_bind_Running boot_return_def)
  show "{InitGdt, InitIdt, Breakpoint, MapHeap} \<subseteq> set as"
    using boot_memory_Running [OF parts(2)] parts(4) by auto
  show "\<exists>d. from_boot_info (mc_memory mc) (bi_ramdisk_addr bi) (bi_ramdisk_len bi) = Ok d \<and> mount (ram_device d) = Ok fs"
    "\<exists>count. usable_frame_count (mc_usable mc) (mc_frame_of mc) fa = Ok count"
    using boot_volume_Running [OF parts(3)] by blast+
  show "\<exists>v. w = Some v \<and> writer_ok (mc_font mc) v" if sound: "sound_console (mc_font mc) (bi_framebuffer bi)"
  proof -
    have f: "font_ok (mc_font mc)"
      using sound by (simp add: sound_console_def)
    show ?thesis
      using boot_screen_Running [OF sound parts(1)] parts(2,3) keeps_memory [OF f, of bi] keeps_volume [OF f, of bi fa heap]
      unfolding keeps_def by metis
  qed
qed

lemma boot_devices_boots: "font_ok (mc_font mc) \<Longrightarrow> boots (mc_font mc) i (boot_devices mc) ()"
  unfolding boot_devices_def by (intro boots_intros) (simp_all add: outputs_def)

lemma boot_devices_no_panic:
  assumes "font_ok (mc_font mc)" "writer_ok (mc_font mc) w"
  shows "boot_devices mc (Some w, h) \<noteq> (as, Panicked p)"
  by (rule bootsD [OF boot_devices_boots [OF assms(1)] assms(2) refl, of h]) simp

lemma boot_devices_acts:
  assumes "boot_devices mc s = (as, r)"
  obtains post where "as = [InitKeyboard, InitHardware, EnableInterrupts] @ post" "\<forall>a \<in> set post. \<exists>op. a = Output op"
    "\<forall>p. r = Panicked p \<longrightarrow> p = None \<and> post \<noteq> []"
proof -
  have "\<exists>ops s'. boot_devices mc s =
      ([InitKeyboard, InitHardware, EnableInterrupts] @ fst (console mc ops s'), snd (console mc ops s'))"
    by (cases s) (simp add: boot_devices_def boot_bind_act boot_bind_io split: prod.split, blast)
  then obtain ops s' where "as = [InitKeyboard, InitHardware, EnableInterrupts] @ fst (console mc ops s')" "r = snd (console mc ops s')"
    using assms by auto
  then show thesis
    using boot_output_acts [of "mc_bus mc" "mc_font mc" ops s'] that by (metis prod.collapse)
qed

lemma enabled_after:
  assumes "boot_setup mc bi s = (as1, Running ((fa, heap, fs), w, h))" "boot_devices mc (w, h) = (as2, r)"
  shows "\<exists>pre post. as1 @ as2 = pre @ [InitKeyboard, InitHardware, EnableInterrupts] @ post \<and>
      {InitGdt, InitIdt, Breakpoint, MapHeap} \<subseteq> set pre \<and> EnableInterrupts \<notin> set pre \<and> (\<forall>a \<in> set post. \<exists>op. a = Output op)"
    "EnableInterrupts \<in> set (as1 @ as2)" "r = Panicked p \<Longrightarrow> p = None \<and> (\<exists>op. last (as1 @ as2) = Output op)"
proof -
  have quiet: "EnableInterrupts \<notin> set as1"
    using quiet_setup [of mc bi] assms(1) unfolding quiet_def by (metis fst_conv)
  obtain post where post: "as2 = [InitKeyboard, InitHardware, EnableInterrupts] @ post" "\<forall>a \<in> set post. \<exists>op. a = Output op"
      "\<forall>p. r = Panicked p \<longrightarrow> p = None \<and> post \<noteq> []"
    by (rule boot_devices_acts [OF assms(2)])
  show "\<exists>pre post. as1 @ as2 = pre @ [InitKeyboard, InitHardware, EnableInterrupts] @ post \<and>
      {InitGdt, InitIdt, Breakpoint, MapHeap} \<subseteq> set pre \<and> EnableInterrupts \<notin> set pre \<and> (\<forall>a \<in> set post. \<exists>op. a = Output op)"
    using boot_setup_Running(1) [OF assms(1)] quiet post(1,2) by blast
  show "EnableInterrupts \<in> set (as1 @ as2)"
    using post(1) by simp
  show "p = None \<and> (\<exists>op. last (as1 @ as2) = Output op)" if "r = Panicked p"
    using that post last_in_set [of post] by auto
qed

text \<open>The four ways in which bring-up ends.\<close>

lemma fault_test_None: "run_requested_fault_test t = None \<longleftrightarrow> t = None"
  by (simp add: run_requested_fault_test_def split: option.splits fault_test.splits)

lemma kernel_main_cases:
  obtains (early) as p where "boot_setup mc bi s = (as, Panicked p)" "kernel_main mc bi s = (as, Panicked p)"
    | (fault) as1 fa heap fs w h as2 r where "boot_setup mc bi s = (as1, Running ((fa, heap, fs), w, h))" "mc_fault_test mc \<noteq> None"
        "EnableInterrupts \<notin> set as2" "\<And>fs system heap s'. r \<noteq> Running (Shell fs system heap, s')" "kernel_main mc bi s = (as1 @ as2, r)"
    | (devices) as1 fa heap fs w h as2 p where "boot_setup mc bi s = (as1, Running ((fa, heap, fs), w, h))" "mc_fault_test mc = None"
        "boot_devices mc (w, h) = (as2, Panicked p)" "kernel_main mc bi s = (as1 @ as2, Panicked p)"
    | (shell) as1 fa heap fs w h as2 s' count where "boot_setup mc bi s = (as1, Running ((fa, heap, fs), w, h))" "mc_fault_test mc = None"
        "boot_devices mc (w, h) = (as2, Running ((), s'))" "usable_frame_count (mc_usable mc) (mc_frame_of mc) fa = Ok count"
        "kernel_main mc bi s = (as1 @ as2,
           Running (Shell fs \<lparr>usable_frame_total = of_nat count, frames_consumed_at_boot = allocated_frames fa\<rparr> heap, s'))"
proof (cases "snd (boot_setup mc bi s)")
  case (Panicked p)
  then show thesis
    by (intro early [of "fst (boot_setup mc bi s)" p]) (simp_all add: kernel_main_def boot_bind_def prod_eq_iff split: prod.split)
next
  case (Running x)
  then obtain as1 fa heap fs w h where s: "boot_setup mc bi s = (as1, Running ((fa, heap, fs), w, h))"
    by (cases "boot_setup mc bi s", cases x) auto
  show thesis
  proof (cases "run_requested_fault_test (mc_fault_test mc)")
    case (Some at)
    then have ft: "mc_fault_test mc \<noteq> None"
      using fault_test_None [of "mc_fault_test mc"] by simp
    define m where "m = boot_bind (console mc (fst at)) (\<lambda>_. boot_return (Faults (snd at)))"
    have "quiet m"
      unfolding m_def by blast
    moreover have "\<And>fs system heap s'. snd (m (w, h)) \<noteq> Running (Shell fs system heap, s')"
      by (auto simp: m_def boot_bind_def boot_return_def split: prod.split boot_result.split)
    moreover have "kernel_main mc bi s = (as1 @ fst (m (w, h)), snd (m (w, h)))"
      using s Some by (simp add: kernel_main_def boot_bind_def [of "boot_setup mc bi"] m_def split: prod.split)
    ultimately show thesis
      using fault [OF s ft, of "fst (m (w, h))" "snd (m (w, h))"] by (simp add: quiet_def)
  next
    case None
    then have ft: "mc_fault_test mc = None"
      by (simp add: fault_test_None)
    obtain count where count: "usable_frame_count (mc_usable mc) (mc_frame_of mc) fa = Ok count"
      using boot_setup_Running(3) [OF s] by blast
    obtain as2 r2 where d: "boot_devices mc (w, h) = (as2, r2)"
      by (cases "boot_devices mc (w, h)")
    show thesis
      using s None d count devices [OF s ft] shell [OF s ft _ count]
      by (cases r2) (auto simp: kernel_main_def boot_bind_def boot_return_def split: prod.splits)
  qed
qed

section \<open>A sound machine\<close>

lemma boot_allocate_fits:
  assumes "list_all layout_ok ls" "b_next a \<noteq> 0"
    "unat (b_next a) + sum_list (map (\<lambda>l. unat (l_size l) + unat (l_align l)) ls) \<le> unat (b_end a)"
  shows "\<exists>a'. boot_allocate ls a = boot_return a' \<and> b_start a' = b_start a \<and> b_end a' = b_end a"
  using assms
proof (induction ls arbitrary: a)
  case (Cons l ls)
  let ?p = "align_up_to (unat (l_align l)) (unat (b_next a))"
  have l: "layout_ok l" "0 < unat (l_align l)"
    using Cons.prems(1) by (auto simp: layout_ok_def is_power_of_two_iff)
  have p: "unat (b_next a) \<le> ?p" "?p < unat (b_next a) + unat (l_align l)"
    using align_up_to_bounds [OF l(2)] by auto
  then have fits: "?p + unat (l_size l) \<le> unat (b_end a)"
    using Cons.prems(3) by simp
  then have small: "?p + unat (l_size l) < 2 ^ 64"
    using unat_bounds(4) [of "b_end a"] by linarith
  let ?a = "a\<lparr>b_next := of_nat (?p + unat (l_size l))\<rparr>"
  have words: "unat (of_nat ?p :: usize) = ?p" "unat (of_nat (?p + unat (l_size l)) :: usize) = ?p + unat (l_size l)"
    using small by (simp_all add: unat_of_nat_small del: of_nat_add)
  moreover have "0 < unat (b_next a)"
    using Cons.prems(2) by (simp add: unat_gt_0)
  ultimately have nonzero: "(of_nat ?p :: usize) \<noteq> 0" "b_next ?a \<noteq> 0"
    using p(1) by (simp_all add: word_unat_eq_iff del: of_nat_add)
  have "alloc (\<lambda>_. False) a l = Some (Ok (of_nat ?p, ?a))"
    using Cons.prems(2) fits by (simp add: alloc_run [OF l(1)] alloc_attempt_eq [OF l(1)] Let_def del: of_nat_add)
  moreover have "unat (b_next ?a) + sum_list (map (\<lambda>l. unat (l_size l) + unat (l_align l)) ls) \<le> unat (b_end ?a)"
    using Cons.prems(3) p words by (simp del: of_nat_add)
  ultimately show ?case
    using Cons.IH [of ?a] Cons.prems(1) nonzero by simp
qed auto

lemma run_boot_ls:
  "(\<And>e. e \<in> set es \<Longrightarrow> entry_name e = (Ok (entry_label e) :: (unit, u8 list) outcome)) \<Longrightarrow>
   \<exists>ops'. run_visitor boot_ls_visitor es ops = Ok (ops', False)"
  by (induction es arbitrary: ops) (simp_all add: boot_ls_visitor_def)

lemma boot_list_root:
  assumes "volume_ok fs" "dir_closed fs (root_cluster fs)" "valid_cluster fs (root_cluster fs)"
  shows "\<exists>ops. list_dir fs (encode_utf8 (lit ''/'')) boot_ls_visitor [] = Ok (ops, ())"
proof -
  have "dir_at fs (encode_utf8 (lit ''/'')) (root_cluster fs)"
    by (simp add: dir_at_def path_components_def encode_ascii lit_def)
  then show ?thesis
    using run_boot_ls [of "dir_list fs (root_cluster fs)" "[]"] assms(2,3)
    by (auto simp: list_dir_at [OF assms(1)] visit_directory_list [OF assms(1)] list_dir_entries_named)
qed

lemma boot_read_file:
  assumes "volume_ok fs" "resolves fs (root_cluster fs) (path_components path) e" "\<not> is_directory e" "intact fs e"
  shows "\<exists>r. read_file fs path boot_cat_visitor [] = Ok r"
proof -
  have total: "total_visitor boot_cat_visitor"
    by (simp add: total_visitor_def boot_cat_visitor_def)
  have resolved: "resolve_path fs path = Ok e"
    using resolve_path_resolves [OF assms(1)] assms(2) by blast
  obtain s where "deliver boot_cat_visitor (chunks 512 (take (unat (de_size e)) (file_bytes fs (first_cluster e)))) [] =
      (Ok s :: (console_op list \<times> fs_error, console_op list) outcome)"
    using deliver_total [OF total] by blast
  then have "\<exists>r. read_entry fs e boot_cat_visitor [] = Ok r"
    using assms(3,4) by (cases "de_size e = 0") (simp_all add: read_entry_def intact_def)
  then show ?thesis
    using resolved by (simp add: read_file_eq [OF assms(1)])
qed

lemma from_boot_info_ok: "from_boot_info mem address len = Ok d \<Longrightarrow> ram_ok d"
  using unat_bounds(4) [of len]
  by (auto simp: from_boot_info_def obind_Ok_iff ram_ok_def from_raw_parts_def split: if_splits)

text \<open>The example: a machine with the demonstration disk in memory, and the three requests of the boot-time collections.\<close>

lemma from_boot_info_disk:
  assumes "ram_ok d" "rd_bytes d \<noteq> []" "512 dvd length (rd_bytes d)"
  shows "from_boot_info (\<lambda>a. rd_bytes d ! unat (a - base)) (Some base) (of_nat (length (rd_bytes d))) = Ok d"
proof -
  let ?n = "length (rd_bytes d)"
  have n: "unat (of_nat ?n :: u64) = ?n"
    using assms(1) by (simp add: ram_ok_def unat_of_nat_small)
  have "map (\<lambda>i. rd_bytes d ! unat (base + of_nat i - base)) [0..<?n] = map ((!) (rd_bytes d)) [0..<?n]"
  proof (rule map_cong)
    fix i assume "i \<in> set [0..<?n]"
    then have "unat (of_nat i :: u64) = i"
      using assms(1) by (simp add: ram_ok_def unat_of_nat_small)
    then show "rd_bytes d ! unat (base + of_nat i - base) = rd_bytes d ! i" by simp
  qed simp
  then have "from_raw_parts (\<lambda>a. rd_bytes d ! unat (a - base)) base (of_nat ?n) = rd_bytes d"
    unfolding from_raw_parts_def n by (simp add: map_nth)
  moreover have "(of_nat ?n :: u64) \<noteq> 0" "(of_nat ?n :: u64) mod of_nat SECTOR_SIZE = 0"
    using n assms(2,3) by (simp_all add: word_unat_eq_iff unat_mod SECTOR_SIZE_def)
  ultimately show ?thesis
    by (simp add: from_boot_info_def)
qed

lemma boots_memory:
  assumes "font_ok (mc_font mc)" "bi_physical_memory_offset bi = Some p" "mc_virt_new mc p = Some offset"
    and "memory_init (mc_virt_add mc) (mc_offset_page_table mc) (mc_cr3 mc) offset = Some m"
    and "init_heap (mc_usable mc) (mc_frame_of mc) (mc_page_of mc) (mc_pages mc) (mc_map_to mc) (mc_exhausted mc)
      (m, frame_allocator_init (bi_memory_regions bi)) bump_new = Ok ((m', fa), a)"
    and "boot_allocate (mc_layouts mc) a = (boot_return heap :: ('h, bump) boot)"
  shows "boots (mc_font mc) i (boot_memory mc bi :: ('h, _) boot) (fa, heap)"
  unfolding boot_memory_def assms(2-6) expect_simps boot_bind_simps prod.case
  by (intro boots_intros assms(1)) (simp_all add: outputs_def)

lemma boots_volume:
  assumes "font_ok (mc_font mc)" "usable_frame_count (mc_usable mc) (mc_frame_of mc) fa = Ok count"
    and "from_boot_info (mc_memory mc) (bi_ramdisk_addr bi) (bi_ramdisk_len bi) = Ok d" "mount (ram_device d) = Ok fs"
    and "list_dir fs (encode_utf8 (lit ''/'')) boot_ls_visitor [] = Ok (lines, u)"
    and "read_file fs (encode_utf8 (lit ''HELLO.TXT'')) boot_cat_visitor [] = Ok (hello, n)"
  shows "boots (mc_font mc) i (boot_volume mc bi fa heap) fs"
  unfolding boot_volume_def assms(2-6) expect_simps boot_bind_simps
  by (intro boots_intros assms(1))

text \<open>Once the screen shows text, the rest of bring-up ends in the shell if memory and volume do their part.\<close>

lemma boots_kernel:
  assumes f: "font_ok (mc_font mc)" and fb: "bi_framebuffer bi = Some (buf, i)" "writer_ok (mc_font mc) (writer_new buf i)"
    and mem: "boots (mc_font mc) i (boot_memory mc bi :: ('h, _) boot) (fa, heap)"
    and vol: "boots (mc_font mc) i (boot_volume mc bi fa heap :: ('h, _) boot) fs"
    and count: "usable_frame_count (mc_usable mc) (mc_frame_of mc) fa = Ok count" and "mc_fault_test mc = None"
  obtains as system w h' where "kernel_main mc bi (None, h :: 'h) = (as, Running (Shell fs system heap, Some w, h'))"
    "writer_ok (mc_font mc) w" "info w = i" "screen_of w = fold (spec_op (mc_font mc) i) (outputs as) (screen_of (writer_new buf i))"
proof -
  let ?shell = "Shell fs \<lparr>usable_frame_total = of_nat count, frames_consumed_at_boot = allocated_frames fa\<rparr> heap"
  let ?start_shell = "\<lambda>(fa, heap, fs). boot_bind (boot_devices mc) (\<lambda>_.
    boot_bind (boot_total (usable_frame_count (mc_usable mc) (mc_frame_of mc) fa)) (\<lambda>count.
    boot_return (Shell fs \<lparr>usable_frame_total = of_nat count, frames_consumed_at_boot = allocated_frames fa\<rparr> heap))) :: ('h, boot_end) boot"
  let ?rest = "boot_bind (boot_memory mc bi) (\<lambda>(fa, heap). boot_bind (boot_volume mc bi fa heap) (\<lambda>fs. ?start_shell (fa, heap, fs)))"
  have main: "kernel_main mc bi = boot_bind (boot_screen mc bi) (\<lambda>_. ?rest)"
    using assms(7) by (simp add: kernel_main_def boot_setup_def boot_bind_assoc run_requested_fault_test_def case_prod_unfold)
  have "boots (mc_font mc) i (?start_shell (fa, heap, fs)) ?shell"
    unfolding prod.case count expect_simps boot_bind_simps by (intro boots_bind [OF boot_devices_boots [OF f]] boots_return)
  then have rest: "boots (mc_font mc) i ?rest ?shell"
    by (intro boots_bind [OF mem]) (simp only: prod.case, rule boots_bind [OF vol])
  obtain ops h1 where screen: "boot_screen mc bi (None, h) =
      ([DisableInterrupts, InitSerial, InitFramebuffer] @ fst (console mc ops (Some (writer_new buf i), h1)),
       snd (console mc ops (Some (writer_new buf i), h1)))"
    by (rule boot_screen_eq [OF fb(1)])
  obtain as1 w1 h2 where 1: "console mc ops (Some (writer_new buf i), h1) = (as1, Running ((), Some w1, h2))" "writer_ok (mc_font mc) w1"
      "info w1 = i" "screen_of w1 = fold (spec_op (mc_font mc) i) (outputs as1) (screen_of (writer_new buf i))"
    by (rule bootsD [OF boots_output [OF f] fb(2)]) (simp_all add: writer_new_def)
  obtain as2 w2 h3 where 2: "?rest (Some w1, h2) = (as2, Running (?shell, Some w2, h3))" "writer_ok (mc_font mc) w2" "info w2 = i"
      "screen_of w2 = fold (spec_op (mc_font mc) i) (outputs as2) (screen_of w1)"
    by (rule bootsD [OF rest 1(2,3)])
  have "kernel_main mc bi (None, h) = (([DisableInterrupts, InitSerial, InitFramebuffer] @ as1) @ as2, Running (?shell, Some w2, h3))"
    using 2(1) unfolding main boot_bind_def [of "boot_screen mc bi"] screen 1(1) by simp
  moreover have "outputs [DisableInterrupts, InitSerial, InitFramebuffer] = []"
    by (simp add: outputs_def)
  ultimately show thesis
    using that 1(4) 2(2-4) by (metis append_Nil fold_append comp_apply outputs_simps(2))
qed

definition demo_machine :: "(unit, bool, nat, nat, (nat \<times> nat \<times> page_flag set) list, unit) machine" where
  "demo_machine = \<lparr>mc_bus = demo_bus, mc_font = demo_font, mc_usable = True, mc_frame_of = demo_physical, mc_page_of = (\<lambda>x. unat x div 4096), mc_pages = demo_pages,
     mc_map_to = demo_map_to, mc_exhausted = (), mc_debug = (\<lambda>_. lit ''FrameAllocationFailed''), mc_cr3 = 0x1000,
     mc_virt_new = Some, mc_virt_add = (\<lambda>a n. Some (a + n)), mc_offset_page_table = (\<lambda>_ _. []),
     mc_memory = (\<lambda>a. rd_bytes demo_disk ! unat (a - 0x10000000)), mc_breakpoint_ip = lit ''0x8000'',
     mc_layouts = [\<lparr>l_size = 40, l_align = 8\<rparr>, \<lparr>l_size = 12, l_align = 1\<rparr>, \<lparr>l_size = 8, l_align = 8\<rparr>],
     mc_ticks = (0, 0), mc_dropped = 0, mc_fault_test = None\<rparr>"

definition demo_boot_info :: "bool boot_info" where
  "demo_boot_info = \<lparr>bi_framebuffer = Some (buffer demo_writer, info demo_writer), bi_ramdisk_addr = Some 0x10000000,
     bi_ramdisk_len = of_nat (length (rd_bytes demo_disk)), bi_physical_memory_offset = Some 0xffff800000000000,
     bi_memory_regions = demo_regions\<rparr>"

lemma demo_disk_bytes: "rd_bytes demo_disk \<noteq> []" "512 dvd length (rd_bytes demo_disk)"
proof -
  have "length (rd_bytes demo_disk) = 33811456"
    by (simp add: demo_disk_def)
  then show "rd_bytes demo_disk \<noteq> []" "512 dvd length (rd_bytes demo_disk)"
    by auto
qed

lemma demo_sound: "sound_console demo_font (bi_framebuffer demo_boot_info)"
  using demo_console by (simp add: sound_console_def demo_boot_info_def demo_writer_def writer_new_def)

section \<open>Properties\<close>

text \<open>
  C13. On every machine, bring-up first disables interrupts. It enables them directly after the keyboard controller and the
  interrupt hardware were set up, and after the descriptor tables and the heap were, and then does nothing but print
  before the shell starts. If it starts the shell, it did enable them, and the shell has the mounted data volume of the boot information. If
  a fault test was built in, they are never enabled. If bring-up panics, they are not enabled, with one exception: the messages
  printed after enabling them can panic when the framebuffer or the font is malformed. With a sound console there is no exception.
\<close>

theorem boot_order:
  assumes "kernel_main mc bi (None, h) = (as, r)"
  shows "(\<exists>rest. as = DisableInterrupts # InitSerial # rest) \<and>
    ((\<exists>fs system heap s. r = Running (Shell fs system heap, s)) \<longrightarrow> EnableInterrupts \<in> set as) \<and>
    (EnableInterrupts \<in> set as \<longrightarrow>
      (\<exists>fs system heap s. r = Running (Shell fs system heap, s)) \<or> (r = Panicked None \<and> (\<exists>op. last as = Output op))) \<and>
    (sound_console (mc_font mc) (bi_framebuffer bi) \<longrightarrow>
      (EnableInterrupts \<in> set as \<longleftrightarrow> (\<exists>fs system heap s. r = Running (Shell fs system heap, s)))) \<and>
    (EnableInterrupts \<in> set as \<longrightarrow> mc_fault_test mc = None \<and>
      (\<exists>pre post. as = pre @ [InitKeyboard, InitHardware, EnableInterrupts] @ post \<and>
         {InitGdt, InitIdt, Breakpoint, MapHeap} \<subseteq> set pre \<and> EnableInterrupts \<notin> set pre \<and> (\<forall>a \<in> set post. \<exists>op. a = Output op))) \<and>
    (\<forall>fs system heap s. r = Running (Shell fs system heap, s) \<longrightarrow> mc_fault_test mc = None \<and>
      (\<exists>d. from_boot_info (mc_memory mc) (bi_ramdisk_addr bi) (bi_ramdisk_len bi) = Ok d \<and> mount (ram_device d) = Ok fs))"
proof -
  have quiet: "EnableInterrupts \<notin> set as1" if "boot_setup mc bi (None, h) = (as1, r1)" for as1 r1
    using quiet_setup [of mc bi] that unfolding quiet_def by (metis fst_conv)
  have start: "\<exists>rest. as1 @ bs = DisableInterrupts # InitSerial # rest" if "boot_setup mc bi (None, h) = (as1, r1)" for as1 r1 bs
    using boot_setup_starts [of mc bi "(None, h)"] that by auto
  show ?thesis
  proof (cases rule: kernel_main_cases [of mc bi "(None, h)"])
    case (early as1 p)
    then show ?thesis
      using assms start [OF early(1), of "[]"] quiet [OF early(1)] by auto
  next
    case (fault as1 fa heap fs w h' as2 r')
    then show ?thesis
      using assms start [OF fault(1), of as2] quiet [OF fault(1)] by auto
  next
    case (devices as1 fa heap fs w h' as2 p)
    have "\<not> sound_console (mc_font mc) (bi_framebuffer bi)"
      using boot_setup_Running(4) [OF devices(1)] devices(3) boot_devices_no_panic [of mc] unfolding sound_console_def by blast
    moreover have "as = as1 @ as2" "r = Panicked p"
      using assms devices(4) by simp_all
    ultimately show ?thesis
      using start [OF devices(1), of as2] devices(2) enabled_after(1,2) [OF devices(1,3)] enabled_after(3) [OF devices(1,3) refl] by simp
  next
    case (shell as1 fa heap fs w h' as2 s' count)
    have "as = as1 @ as2"
      "r = Running (Shell fs \<lparr>usable_frame_total = of_nat count, frames_consumed_at_boot = allocated_frames fa\<rparr> heap, s')"
      using assms shell(5) by simp_all
    then show ?thesis
      using start [OF shell(1), of as2] shell(2) enabled_after(1,2) [OF shell(1,3)] boot_setup_Running(2) [OF shell(1)] by simp
  qed
qed

text \<open>Witness of C13: the demonstration machine, whose console is sound.\<close>

theorem boot_order_witness:
  "\<exists>as r rest. kernel_main demo_machine demo_boot_info (None, ()) = (as, r) \<and> as = DisableInterrupts # InitSerial # rest \<and>
     (EnableInterrupts \<in> set as \<longleftrightarrow> (\<exists>fs system heap s. r = Running (Shell fs system heap, s)))"
proof -
  obtain as r where run: "kernel_main demo_machine demo_boot_info (None, ()) = (as, r)"
    by (rule prod.exhaust)
  have "mc_font demo_machine = demo_font"
    by (simp add: demo_machine_def)
  then show ?thesis
    using boot_order [OF run] run demo_sound by auto
qed

text \<open>
  C14. A machine whose framebuffer has the geometry it describes, whose boot information has the physical memory mapping, whose heap
  can be mapped, and whose RAM disk holds a mountable FAT32 volume with an intact root directory and \<open>HELLO.TXT\<close>, reaches
  the shell on that volume, with interrupts enabled and with the heap as it was mapped; the boot-time requests to the heap
  are served as long as they fit in its 2 MiB. Nothing printed on the way panics: the writer the shell finds is well-formed, and its
  screen shows what bring-up printed.
\<close>

theorem boot_reaches_shell:
  fixes h :: 'h
  assumes "bi_framebuffer bi = Some (buf, i)" "font_ok (mc_font mc)" "writer_ok (mc_font mc) (writer_new buf i)"
    and "bi_physical_memory_offset bi = Some p" "mc_virt_new mc p = Some offset"
    and "memory_init (mc_virt_add mc) (mc_offset_page_table mc) (mc_cr3 mc) offset = Some m"
    and "physical (mc_frame_of mc) frame" "inj_on frame {a. 4096 dvd a}" "memory_map_ok (bi_memory_regions bi)"
    and "maps_pages (allocate_frame (mc_usable mc) (mc_frame_of mc)) mappings (mc_map_to mc)"
    and "init_heap (mc_usable mc) (mc_frame_of mc) (mc_page_of mc) (mc_pages mc) (mc_map_to mc) (mc_exhausted mc)
      (m, frame_allocator_init (bi_memory_regions bi)) bump_new = Ok ((m', fa), a)"
    and "list_all layout_ok (mc_layouts mc)" "sum_list (map (\<lambda>l. unat (l_size l) + unat (l_align l)) (mc_layouts mc)) \<le> unat HEAP_SIZE"
    and "from_boot_info (mc_memory mc) (bi_ramdisk_addr bi) (bi_ramdisk_len bi) = Ok d" "mount (ram_device d) = Ok fs"
    and "valid_cluster fs (root_cluster fs)" "dir_closed fs (root_cluster fs)"
    and "resolves fs (root_cluster fs) (path_components (encode_utf8 (lit ''HELLO.TXT''))) e" "\<not> is_directory e" "intact fs e"
    and "mc_fault_test mc = None"
  shows "\<exists>as system heap w h'. kernel_main mc bi (None, h) = (as, Running (Shell fs system heap, Some w, h')) \<and> EnableInterrupts \<in> set as \<and>
    b_start heap = HEAP_START \<and> bump_capacity heap = HEAP_SIZE \<and>
    writer_ok (mc_font mc) w \<and> info w = i \<and> screen_of w = fold (spec_op (mc_font mc) i) (outputs as) (screen_of (writer_new buf i))"
proof -
  have regions: "memory_map_ok (memory_regions (frame_allocator_init (bi_memory_regions bi)))"
    using assms(9) by (simp add: frame_allocator_init_def)
  obtain frames where ok: "frames_ok (mc_usable mc) (mc_frame_of mc) frames fa"
    and a: "bump_init bump_new HEAP_START HEAP_SIZE = Ok a"
    using init_heap_frames [OF assms(7,8) regions assms(10,11)] by metis
  have count: "usable_frame_count (mc_usable mc) (mc_frame_of mc) fa = Ok (length frames)"
    using ok by (intro usable_frame_count_eq) (simp add: frames_ok_def)
  obtain heap where heap: "boot_allocate (mc_layouts mc) a = (boot_return heap :: ('h, bump) boot)" "b_start heap = b_start a" "b_end heap = b_end a"
    using boot_allocate_fits [OF assms(12), of a] bump_init_Ok [OF a] assms(13) by (auto simp: HEAP_START_def)
  have fs: "volume_ok fs"
    using assms(14,15) ram.mount_ok from_boot_info_ok by blast
  obtain lines where root: "list_dir fs (encode_utf8 (lit ''/'')) boot_ls_visitor [] = Ok (lines, ())"
    using boot_list_root [OF fs assms(17,16)] by blast
  obtain hello n where hello: "read_file fs (encode_utf8 (lit ''HELLO.TXT'')) boot_cat_visitor [] = Ok (hello, n)"
    using boot_read_file [OF fs assms(18-20)] by auto
  note parts = boots_memory [OF assms(2,4,5,6,11) heap(1)] boots_volume [OF assms(2) count assms(14,15) root hello]
  obtain as system w h' where run: "kernel_main mc bi (None, h) = (as, Running (Shell fs system heap, Some w, h'))"
    "writer_ok (mc_font mc) w" "info w = i" "screen_of w = fold (spec_op (mc_font mc) i) (outputs as) (screen_of (writer_new buf i))"
    by (rule boots_kernel [OF assms(2,1,3) parts count assms(21)])
  have "EnableInterrupts \<in> set as"
    using run(1) by (cases rule: kernel_main_cases [of mc bi "(None, h)"]) (auto elim: boot_devices_acts)
  moreover have "bump_capacity heap = HEAP_SIZE" "b_start heap = HEAP_START"
    using heap(2,3) bump_init_Ok [OF a] by (simp_all add: bump_capacity_def word_unat_eq_iff)
  ultimately show ?thesis
    using run by blast
qed

text \<open>Witness of C14: the demonstration machine reaches the shell on the demonstration disk.\<close>

theorem boot_reaches_shell_witness:
  "\<exists>as system heap w. kernel_main demo_machine demo_boot_info (None, ()) = (as, Running (Shell demo_fs system heap, Some w, ())) \<and>
     EnableInterrupts \<in> set as \<and> writer_ok demo_font w"
proof -
  obtain m fa a where heap: "init_heap True demo_physical (\<lambda>x. unat x div 4096) demo_pages demo_map_to ()
       ([], frame_allocator_init demo_regions) bump_new = Ok ((m, fa), a)"
    by (rule demo_init_heap)
  have layouts: "list_all layout_ok (mc_layouts demo_machine)"
    "sum_list (map (\<lambda>l. unat (l_size l) + unat (l_align l)) (mc_layouts demo_machine)) \<le> unat HEAP_SIZE"
    by (simp_all add: demo_machine_def layout_ok_def is_power_of_two_def HEAP_SIZE_def)
  have disk: "from_boot_info (mc_memory demo_machine) (bi_ramdisk_addr demo_boot_info) (bi_ramdisk_len demo_boot_info) = Ok demo_disk"
    using from_boot_info_disk [OF demo_disk_ok demo_disk_bytes] by (simp add: demo_machine_def demo_boot_info_def)
  let ?p = "[0x48, 0x45, 0x4c, 0x4c, 0x4f, 0x2e, 0x54, 0x58, 0x54] :: u8 list"
  have "path_components (encode_utf8 (lit ''HELLO.TXT'')) = [?p]"
    by (simp add: encode_ascii lit_def path_components_def)
  moreover have "resolves demo_fs 2 [?p] (raw_entry hello_entry)"
    by (simp add: resolves_simps first_named_iff named_def eq_ignore_ascii_case_def to_ascii_lowercase_def is_dot_component_def)
  ultimately have hello: "resolves demo_fs (root_cluster demo_fs) (path_components (encode_utf8 (lit ''HELLO.TXT''))) (raw_entry hello_entry)"
    by simp
  have screen: "mc_font demo_machine = demo_font" "writer_new (buffer demo_writer) (info demo_writer) = demo_writer"
    by (simp_all add: demo_machine_def demo_writer_def writer_new_def)
  have "\<exists>as system heap w h'. kernel_main demo_machine demo_boot_info (None, ()) = (as, Running (Shell demo_fs system heap, Some w, h')) \<and>
      EnableInterrupts \<in> set as \<and> b_start heap = HEAP_START \<and> bump_capacity heap = HEAP_SIZE \<and>
      writer_ok (mc_font demo_machine) w \<and> info w = info demo_writer \<and>
      screen_of w = fold (spec_op (mc_font demo_machine) (info demo_writer)) (outputs as) (screen_of (writer_new (buffer demo_writer) (info demo_writer)))"
    by (rule boot_reaches_shell [where p = "0xffff800000000000" and offset = "0xffff800000000000" and m = "[]" and frame = "\<lambda>a. a" and mappings = "\<lambda>m. m"
          and m' = m and fa = fa and a = a and d = demo_disk and e = "raw_entry hello_entry"])
      (use heap layouts disk demo_mount hello demo_memory demo_maps_pages demo_console screen in
        \<open>simp_all add: demo_boot_info_def demo_machine_def memory_init_def active_level_4_table_def dir_closed_def intact_def\<close>)
  then show ?thesis
    by (auto simp: screen(1))
qed

end
