(* ===== verification/Handover.thy ===== *)
theory Handover
  imports Image_Builder_Correct Data_Loader Kernel_Boot
begin

text \<open>
  From the host directory to the kernel's disk: the image the build makes, the firmware that publishes its
  partitions, the loader that takes the snapshot, and the RAM disk the kernel makes of it.
\<close>

section \<open>A firmware that publishes a disk\<close>

text \<open>The entry of a partition as the firmware hands it out: the name in 36 UTF-16 units, filled up with zeros.\<close>

definition entry_of :: "partition \<Rightarrow> gpt_entry" where
  "entry_of p = \<lparr>partition_type_guid = part_type_guid p, partition_name = map of_nat (part_name p) @ replicate (36 - length (part_name p)) 0\<rparr>"

definition publishes_partition :: "block_io \<Rightarrow> u8 list \<Rightarrow> partition \<Rightarrow> bool" where
  "publishes_partition io d p \<longleftrightarrow> (let m = bio_media io in
     is_media_present m \<and> is_logical_partition m \<and> block_size m = 512 \<and> io_align m \<le> 4096 \<and>
     last_block m = of_nat (last_lba p - first_lba p)) \<and> serves io (partition_bytes d p)"

definition publishes :: "'h firmware \<Rightarrow> gpt_crate \<Rightarrow> u8 list \<Rightarrow> bool" where
  "publishes fw g d \<longleftrightarrow> (\<forall>t. open_table g d = Ok t \<longrightarrow> (\<exists>hs. locate_partitions fw = Some hs \<and>
     (\<forall>h \<in> set hs. \<forall>entry. partition_info fw h = Some (Some entry) \<longrightarrow>
        (\<exists>p \<in> snd ` set (gd_partitions t). entry = entry_of p \<and> (\<exists>io. open_block_io fw h = Some io \<and> publishes_partition io d p))) \<and>
     (\<forall>p \<in> snd ` set (gd_partitions t). \<exists>h \<in> set hs. partition_info fw h = Some (Some (entry_of p)))))"

lemma sol_data_entry:
  "part_type_guid p = SOL_DATA_PARTITION_TYPE \<Longrightarrow> part_name p = lit ''sol-data'' \<Longrightarrow> is_sol_data_partition_entry (entry_of p)"
  by (simp add: is_sol_data_partition_entry_def entry_of_def SOL_DATA_PARTITION_NAME_def lit_def)

lemma other_entry: "part_type_guid p \<noteq> SOL_DATA_PARTITION_TYPE \<Longrightarrow> \<not> is_sol_data_partition_entry (entry_of p)"
  by (simp add: is_sol_data_partition_entry_def entry_of_def)

lemma loader_finds_data:
  assumes g: "gpt_documented g" and d: "two_volumes g d boot data" "length data = DATA_PARTITION_BYTES"
    and fw: "publishes fw g d" "pages_for fw a"
  shows "load_sol_data_partition fw Disk = Some (a, data)"
proof -
  obtain ps p q where t: "open_table g d = Ok \<lparr>gd_device = d, gd_partitions = ps\<rparr>" "snd ` set ps = {p, q}" "holds d q"
      "part_type_guid p = type_EFI g" "part_type_guid q = type_BASIC g" "part_name q = lit ''sol-data''" "partition_bytes d q = data"
    by (rule two_volumesE [OF d(1)]) (rule that)
  have types: "part_type_guid p \<noteq> SOL_DATA_PARTITION_TYPE" "part_type_guid q = SOL_DATA_PARTITION_TYPE"
    using t(4,5) documented_types [OF g] by (simp_all add: SOL_DATA_PARTITION_TYPE_def)
  note published = fw(1) [unfolded publishes_def, rule_format, OF t(1), unfolded gpt_disk.simps t(2)]
  obtain hs where hs: "locate_partitions fw = Some hs"
    "\<forall>h \<in> set hs. \<forall>entry. partition_info fw h = Some (Some entry) \<longrightarrow>
       (\<exists>r \<in> {p, q}. entry = entry_of r \<and> (\<exists>io. open_block_io fw h = Some io \<and> publishes_partition io d r))"
    "\<forall>r \<in> {p, q}. \<exists>h \<in> set hs. partition_info fw h = Some (Some (entry_of r))"
    using published by (elim exE conjE) (rule that)
  obtain h0 where "h0 \<in> set hs" "sol_handle fw h0"
    using hs(3) sol_data_entry [OF types(2) t(6)] by (auto simp: sol_handle_def)
  then obtain h where h: "find (sol_handle fw) hs = Some h" "h \<in> set hs" "sol_handle fw h"
    by (cases "find (sol_handle fw) hs") (auto simp: find_None_iff find_Some_iff)
  then obtain entry where entry: "partition_info fw h = Some (Some entry)" "is_sol_data_partition_entry entry"
    by (auto simp: sol_handle_def split: option.splits)
  obtain io where io: "open_block_io fw h = Some io" "publishes_partition io d q"
    using hs(2) h(2) entry other_entry [OF types(1)] by blast
  have len: "length data = 67108864"
    using d(2) by (simp add: image_constants)
  have "length (partition_bytes d q) = 512 * (last_lba q + 1 - first_lba q)"
    using holdsD(3) [OF t(3)] by (simp add: partition_bytes_def)
  then have "last_lba q - first_lba q = 131071"
    using len t(7) by simp
  then have "media_ok (bio_media io)" "serves io data"
    using io(2) t(7) by (auto simp: publishes_partition_def media_ok_def Let_def)
  then have "load_partition fw h = Some (a, data)"
    using load_partition_serves [OF io(1) _ _ len fw(2)] by blast
  then show ?thesis
    using hs(1) h(1) by (simp add: load_sol_data_eq)
qed

section \<open>The kernel's disk\<close>

text \<open>Memory in which the snapshot stands at an address.\<close>

definition in_memory :: "(u64 \<Rightarrow> u8) \<Rightarrow> u64 \<Rightarrow> u8 list \<Rightarrow> bool" where
  "in_memory mem v data \<longleftrightarrow> (\<forall>i < length data. mem (v + of_nat i) = data ! i)"

lemma kernel_disk:
  assumes "in_memory mem v data" "length data = DATA_PARTITION_BYTES"
  shows "from_boot_info mem (Some v) (snd (ramdisk_fields (Some (a, data)))) = Ok \<lparr>rd_bytes = data\<rparr>"
proof -
  have len: "length data = 67108864"
    using assms(2) by (simp add: image_constants)
  have "from_raw_parts mem v (of_nat (length data)) = data"
    using assms(1) len unfolding from_raw_parts_def in_memory_def by (intro nth_equalityI) simp_all
  then show ?thesis
    using len by (simp add: from_boot_info_def ramdisk_fields_def SECTOR_SIZE_def)
qed

section \<open>An example\<close>

text \<open>A firmware whose handles are the partitions of the table on the disk, and memory that holds nothing but a snapshot.\<close>

definition partition_device :: "u8 list \<Rightarrow> partition \<Rightarrow> block_io" where
  "partition_device d p = \<lparr>bio_media = \<lparr>block_size = 512, last_block = of_nat (last_lba p - first_lba p), is_media_present = True,
     is_logical_partition = True, io_align = 0, media_id = 0\<rparr>, read_blocks = (\<lambda>_ lba n. Some (\<lambda>k. partition_bytes d p ! (512 * unat lba + k)))\<rparr>"

definition disk_firmware :: "gpt_crate \<Rightarrow> u8 list \<Rightarrow> partition firmware" where
  "disk_firmware g d = \<lparr>locate_partitions = (case open_table g d of Ok t \<Rightarrow> Some (map snd (gd_partitions t)) | _ \<Rightarrow> None),
     partition_info = (\<lambda>p. Some (Some (entry_of p))), open_block_io = (\<lambda>p. Some (partition_device d p)),
     allocate_pages = (\<lambda>n. Some (0x10000000, replicate (n * 4096) 0))\<rparr>"

lemma disk_firmware_publishes: "publishes (disk_firmware g d) g d"
proof -
  have "publishes_partition (partition_device d p) d p" for p
    by (simp add: publishes_partition_def partition_device_def serves_def)
  then show ?thesis
    unfolding publishes_def disk_firmware_def by auto
qed

lemma disk_firmware_pages: "pages_for (disk_firmware g d) 0x10000000"
  by (simp add: pages_for_def disk_firmware_def)

lemma in_memory_at: "length data < 2 ^ 64 \<Longrightarrow> in_memory (\<lambda>x. data ! unat (x - v)) v data"
  by (simp add: in_memory_def unat_of_nat)

end
