(* ===== verification/Spec2Isabelle.thy ===== *)
theory Spec2Isabelle
  imports Fat32_Correct Keyboard_Race Memory Interrupts Shell_Display Launcher Pci Kernel_Correct Handover
begin

text \<open>
  A verification of Sol OS: the x86-64 kernel (\<open>kernel/src\<close>), the build script that makes its disk image
  (\<open>build.rs\<close>), the step the vendored UEFI loader adds to hand the data partition to the kernel
  (\<open>vendor/bootloader/uefi/src/main.rs\<close>), and the host program that starts the image in QEMU (\<open>src/main.rs\<close>).

  \<^bold>\<open>The system.\<close> The build script copies a host directory into a FAT32 volume and puts it, as the partition \<open>sol-data\<close>, beside the boot
  partition on a GPT disk image. At boot the loader reads that partition into memory through the firmware. \<open>kernel_main\<close> brings up serial line and framebuffer, descriptor
  tables, page tables and heap, makes a RAM disk of the snapshot and mounts it, sets up keyboard, timer and interrupt
  controllers, enables interrupts and starts the shell. From then on the keyboard interrupt decodes scancodes into a queue of key events, the timer interrupt counts ticks, and
  the shell takes events from the queue, edits a line, and executes commands that read the volume and print to the
  serial line and the framebuffer.

  \<^bold>\<open>Conventions.\<close> A Rust function is a HOL function. A result is \<open>Ok\<close>, \<open>Err\<close> or \<open>Panic\<close>; indexing, slicing, \<open>expect\<close>
  and the overflow checks of plain arithmetic are \<open>Panic\<close> branches, so a theorem that an operation does not panic is a statement about all
  of them. Integers are words of their width where bits or wrap-around matter, and natural numbers with the bound \<open>2 ^ 64\<close> where they
  are sizes or indices. A struct is a record, an enum a datatype. Closures become state-passing visitors.
  Port drivers are programs of the state monad over a bus of unknown devices. Text is a list of scalar values; what is printed is a list of console operations.
  Atomic accesses that can interleave are steps of a transition relation.

  \<^bold>\<open>Theories and the code they model.\<close>
  \<^item> \<open>Prelude\<close>, \<open>Text\<close>, \<open>Ring\<close>, \<open>Ports\<close>: integers, results, slices; UTF-8 and number formatting; circular buffers with
    the locale \<open>bounded_fifo\<close>; port input and output with rules for the accesses a driver makes.
  \<^item> \<open>Storage\<close>: \<open>storage.rs\<close>. The contract of a block device is the locale \<open>block_device_spec\<close>; the RAM disk interprets it.
  \<^item> \<open>Fat32\<close>, \<open>Fat32_Names\<close>, \<open>Fat32_Volume\<close>, \<open>Fat32_Walk\<close>, \<open>Fat32_Files\<close>, \<open>Fat32_Correct\<close>: \<open>fat32.rs\<close>. \<open>Fat32\<close> has the definitions; the
    others, in this order, treat directory entries, mounting and cluster arithmetic, the walks along cluster chains, the
    public operations against an abstract volume, and the properties. \<open>Fat32_Image\<close> is a concrete volume.
  \<^item> \<open>Keyboard\<close>, \<open>Keyboard_Correct\<close>, \<open>Keyboard_Race\<close>: \<open>keyboard.rs\<close>; queue, decoder and controller set-up, their specification, and the queue
    under interleaved atomic accesses.
  \<^item> \<open>Allocator\<close>, \<open>Memory\<close>: \<open>allocator.rs\<close> and \<open>memory.rs\<close>. The locale \<open>frame_source\<close> is what the heap mapping needs of a frame allocator.
  \<^item> \<open>Serial\<close>, \<open>Framebuffer\<close>, \<open>Framebuffer_Correct\<close>, \<open>Console\<close>: \<open>serial.rs\<close>, \<open>framebuffer.rs\<close>, \<open>console.rs\<close>. \<open>Framebuffer_Correct\<close> relates the byte
    buffer to an abstract screen.
  \<^item> \<open>Timer\<close>, \<open>Interrupts\<close>: \<open>timer.rs\<close>, \<open>pic.rs\<close>, \<open>gdt.rs\<close>, \<open>interrupts.rs\<close>.
  \<^item> \<open>Line_Editor\<close>, \<open>Line_Editor_Correct\<close>, \<open>Shell\<close>, \<open>Shell_Correct\<close>, \<open>Shell_Display\<close>: \<open>shell.rs\<close>; the arrays and counters of the editor and
    the history, the abstract editor they implement, the commands, their properties, and what is on the screen while typing.
  \<^item> \<open>Pci\<close>: \<open>pci.rs\<close>.
  \<^item> \<open>Kernel\<close>, \<open>Kernel_Boot\<close>, \<open>Kernel_Correct\<close>: \<open>main.rs\<close> of the kernel and the whole running system.
  \<^item> \<open>Disk_Image\<close>, \<open>Gpt_Example\<close>, \<open>Disk_Image_Correct\<close>, \<open>Image_Builder\<close>, \<open>Image_Builder_Correct\<close>: \<open>build.rs\<close>, with \<open>create_gpt_disk\<close> and \<open>create_uefi_image\<close> of the
    vendored crate. \<open>Gpt_Example\<close> is a partition table that meets the hypotheses on the crate \<open>gpt\<close>.
  \<^item> \<open>Data_Loader\<close>: the data-partition part of the UEFI loader. \<open>Launcher\<close>: \<open>src/main.rs\<close>.
  \<^item> \<open>Handover\<close> and this theory: from the build to the kernel's disk.

  \<^bold>\<open>What is shown.\<close>
  \<^item> FAT32: no operation panics on a mounted volume and every walk ends; mounting accepts exactly the described boot sectors; addresses stay in
    the volume; resolving, listing and reading return what the volume holds, and a loop is reported exactly when the chain is cyclic.
  \<^item> Keyboard: scancodes and queue refine a bounded first-in first-out queue behind a decoder, also when the accesses of the interrupt handler and of
    the shell interleave; the controller set-up waits a bounded time and writes only to a ready controller.
  \<^item> Memory: heap blocks of any interleaved allocations are disjoint and inside the heap; the heap's pages are mapped to distinct usable frames.
  \<^item> Console: printing to a well-formed writer refines the abstract screen and never panics; the serial line sends every byte after a
    ready status or gives it up after the limit of its loop.
  \<^item> Shell: every session refines the abstract editor and the commands; the commands print what they should or the error; while
    typing, the screen row shows exactly the prompt and the line.
  \<^item> Kernel: interrupts are enabled only after everything they need is set up; a sound machine reaches the shell, and its screen shows what
    bring-up printed; under all interleavings of
    interrupts and shell steps the system prints the session of the decoded keys and handles every queued key.
  \<^item> Host side: the image holds both volumes, and there is room for them whatever the size of the boot volume; the build does not depend on directory order; the loader hands
    over all of the first partition named \<open>sol-data\<close> or nothing; the volume that was built is the kernel's disk; the launcher's exit code is right.

  \<^bold>\<open>Bounds and fuel.\<close> No bound is chosen for a proof; all are the code's own. Polling loops have the source's limits (100000 reads), the key queue its 255
  usable slots, the line its 80 bytes and the history its 16 entries. The recursion along a cluster chain counts the steps the source
  counts, at most one more than the clusters of the volume, and that count is shown to be enough for every chain without a loop. The exchange in the allocator may fail spuriously any number of
  times; an allocation is shown to return after the first exchange that does not. Sessions, interleavings and disks have arbitrary length,
  except that the boot volume is below \<open>2 ^ 50\<close> blocks, where the host's 64-bit arithmetic cannot overflow. The loader's snapshot is 1024 chunks of 64 KiB.

  \<^bold>\<open>Hypotheses on code outside the repository.\<close> They are arguments or named predicates: the devices behind ports (\<open>bus\<close>), the font, the
  page-table mapper and the address types of \<open>x86_64\<close>, the crates \<open>gpt\<close> (\<open>gpt_documented\<close>) and \<open>fatfs\<close>, the UEFI firmware (\<open>publishes\<close>, \<open>pages_for\<close>), the host's files and processes. Each
  property that uses one has a witness with a concrete instance.

  \<^bold>\<open>Not modelled.\<close>
  \<^item> The locks around the serial port and the framebuffer: a print holds them to its end, and the panic printer, which does not wait, is modelled
    as printing or not. \<open>BOOTLOADER_CONFIG\<close>, attributes, imports and module lists have no behaviour of their own.
  \<^item> The running system records the console operations of the shell and does not perform them; that performing them cannot panic on a
    well-formed writer, which is what bring-up leaves, is the property of the console. The flush of the translation cache after a page is mapped is left out,
    and so is the effect of \<open>int3\<close> other than the handler's output.
  \<^item> The halt instruction and \<open>hlt_loop\<close> appear as the waiting state of the running system and as the end of a command; the instruction itself is hardware.
  \<^item> The rest of the vendored loader is third-party code: firmware protocols for loading the kernel, page tables, the jump, and the BIOS and network boot
    paths, which this system does not use.
  \<^item> On the host, failures of the file system other than missing and short files, and the text of operating-system errors. The identifiers that
    the crate \<open>gpt\<close> draws at random are part of the parameter that stands for it, and \<open>Path::parent\<close> is modelled for paths without repeated or trailing separators.
\<close>

section \<open>From the host directory to the kernel\<close>



end
